(* ===== verification/Prelude.thy ===== *)
theory Prelude
  imports Main "HOL-Library.Word"
begin

text \<open>
  Shared vocabulary of the development: collections of facts, the representation of a database
  table as a list of rows with a key, and the few Python string operations the sources use.
  Nothing here mentions payments; every component theory imports it.
\<close>

named_theorems effect_simps "evaluation of effectful operations"
named_theorems table_simps "lookup and update of keyed tables"
named_theorems keeps_intros "operations that keep a frame relation"

section \<open>Keyed tables\<close>

text \<open>
  A table is a list of rows in insertion order. \<open>row_of key k rows\<close> is the row whose key is
  \<open>k\<close>; \<open>set_row key k f rows\<close> changes that row in place and leaves the order alone.
\<close>

definition row_of :: "('r \<Rightarrow> 'k) \<Rightarrow> 'k \<Rightarrow> 'r list \<Rightarrow> 'r option" where
  "row_of key k rows = find (\<lambda>r. key r = k) rows"

definition set_row :: "('r \<Rightarrow> 'k) \<Rightarrow> 'k \<Rightarrow> ('r \<Rightarrow> 'r) \<Rightarrow> 'r list \<Rightarrow> 'r list" where
  "set_row key k f rows = map (\<lambda>r. if key r = k then f r else r) rows"

lemma row_of_Nil [simp, table_simps]: "row_of key k [] = None"
  by (simp add: row_of_def)

lemma row_of_Cons [simp, table_simps]:
  "row_of key k (r # rows) = (if key r = k then Some r else row_of key k rows)"
  by (simp add: row_of_def)

lemma set_row_Nil [simp]: "set_row key k f [] = []"
  by (simp add: set_row_def)

lemma set_row_Cons [simp]:
  "set_row key k f (r # rows) = (if key r = k then f r else r) # set_row key k f rows"
  by (simp add: set_row_def)

lemma row_of_append [table_simps]:
  "row_of key k (xs @ ys) = (case row_of key k xs of None \<Rightarrow> row_of key k ys | Some r \<Rightarrow> Some r)"
  by (induction xs) auto

lemma row_of_None_iff: "row_of key k rows = None \<longleftrightarrow> k \<notin> key ` set rows"
  by (induction rows) auto

lemma row_of_SomeD: "row_of key k rows = Some r \<Longrightarrow> r \<in> set rows \<and> key r = k"
  by (induction rows) (auto split: if_splits)

lemma row_of_in: "distinct (map key rows) \<Longrightarrow> r \<in> set rows \<Longrightarrow> row_of key (key r) rows = Some r"
  by (induction rows) auto

lemma row_of_set_row [table_simps]:
  assumes "\<And>r. key (f r) = key r"
  shows "row_of key k' (set_row key k f rows) =
    (if k' = k then map_option f (row_of key k rows) else row_of key k' rows)"
  using assms by (induction rows) auto

lemma row_of_replaced:
  "row_of key k rows = Some r \<Longrightarrow> key q = k \<Longrightarrow> row_of key k (set_row key k (\<lambda>_. q) rows) = Some q"
  by (induction rows) (auto split: if_splits)

lemma row_of_other:
  "k' \<noteq> k \<Longrightarrow> key q = k \<Longrightarrow> row_of key k' (set_row key k (\<lambda>_. q) rows) = row_of key k' rows"
  by (induction rows) auto

lemma row_of_filter:
  "distinct (map key rows) \<Longrightarrow> row_of key k rows = Some r \<Longrightarrow> filter (\<lambda>x. key x = k) rows = [r]"
  by (induction rows) (auto simp: filter_empty_conv image_iff split: if_splits)

lemma map_key_set_row [table_simps]:
  assumes "\<And>r. key' (f r) = key' r"
  shows "map key' (set_row key k f rows) = map key' rows"
  using assms by (induction rows) auto

lemma length_set_row [simp]: "length (set_row key k f rows) = length rows"
  by (simp add: set_row_def)

lemma set_row_absent: "k \<notin> key ` set rows \<Longrightarrow> set_row key k f rows = rows"
  by (induction rows) auto

lemma set_row_ident: "(\<And>r. r \<in> set rows \<Longrightarrow> key r = k \<Longrightarrow> f r = r) \<Longrightarrow> set_row key k f rows = rows"
  by (induction rows) auto

lemma set_row_compose:
  assumes "\<And>r. key (f r) = key r"
  shows "set_row key k g (set_row key k f rows) = set_row key k (g \<circ> f) rows"
  using assms by (induction rows) auto

lemma set_set_row:
  assumes "distinct (map key rows)" and "row_of key k rows = Some r"
  shows "set (set_row key k f rows) = insert (f r) {x \<in> set rows. key x \<noteq> k}"
  using assms
proof (induction rows)
  case Nil
  then show ?case by simp
next
  case (Cons x rows)
  show ?case
  proof (cases "key x = k")
    case True
    with Cons.prems have "k \<notin> key ` set rows" by auto
    with True Cons.prems show ?thesis by (auto simp: set_row_absent image_iff)
  next
    case False
    with Cons show ?thesis by auto
  qed
qed

lemma in_set_row: "x \<in> set (set_row key k f rows) \<Longrightarrow> x \<in> set rows \<or> (\<exists>r \<in> set rows. key r = k \<and> x = f r)"
  by (induction rows) (auto split: if_splits)

text \<open>Changing one row moves a column sum by the difference at that row.\<close>

lemma sum_set_row:
  fixes g :: "'r \<Rightarrow> int"
  assumes "distinct (map key rows)" and "row_of key k rows = Some r"
  shows "sum_list (map g (set_row key k f rows)) = sum_list (map g rows) - g r + g (f r)"
  using assms
proof (induction rows)
  case Nil
  then show ?case by simp
next
  case (Cons x rows)
  show ?case
  proof (cases "key x = k")
    case True
    with Cons.prems have "k \<notin> key ` set rows" by auto
    with True Cons.prems show ?thesis by (simp add: set_row_absent)
  next
    case False
    with Cons show ?thesis by simp
  qed
qed

lemma sum_list_filter_if:
  fixes g :: "'r \<Rightarrow> int"
  shows "sum_list (map g (filter P rows)) = sum_list (map (\<lambda>r. if P r then g r else 0) rows)"
  by (induction rows) auto

lemma sum_list_map_uminus:
  fixes g :: "'r \<Rightarrow> int"
  shows "sum_list (map (\<lambda>r. - g r) rows) = - sum_list (map g rows)"
  by (induction rows) auto

lemma sum_list_update_less:
  assumes "i < length xs" and "f x < (f (xs ! i) :: nat)"
  shows "sum_list (map f (xs[i := x])) < sum_list (map f xs)"
proof -
  have "sum_list (map f (xs[i := x])) + f (xs ! i) = sum_list (map f xs) + f x"
    using assms(1) sum_list_update[of i "map f xs" "f x"] elem_le_sum_list[of i "map f xs"]
    by (simp add: map_update)
  with assms(2) show ?thesis by simp
qed

lemma sum_list_zero_nonneg:
  fixes g :: "'r \<Rightarrow> int"
  assumes "\<And>r. r \<in> set rows \<Longrightarrow> 0 \<le> g r" and "sum_list (map g rows) = 0" and "r \<in> set rows"
  shows "g r = 0"
proof -
  from assms(3) obtain xs ys where rows: "rows = xs @ r # ys" by (meson split_list)
  have "0 \<le> sum_list (map g xs)" "0 \<le> sum_list (map g ys)" "0 \<le> g r"
    using assms(1) by (auto intro!: sum_list_nonneg simp: rows)
  with assms(2) show ?thesis by (simp add: rows)
qed

section \<open>Python strings\<close>

text \<open>A Python string is a list of characters; \<open>str\<close> of an integer is its decimal numeral.\<close>

definition digit_char :: "int \<Rightarrow> char" where
  "digit_char d = char_of (48 + d)"

text \<open>Decimal numeral of a number that is not negative.\<close>

function str_nat :: "int \<Rightarrow> string" where
  "str_nat n = (if n < 10 then [digit_char n] else str_nat (n div 10) @ [digit_char (n mod 10)])"
  by pat_completeness auto
termination
  by (relation "measure nat") auto

declare str_nat.simps [simp del]

definition str_int :: "int \<Rightarrow> string" where
  "str_int i = (if i < 0 then ''-'' @ str_nat (- i) else str_nat i)"

end
