(* ===== verification/Effects.thy ===== *)
theory Effects
  imports Prelude
begin

text \<open>
  Stateful Python code that may raise: an operation maps a state to a result, which is an
  exception (\<open>Inl\<close>) or a value (\<open>Inr\<close>), and the state it leaves behind. The state is
  returned with an exception too, because a \<open>with\<close> block or a rollback runs on it.
  The locale \<open>frame_relation\<close> is the interface of the frame arguments: any reflexive and
  transitive relation that the primitive operations keep is kept by every program built from them.
\<close>

type_synonym ('s, 'e, 'a) eff = "'s \<Rightarrow> ('e + 'a) \<times> 's"

definition ret :: "'a \<Rightarrow> ('s, 'e, 'a) eff" where
  "ret x s = (Inr x, s)"

definition raise :: "'e \<Rightarrow> ('s, 'e, 'a) eff" where
  "raise e s = (Inl e, s)"

definition gets :: "('s \<Rightarrow> 'a) \<Rightarrow> ('s, 'e, 'a) eff" where
  "gets f s = (Inr (f s), s)"

definition change :: "('s \<Rightarrow> 's) \<Rightarrow> ('s, 'e, unit) eff" where
  "change f s = (Inr (), f s)"

definition of_result :: "'e + 'a \<Rightarrow> ('s, 'e, 'a) eff" where
  "of_result r s = (r, s)"

definition and_then :: "('s, 'e, 'a) eff \<Rightarrow> ('a \<Rightarrow> ('s, 'e, 'b) eff) \<Rightarrow> ('s, 'e, 'b) eff" where
  "and_then m f s = (case m s of (Inl e, s') \<Rightarrow> (Inl e, s') | (Inr x, s') \<Rightarrow> f x s')"

text \<open>A \<open>for\<close> loop whose body may raise: the first exception ends it.\<close>

fun for_each :: "('a \<Rightarrow> ('s, 'e, unit) eff) \<Rightarrow> 'a list \<Rightarrow> ('s, 'e, unit) eff" where
  "for_each body [] = ret ()"
| "for_each body (x # xs) = and_then (body x) (\<lambda>_. for_each body xs)"

section \<open>Evaluation and inversion\<close>

lemmas eff_defs = ret_def raise_def gets_def change_def of_result_def

lemma and_then_Inr [effect_simps]: "m s = (Inr x, s') \<Longrightarrow> and_then m f s = f x s'"
  by (simp add: and_then_def)

lemma and_then_Inl [effect_simps]: "m s = (Inl e, s') \<Longrightarrow> and_then m f s = (Inl e, s')"
  by (simp add: and_then_def)

lemma and_then_ret [simp]: "and_then (ret x) f = f x"
  by (simp add: and_then_def ret_def fun_eq_iff)

lemma and_then_gets [simp]: "and_then (gets g) f s = f (g s) s"
  by (simp add: and_then_def gets_def)

lemma and_then_change [simp]: "and_then (change g) f s = f () (g s)"
  by (simp add: and_then_def change_def)

lemma and_then_raise [simp]: "and_then (raise e) f = raise e"
  by (simp add: and_then_def raise_def fun_eq_iff)

lemma and_then_of_result_Inr [simp]: "and_then (of_result (Inr x)) f = f x"
  by (simp add: and_then_def of_result_def fun_eq_iff)

lemma and_then_of_result_Inl [simp]: "and_then (of_result (Inl e)) f = raise e"
  by (simp add: and_then_def of_result_def raise_def fun_eq_iff)

lemma and_then_assoc: "and_then (and_then m f) g = and_then m (\<lambda>x. and_then (f x) g)"
  by (auto simp: and_then_def fun_eq_iff split: prod.splits sum.splits)

lemma and_then_Inr_iff:
  "and_then m f s = (Inr y, t) \<longleftrightarrow> (\<exists>x s'. m s = (Inr x, s') \<and> f x s' = (Inr y, t))"
  by (auto simp: and_then_def split: prod.splits sum.splits)

lemma and_then_InrE:
  assumes "and_then m f s = (Inr y, t)"
  obtains x s' where "m s = (Inr x, s')" and "f x s' = (Inr y, t)"
  using assms by (auto simp: and_then_Inr_iff)

lemma and_then_Inl_iff:
  "and_then m f s = (Inl e, t) \<longleftrightarrow>
     m s = (Inl e, t) \<or> (\<exists>x s'. m s = (Inr x, s') \<and> f x s' = (Inl e, t))"
  by (auto simp: and_then_def split: prod.splits sum.splits)

lemma ret_Inr_iff [simp]: "ret x s = (Inr y, t) \<longleftrightarrow> y = x \<and> t = s"
  by (auto simp: ret_def)

lemma raise_Inr_iff [simp]: "raise e s = (Inr y, t) \<longleftrightarrow> False"
  by (simp add: raise_def)

lemma gets_Inr_iff [simp]: "gets f s = (Inr y, t) \<longleftrightarrow> y = f s \<and> t = s"
  by (auto simp: gets_def)

lemma change_Inr_iff [simp]: "change f s = (Inr y, t) \<longleftrightarrow> t = f s"
  by (auto simp: change_def)

lemma of_result_Inr_iff [simp]: "of_result r s = (Inr y, t) \<longleftrightarrow> r = Inr y \<and> t = s"
  by (auto simp: of_result_def)

lemma for_each_append:
  "for_each body (xs @ ys) = and_then (for_each body xs) (\<lambda>_. for_each body ys)"
  by (induction xs) (simp_all add: and_then_assoc)

section \<open>Frame relations\<close>

text \<open>An operation keeps a relation when every call that returns relates the states before and after.\<close>

definition keeps :: "('s \<Rightarrow> 's \<Rightarrow> bool) \<Rightarrow> ('s, 'e, 'a) eff \<Rightarrow> bool" where
  "keeps R m \<longleftrightarrow> (\<forall>s x t. m s = (Inr x, t) \<longrightarrow> R s t)"

lemma keepsD: "keeps R m \<Longrightarrow> m s = (Inr x, t) \<Longrightarrow> R s t"
  by (simp add: keeps_def)

lemma keepsI: "(\<And>s x t. m s = (Inr x, t) \<Longrightarrow> R s t) \<Longrightarrow> keeps R m"
  by (simp add: keeps_def)

locale frame_relation =
  fixes R :: "'s \<Rightarrow> 's \<Rightarrow> bool"
  assumes R_refl: "R s s"
    and R_trans: "R s t \<Longrightarrow> R t u \<Longrightarrow> R s u"
begin

lemma keeps_ret: "keeps R (ret x)"
  by (simp add: keeps_def R_refl)

lemma keeps_raise: "keeps R (raise e)"
  by (simp add: keeps_def)

lemma keeps_gets: "keeps R (gets f)"
  by (simp add: keeps_def R_refl)

lemma keeps_of_result: "keeps R (of_result r)"
  by (simp add: keeps_def R_refl)

lemma keeps_change: "(\<And>s. R s (f s)) \<Longrightarrow> keeps R (change f)"
  by (simp add: keeps_def)

lemma keeps_and_then:
  assumes "keeps R m" and "\<And>x. keeps R (f x)"
  shows "keeps R (and_then m f)"
proof (rule keepsI)
  fix s y t
  assume "and_then m f s = (Inr y, t)"
  then obtain x s' where "m s = (Inr x, s')" and "f x s' = (Inr y, t)" by (rule and_then_InrE)
  with assms show "R s t" by (blast intro: R_trans dest: keepsD)
qed

lemma keeps_for_each: "(\<And>x. keeps R (body x)) \<Longrightarrow> keeps R (for_each body xs)"
  by (induction xs) (auto intro: keeps_ret keeps_and_then)

lemma keeps_option:
  "(\<And>x. keeps R (f x)) \<Longrightarrow> keeps R g \<Longrightarrow> keeps R (case y of None \<Rightarrow> g | Some x \<Rightarrow> f x)"
  by (simp split: option.split)

lemma keeps_if: "keeps R f \<Longrightarrow> keeps R g \<Longrightarrow> keeps R (if b then f else g)"
  by simp

lemmas keeps_rules = keeps_ret keeps_raise keeps_gets keeps_of_result keeps_and_then keeps_for_each
  keeps_option keeps_if

end

end
