(* ===== verification/Domain.thy ===== *)
theory Domain
  imports Effects "HOL-Library.List_Lexorder" "HOL-Library.Char_ord"
begin

text \<open>
  The domain layer (\<open>app/domain\<close>): identifiers, the enumerations of \<open>enums.py\<close>, JSON values,
  the exceptions of \<open>exceptions.py\<close> with their HTTP status codes, and the rows of \<open>models.py\<close>.
  Constructors carry the names of the source and are written with their enumeration, as in
  \<open>PaymentStatus.FAILED\<close>. Money and version counters are Python integers; the width of the
  database columns is part of the constraints in \<open>Database\<close>. Times are microseconds.
\<close>

section \<open>Identifiers\<close>

text \<open>
  \<open>uuid.UUID\<close>: 128 bits, ordered by the integer value (\<open>UUID.int\<close>), printed as five groups
  of lower-case hexadecimal digits.
\<close>

datatype UUID = UUID (uuid_int: "128 word")

instantiation UUID :: linorder
begin

definition less_eq_UUID :: "UUID \<Rightarrow> UUID \<Rightarrow> bool" where
  "less_eq_UUID a b \<longleftrightarrow> uuid_int a \<le> uuid_int b"

definition less_UUID :: "UUID \<Rightarrow> UUID \<Rightarrow> bool" where
  "less_UUID a b \<longleftrightarrow> uuid_int a < uuid_int b"

instance
  by standard (auto simp: less_eq_UUID_def less_UUID_def UUID.expand)

end

lemma UUID_le [simp]: "UUID a \<le> UUID b \<longleftrightarrow> a \<le> b"
  by (simp add: less_eq_UUID_def)

lemma UUID_less [simp]: "UUID a < UUID b \<longleftrightarrow> a < b"
  by (simp add: less_UUID_def)

definition hex_char :: "int \<Rightarrow> char" where
  "hex_char d = (if d < 10 then char_of (48 + d) else char_of (87 + d))"

definition hex_digits :: "nat \<Rightarrow> int \<Rightarrow> string" where
  "hex_digits width n = map (\<lambda>i. hex_char (n div 16 ^ i mod 16)) (rev [0..<width])"

definition str_uuid :: "UUID \<Rightarrow> string" where
  "str_uuid u = (let h = hex_digits 32 (uint (uuid_int u)) in
     take 8 h @ ''-'' @ take 4 (drop 8 h) @ ''-'' @ take 4 (drop 12 h) @ ''-'' @
     take 4 (drop 16 h) @ ''-'' @ drop 20 h)"

section \<open>Enumerations\<close>

datatype OwnerType = USER | MERCHANT | SYSTEM

datatype AccountType = USER_WALLET | MERCHANT_PAYABLE | PSP_SUSPENSE | FEE_INCOME

datatype Direction = DEBIT | CREDIT

datatype TransactionType = PAYMENT | REFUND | REVERSAL | FEE

datatype PaymentStatus = CREATED | PROCESSING | AUTHORIZED | SUCCEEDED | FAILED | FUNDS_LOCKED
  | REFUND_PENDING | REFUNDED

datatype RefundStatus = PENDING | SUCCEEDED | FAILED

datatype WebhookStatus = RECEIVED | PROCESSED | FAILED

datatype IdempotencyStatus = IN_PROGRESS | COMPLETED

datatype AuthorizationOutcome = CAPTURED | PENDING | DECLINED

fun PaymentStatus_value :: "PaymentStatus \<Rightarrow> string" where
  "PaymentStatus_value PaymentStatus.CREATED = ''CREATED''"
| "PaymentStatus_value PaymentStatus.PROCESSING = ''PROCESSING''"
| "PaymentStatus_value PaymentStatus.AUTHORIZED = ''AUTHORIZED''"
| "PaymentStatus_value PaymentStatus.SUCCEEDED = ''SUCCEEDED''"
| "PaymentStatus_value PaymentStatus.FAILED = ''FAILED''"
| "PaymentStatus_value PaymentStatus.FUNDS_LOCKED = ''FUNDS_LOCKED''"
| "PaymentStatus_value PaymentStatus.REFUND_PENDING = ''REFUND_PENDING''"
| "PaymentStatus_value PaymentStatus.REFUNDED = ''REFUNDED''"

fun RefundStatus_value :: "RefundStatus \<Rightarrow> string" where
  "RefundStatus_value RefundStatus.PENDING = ''PENDING''"
| "RefundStatus_value RefundStatus.SUCCEEDED = ''SUCCEEDED''"
| "RefundStatus_value RefundStatus.FAILED = ''FAILED''"

section \<open>JSON values\<close>

text \<open>
  The values \<open>json.loads\<close> returns and JSON columns hold. An object keeps its keys in order and
  holds each key once. Numbers with a fraction or an exponent are not represented.
\<close>

datatype json = JNull | JBool bool | JInt int | JStr string | JList "json list"
  | JObj "(string \<times> json) list"

text \<open>Python truth value of a JSON value, as \<open>if psp_reference:\<close> and \<open>x or y\<close> test it.\<close>

fun truthy :: "json \<Rightarrow> bool" where
  "truthy JNull = False"
| "truthy (JBool b) = b"
| "truthy (JInt i) = (i \<noteq> 0)"
| "truthy (JStr s) = (s \<noteq> [])"
| "truthy (JList xs) = (xs \<noteq> [])"
| "truthy (JObj kvs) = (kvs \<noteq> [])"

section \<open>Exceptions\<close>

text \<open>
  The exceptions of \<open>exceptions.py\<close>, and the ones raised by Python or by the libraries on the
  modelled paths: \<open>DBAPIError\<close> is SQLAlchemy's class for everything the database rejects at a
  flush or at the commit (its subclasses are not told apart), \<open>ValidationError\<close> is pydantic's.
\<close>

datatype exn =
    InsufficientFundsException UUID int int
  | AccountNotFoundException UUID
  | PaymentNotFoundException UUID
  | IdempotencyConflictException string
  | IdempotencyMismatchException string
  | InvalidSignatureException
  | RefundNotAllowedException string
  | LedgerImbalanceException int
  | ValueError string
  | KeyError
  | TypeError
  | AttributeError
  | RuntimeError string
  | DBAPIError
  | MultipleResultsFound
  | NoResultFound
  | ValidationError

text \<open>\<open>status_code\<close> of the classes that derive from \<open>DomainException\<close>; \<open>None\<close> for the rest.\<close>

fun exn_status_code :: "exn \<Rightarrow> int option" where
  "exn_status_code (InsufficientFundsException _ _ _) = Some 422"
| "exn_status_code (AccountNotFoundException _) = Some 404"
| "exn_status_code (PaymentNotFoundException _) = Some 404"
| "exn_status_code (IdempotencyConflictException _) = Some 409"
| "exn_status_code (IdempotencyMismatchException _) = Some 422"
| "exn_status_code InvalidSignatureException = Some 401"
| "exn_status_code (RefundNotAllowedException _) = Some 422"
| "exn_status_code (LedgerImbalanceException _) = Some 500"
| "exn_status_code _ = None"

text \<open>\<open>message\<close> of a domain exception, as the constructors build it.\<close>

fun exn_message :: "exn \<Rightarrow> string" where
  "exn_message (InsufficientFundsException a b r) =
     ''Insufficient funds for account '' @ str_uuid a @ '': balance='' @ str_int b @
     '', required='' @ str_int r"
| "exn_message (AccountNotFoundException a) = ''Account not found: '' @ str_uuid a"
| "exn_message (PaymentNotFoundException p) = ''Payment not found: '' @ str_uuid p"
| "exn_message (IdempotencyConflictException k) =
     ''Concurrent request in progress for idempotency key: '' @ k"
| "exn_message (IdempotencyMismatchException k) =
     ''Idempotency key '' @ [CHR 0x27] @ k @ [CHR 0x27] @
     '' was previously used with a different request payload''"
| "exn_message InvalidSignatureException = ''Invalid webhook signature''"
| "exn_message (RefundNotAllowedException m) = m"
| "exn_message (LedgerImbalanceException n) =
     ''Ledger entries are unbalanced (net = '' @ str_int n @
     ''). Sum of signed amounts must be zero.''"
| "exn_message _ = []"

section \<open>Rows\<close>

record Account =
  acc_id :: UUID
  acc_owner_type :: OwnerType
  acc_owner_id :: string
  acc_type :: AccountType
  acc_currency :: string
  acc_created_at :: int

record AccountBalance =
  bal_account_id :: UUID
  bal_balance :: int
  bal_version :: int
  bal_updated_at :: int

record LedgerTransaction =
  txn_id :: UUID
  txn_type :: TransactionType
  txn_reference_id :: UUID
  txn_created_at :: int

record LedgerEntry =
  ent_id :: int
  ent_transaction_id :: UUID
  ent_account_id :: UUID
  ent_direction :: Direction
  ent_amount :: int
  ent_created_at :: int

record Payment =
  pay_id :: UUID
  pay_merchant_id :: string
  pay_payer_account :: UUID
  pay_payee_account :: UUID
  pay_amount :: int
  pay_currency :: string
  pay_status :: PaymentStatus
  pay_psp_reference :: "string option"
  pay_refunded_amount :: int
  pay_version :: int
  pay_created_at :: int
  pay_updated_at :: int

record Refund =
  rfd_id :: UUID
  rfd_payment_id :: UUID
  rfd_amount :: int
  rfd_status :: RefundStatus
  rfd_created_at :: int

record IdempotencyRecord =
  idem_id :: int
  idem_merchant_id :: string
  idem_idem_key :: string
  idem_request_hash :: string
  idem_status :: IdempotencyStatus
  idem_resource_id :: "UUID option"
  idem_response_code :: "int option"
  idem_response_body :: "json option"
  idem_created_at :: int

record Outbox =
  obx_id :: UUID
  obx_aggregate_type :: string
  obx_aggregate_id :: UUID
  obx_event_type :: string
  obx_payload :: json
  obx_created_at :: int
  obx_published_at :: "int option"

record WebhookEvent =
  whk_psp_event_id :: string
  whk_payload :: string
  whk_status :: WebhookStatus
  whk_received_at :: int

record ProcessedEvent =
  pev_event_id :: UUID
  pev_processed_at :: int

end
