(* ===== verification/Database.thy ===== *)
theory Database
  imports Domain
begin

text \<open>
  The tables of \<open>models.py\<close> and \<open>alembic/versions\<close>, their constraints, and the unit of work of
  an SQLAlchemy session (\<open>app/infrastructure/database.py\<close>: one session per request,
  \<open>autoflush=False\<close>, \<open>expire_on_commit=False\<close>).
  \<open>db\<close> holds the rows as the running session sees them: the committed rows, the rows it
  flushed, and its attribute changes on loaded rows. \<open>pending\<close> holds the objects given to
  \<open>session.add\<close> that no flush has inserted yet; queries do not see them. A flush inserts them and
  fails when a constraint of the schema does not hold; a commit flushes and then runs the
  deferred trigger \<open>assert_ledger_balanced\<close> for the inserted ledger entries; any exception rolls
  the tables back. A query without \<open>ORDER BY\<close> returns rows in insertion order.
  Random identifiers, clock readings and sequence numbers come from the world, so nothing is
  assumed about them: two equal identifiers are a primary-key violation.
\<close>

section \<open>Tables and session\<close>

record database =
  accounts :: "Account list"
  account_balances :: "AccountBalance list"
  ledger_transactions :: "LedgerTransaction list"
  ledger_entries :: "LedgerEntry list"
  payments :: "Payment list"
  refunds :: "Refund list"
  idempotency_keys :: "IdempotencyRecord list"
  outbox :: "Outbox list"
  webhook_events :: "WebhookEvent list"
  processed_events :: "ProcessedEvent list"

datatype row =
    New_AccountBalance AccountBalance
  | New_LedgerTransaction LedgerTransaction
  | New_LedgerEntry LedgerEntry
  | New_Payment Payment
  | New_Refund Refund
  | New_IdempotencyRecord IdempotencyRecord
  | New_Outbox Outbox
  | New_WebhookEvent WebhookEvent

record world =
  db :: database
  pending :: "row list"
  uuid_source :: "nat \<Rightarrow> UUID"
  uuids_drawn :: nat
  clock :: "nat \<Rightarrow> int"
  clock_reads :: nat
  entry_seq :: int
  idem_seq :: int

type_synonym 'a M = "(world, exn, 'a) eff"

definition uuid4 :: "UUID M" where
  "uuid4 s = (Inr (uuid_source s (uuids_drawn s)), s\<lparr>uuids_drawn := Suc (uuids_drawn s)\<rparr>)"

definition datetime_now :: "int M" where
  "datetime_now s = (Inr (clock s (clock_reads s)), s\<lparr>clock_reads := Suc (clock_reads s)\<rparr>)"

section \<open>Constraints of the schema\<close>

definition int64 :: "int \<Rightarrow> bool" where
  "int64 n \<longleftrightarrow> - (2 ^ 63) \<le> n \<and> n < 2 ^ 63"

definition int32 :: "int \<Rightarrow> bool" where
  "int32 n \<longleftrightarrow> - (2 ^ 31) \<le> n \<and> n < 2 ^ 31"

definition account_ids :: "database \<Rightarrow> UUID set" where
  "account_ids d = acc_id ` set (accounts d)"

definition accounts_ok :: "database \<Rightarrow> bool" where
  "accounts_ok d \<longleftrightarrow> distinct (map acc_id (accounts d)) \<and>
     distinct (map (\<lambda>a. (acc_owner_type a, acc_owner_id a, acc_type a, acc_currency a)) (accounts d)) \<and>
     (\<forall>a \<in> set (accounts d). length (acc_owner_id a) \<le> 255 \<and> length (acc_currency a) \<le> 3)"

definition account_balances_ok :: "database \<Rightarrow> bool" where
  "account_balances_ok d \<longleftrightarrow> distinct (map bal_account_id (account_balances d)) \<and>
     (\<forall>b \<in> set (account_balances d). bal_account_id b \<in> account_ids d \<and>
        int64 (bal_balance b) \<and> int64 (bal_version b) \<and> bal_balance b \<ge> 0)"

definition ledger_transactions_ok :: "database \<Rightarrow> bool" where
  "ledger_transactions_ok d \<longleftrightarrow> distinct (map txn_id (ledger_transactions d))"

definition ledger_entries_ok :: "database \<Rightarrow> bool" where
  "ledger_entries_ok d \<longleftrightarrow> distinct (map ent_id (ledger_entries d)) \<and>
     (\<forall>e \<in> set (ledger_entries d). ent_transaction_id e \<in> txn_id ` set (ledger_transactions d) \<and>
        ent_account_id e \<in> account_ids d \<and> int64 (ent_id e) \<and> int64 (ent_amount e) \<and>
        ent_amount e > 0)"

definition payments_ok :: "database \<Rightarrow> bool" where
  "payments_ok d \<longleftrightarrow> distinct (map pay_id (payments d)) \<and>
     (\<forall>p \<in> set (payments d). pay_payer_account p \<in> account_ids d \<and>
        pay_payee_account p \<in> account_ids d \<and> int64 (pay_amount p) \<and>
        int64 (pay_refunded_amount p) \<and> int64 (pay_version p) \<and>
        length (pay_merchant_id p) \<le> 255 \<and> length (pay_currency p) \<le> 3 \<and>
        (case pay_psp_reference p of None \<Rightarrow> True | Some r \<Rightarrow> length r \<le> 255))"

definition refunds_ok :: "database \<Rightarrow> bool" where
  "refunds_ok d \<longleftrightarrow> distinct (map rfd_id (refunds d)) \<and>
     (\<forall>r \<in> set (refunds d). rfd_payment_id r \<in> pay_id ` set (payments d) \<and>
        int64 (rfd_amount r) \<and> rfd_amount r > 0)"

definition idem_scope :: "IdempotencyRecord \<Rightarrow> string \<times> string" where
  "idem_scope r = (idem_merchant_id r, idem_idem_key r)"

definition idempotency_keys_ok :: "database \<Rightarrow> bool" where
  "idempotency_keys_ok d \<longleftrightarrow> distinct (map idem_id (idempotency_keys d)) \<and>
     distinct (map idem_scope (idempotency_keys d)) \<and>
     (\<forall>r \<in> set (idempotency_keys d). int64 (idem_id r) \<and> length (idem_merchant_id r) \<le> 255 \<and>
        length (idem_idem_key r) \<le> 255 \<and> length (idem_request_hash r) \<le> 64 \<and>
        (case idem_response_code r of None \<Rightarrow> True | Some c \<Rightarrow> int32 c))"

definition outbox_ok :: "database \<Rightarrow> bool" where
  "outbox_ok d \<longleftrightarrow> distinct (map obx_id (outbox d)) \<and>
     (\<forall>e \<in> set (outbox d). length (obx_aggregate_type e) \<le> 100 \<and> length (obx_event_type e) \<le> 100)"

definition webhook_events_ok :: "database \<Rightarrow> bool" where
  "webhook_events_ok d \<longleftrightarrow> distinct (map whk_psp_event_id (webhook_events d)) \<and>
     (\<forall>e \<in> set (webhook_events d). length (whk_psp_event_id e) \<le> 255)"

definition processed_events_ok :: "database \<Rightarrow> bool" where
  "processed_events_ok d \<longleftrightarrow> distinct (map pev_event_id (processed_events d))"

definition constraints :: "database \<Rightarrow> bool" where
  "constraints d \<longleftrightarrow> accounts_ok d \<and> account_balances_ok d \<and> ledger_transactions_ok d \<and>
     ledger_entries_ok d \<and> payments_ok d \<and> refunds_ok d \<and> idempotency_keys_ok d \<and>
     outbox_ok d \<and> webhook_events_ok d \<and> processed_events_ok d"

lemmas constraint_defs = constraints_def accounts_ok_def account_balances_ok_def
  ledger_transactions_ok_def ledger_entries_ok_def payments_ok_def refunds_ok_def
  idempotency_keys_ok_def outbox_ok_def webhook_events_ok_def processed_events_ok_def
  account_ids_def idem_scope_def

section \<open>Deferred trigger\<close>

text \<open>The signed sum of \<open>assert_ledger_balanced\<close> and of the audit: debits minus credits.\<close>

definition signed_amount :: "LedgerEntry \<Rightarrow> int" where
  "signed_amount e = (case ent_direction e of DEBIT \<Rightarrow> ent_amount e | CREDIT \<Rightarrow> - ent_amount e)"

definition transaction_net :: "LedgerEntry list \<Rightarrow> UUID \<Rightarrow> int" where
  "transaction_net es t = sum_list (map signed_amount (filter (\<lambda>e. ent_transaction_id e = t) es))"

definition assert_ledger_balanced :: "LedgerEntry list \<Rightarrow> LedgerEntry \<Rightarrow> bool" where
  "assert_ledger_balanced es new_row = (transaction_net es (ent_transaction_id new_row) = 0)"

text \<open>The trigger fires once for each entry inserted by the transaction, at its commit.\<close>

definition trg_ledger_balanced :: "database \<Rightarrow> database \<Rightarrow> bool" where
  "trg_ledger_balanced before after =
     list_all (assert_ledger_balanced (ledger_entries after))
       (drop (length (ledger_entries before)) (ledger_entries after))"

section \<open>Unit of work\<close>

definition session_add :: "row \<Rightarrow> unit M" where
  "session_add r = change (\<lambda>s. s\<lparr>pending := pending s @ [r]\<rparr>)"

fun insert_row :: "row \<Rightarrow> world \<Rightarrow> world" where
  "insert_row (New_AccountBalance b) s =
     s\<lparr>db := (db s)\<lparr>account_balances := account_balances (db s) @ [b]\<rparr>\<rparr>"
| "insert_row (New_LedgerTransaction t) s =
     s\<lparr>db := (db s)\<lparr>ledger_transactions := ledger_transactions (db s) @ [t]\<rparr>\<rparr>"
| "insert_row (New_LedgerEntry e) s =
     s\<lparr>db := (db s)\<lparr>ledger_entries := ledger_entries (db s) @ [e\<lparr>ent_id := entry_seq s\<rparr>]\<rparr>,
       entry_seq := entry_seq s + 1\<rparr>"
| "insert_row (New_Payment p) s = s\<lparr>db := (db s)\<lparr>payments := payments (db s) @ [p]\<rparr>\<rparr>"
| "insert_row (New_Refund r) s = s\<lparr>db := (db s)\<lparr>refunds := refunds (db s) @ [r]\<rparr>\<rparr>"
| "insert_row (New_IdempotencyRecord r) s =
     s\<lparr>db := (db s)\<lparr>idempotency_keys := idempotency_keys (db s) @ [r\<lparr>idem_id := idem_seq s\<rparr>]\<rparr>,
       idem_seq := idem_seq s + 1\<rparr>"
| "insert_row (New_Outbox e) s = s\<lparr>db := (db s)\<lparr>outbox := outbox (db s) @ [e]\<rparr>\<rparr>"
| "insert_row (New_WebhookEvent e) s =
     s\<lparr>db := (db s)\<lparr>webhook_events := webhook_events (db s) @ [e]\<rparr>\<rparr>"

definition flushed :: "world \<Rightarrow> world" where
  "flushed s = fold insert_row (pending s) (s\<lparr>pending := []\<rparr>)"

definition session_flush :: "unit M" where
  "session_flush s = (if constraints (db (flushed s)) then (Inr (), flushed s) else (Inl DBAPIError, s))"

definition rollback :: "world \<Rightarrow> world \<Rightarrow> world" where
  "rollback s0 s = s\<lparr>db := db s0, pending := []\<rparr>"

definition commit :: "world \<Rightarrow> unit M" where
  "commit s0 = and_then session_flush (\<lambda>_ s.
     if trg_ledger_balanced (db s0) (db s) then (Inr (), s) else (Inl DBAPIError, s))"

text \<open>\<open>async with session_factory() as session: async with session.begin(): body\<close>.\<close>

definition transaction :: "'a M \<Rightarrow> 'a M" where
  "transaction body s = (case and_then body (\<lambda>x. and_then (commit s) (\<lambda>_. ret x)) (s\<lparr>pending := []\<rparr>) of
     (Inr x, s') \<Rightarrow> (Inr x, s')
   | (Inl e, s') \<Rightarrow> (Inl e, rollback s s'))"

text \<open>\<open>Result.scalar_one_or_none\<close> on the rows a query returned.\<close>

fun scalar_one_or_none :: "'r list \<Rightarrow> exn + 'r option" where
  "scalar_one_or_none [] = Inr None"
| "scalar_one_or_none [r] = Inr (Some r)"
| "scalar_one_or_none (r # r' # rs) = Inl MultipleResultsFound"

section \<open>Seed of the first migration\<close>

definition PSP_SUSPENSE_ACCOUNT_ID :: UUID where
  "PSP_SUSPENSE_ACCOUNT_ID = UUID 1"

definition FEE_INCOME_ACCOUNT_ID :: UUID where
  "FEE_INCOME_ACCOUNT_ID = UUID 2"

definition empty_database :: database where
  "empty_database = \<lparr>accounts = [], account_balances = [], ledger_transactions = [],
     ledger_entries = [], payments = [], refunds = [], idempotency_keys = [], outbox = [],
     webhook_events = [], processed_events = []\<rparr>"

definition upgrade :: "int \<Rightarrow> database" where
  "upgrade t = empty_database
     \<lparr>accounts :=
       [\<lparr>acc_id = UUID 1, acc_owner_type = SYSTEM, acc_owner_id = ''psp'',
         acc_type = PSP_SUSPENSE, acc_currency = ''INR'', acc_created_at = t\<rparr>,
        \<lparr>acc_id = UUID 2, acc_owner_type = SYSTEM, acc_owner_id = ''fees'',
         acc_type = FEE_INCOME, acc_currency = ''INR'', acc_created_at = t\<rparr>],
      account_balances :=
       [\<lparr>bal_account_id = UUID 1, bal_balance = 0, bal_version = 0, bal_updated_at = t\<rparr>,
        \<lparr>bal_account_id = UUID 2, bal_balance = 0, bal_version = 0, bal_updated_at = t\<rparr>]\<rparr>"

section \<open>Facts about the unit of work\<close>

lemmas session_defs = eff_defs and_then_def uuid4_def datetime_now_def session_add_def session_flush_def

lemma uuid4_Inr [simp]:
  "uuid4 s = (Inr u, t) \<longleftrightarrow>
     u = uuid_source s (uuids_drawn s) \<and> t = s\<lparr>uuids_drawn := Suc (uuids_drawn s)\<rparr>"
  by (auto simp: uuid4_def)

lemma datetime_now_Inr [simp]:
  "datetime_now s = (Inr u, t) \<longleftrightarrow>
     u = clock s (clock_reads s) \<and> t = s\<lparr>clock_reads := Suc (clock_reads s)\<rparr>"
  by (auto simp: datetime_now_def)

lemma session_add_Inr [simp]:
  "session_add r s = (Inr u, t) \<longleftrightarrow> t = s\<lparr>pending := pending s @ [r]\<rparr>"
  by (auto simp: session_add_def change_def)

lemma session_flush_Inr [simp]:
  "session_flush s = (Inr u, t) \<longleftrightarrow> t = flushed s \<and> constraints (db t)"
  by (auto simp: session_flush_def)

lemma insert_row_pending [simp]: "pending (insert_row r s) = pending s"
  by (cases r) auto

lemma fold_insert_row_pending: "pending (fold insert_row rs s) = pending s"
  by (induction rs arbitrary: s) auto

lemma flushed_pending [simp]: "pending (flushed s) = []"
  by (simp add: flushed_def fold_insert_row_pending)

lemma flushed_id [simp]: "pending s = [] \<Longrightarrow> flushed s = s"
  by (simp add: flushed_def)

lemma insert_row_uuids_drawn: "insert_row r (s\<lparr>uuids_drawn := n\<rparr>) = (insert_row r s)\<lparr>uuids_drawn := n\<rparr>"
  by (cases r) simp_all

lemma insert_row_clock_reads: "insert_row r (s\<lparr>clock_reads := n\<rparr>) = (insert_row r s)\<lparr>clock_reads := n\<rparr>"
  by (cases r) simp_all

lemma fold_insert_row_uuids_drawn:
  "fold insert_row rs (s\<lparr>uuids_drawn := n\<rparr>) = (fold insert_row rs s)\<lparr>uuids_drawn := n\<rparr>"
  by (induction rs arbitrary: s) (simp_all add: insert_row_uuids_drawn)

lemma fold_insert_row_clock_reads:
  "fold insert_row rs (s\<lparr>clock_reads := n\<rparr>) = (fold insert_row rs s)\<lparr>clock_reads := n\<rparr>"
  by (induction rs arbitrary: s) (simp_all add: insert_row_clock_reads)

lemma flushed_uuids_drawn [simp]: "flushed (s\<lparr>uuids_drawn := n\<rparr>) = (flushed s)\<lparr>uuids_drawn := n\<rparr>"
proof -
  have "flushed (s\<lparr>uuids_drawn := n\<rparr>) = fold insert_row (pending s) (s\<lparr>pending := [], uuids_drawn := n\<rparr>)"
    unfolding flushed_def by (cases s) simp
  then show ?thesis by (simp add: flushed_def fold_insert_row_uuids_drawn)
qed

lemma flushed_clock_reads [simp]: "flushed (s\<lparr>clock_reads := n\<rparr>) = (flushed s)\<lparr>clock_reads := n\<rparr>"
proof -
  have "flushed (s\<lparr>clock_reads := n\<rparr>) = fold insert_row (pending s) (s\<lparr>pending := [], clock_reads := n\<rparr>)"
    unfolding flushed_def by (cases s) simp
  then show ?thesis by (simp add: flushed_def fold_insert_row_clock_reads)
qed

lemma flushed_add:
  "flushed (s\<lparr>pending := pending s @ [r]\<rparr>) = insert_row r (flushed s)"
  by (simp add: flushed_def)

lemma transaction_Inr:
  assumes "transaction m s = (Inr x, t)"
  obtains s1 where "m (s\<lparr>pending := []\<rparr>) = (Inr x, s1)" and "t = flushed s1"
    and "constraints (db t)" and "trg_ledger_balanced (db s) (db t)" and "pending t = []"
proof -
  from assms have "and_then m (\<lambda>x. and_then (commit s) (\<lambda>_. ret x)) (s\<lparr>pending := []\<rparr>) = (Inr x, t)"
    by (auto simp: transaction_def split: prod.splits sum.splits)
  then obtain s1 s2 where "m (s\<lparr>pending := []\<rparr>) = (Inr x, s1)" and "session_flush s1 = (Inr (), s2)"
    and "trg_ledger_balanced (db s) (db s2)" and "s2 = t"
    by (auto simp: and_then_Inr_iff commit_def split: if_splits)
  then show thesis by (intro that) auto
qed

lemma transaction_InrI:
  assumes "m (s\<lparr>pending := []\<rparr>) = (Inr x, s1)" and "constraints (db (flushed s1))"
    and "trg_ledger_balanced (db s) (db (flushed s1))"
  shows "transaction m s = (Inr x, flushed s1)"
proof -
  have "and_then m (\<lambda>x. and_then (commit s) (\<lambda>_. ret x)) (s\<lparr>pending := []\<rparr>) = (Inr x, flushed s1)"
    using assms by (auto simp: and_then_Inr_iff commit_def)
  then show ?thesis by (simp add: transaction_def)
qed

lemma transaction_Inl_db: "transaction m s = (Inl e, t) \<Longrightarrow> db t = db s \<and> pending t = []"
  by (auto simp: transaction_def rollback_def split: prod.splits sum.splits)

lemma transaction_InlI:
  "m (s\<lparr>pending := []\<rparr>) = (Inl e, s1) \<Longrightarrow> transaction m s = (Inl e, rollback s s1)"
  by (simp add: transaction_def and_then_def)

lemma transaction_constraints:
  "transaction m s = (r, t) \<Longrightarrow> constraints (db s) \<Longrightarrow> constraints (db t)"
  by (cases r) (auto elim: transaction_Inr dest: transaction_Inl_db)

section \<open>A small concrete state\<close>

text \<open>The migrated database with a funded wallet (3) and a merchant account (4), for the examples.\<close>

definition sample_db :: database where
  "sample_db = (upgrade 0)
     \<lparr>accounts := accounts (upgrade 0) @
       [\<lparr>acc_id = UUID 3, acc_owner_type = USER, acc_owner_id = ''alice'', acc_type = USER_WALLET,
         acc_currency = ''INR'', acc_created_at = 0\<rparr>,
        \<lparr>acc_id = UUID 4, acc_owner_type = MERCHANT, acc_owner_id = ''shop'', acc_type = MERCHANT_PAYABLE,
         acc_currency = ''INR'', acc_created_at = 0\<rparr>],
      account_balances := account_balances (upgrade 0) @
       [\<lparr>bal_account_id = UUID 3, bal_balance = 1000, bal_version = 0, bal_updated_at = 0\<rparr>,
        \<lparr>bal_account_id = UUID 4, bal_balance = 50, bal_version = 0, bal_updated_at = 0\<rparr>]\<rparr>"

definition sample_world :: world where
  "sample_world = \<lparr>db = sample_db, pending = [], uuid_source = (\<lambda>n. UUID (of_nat (n + 100))),
     uuids_drawn = 0, clock = int, clock_reads = 0, entry_seq = 1, idem_seq = 1\<rparr>"

lemma sample_db_constraints: "constraints sample_db"
  by code_simp

lemma sample_world_fields [simp]: "db sample_world = sample_db" "pending sample_world = []"
  "uuids_drawn sample_world = 0" "uuid_source sample_world n = UUID (of_nat (n + 100))"
  by (simp_all add: sample_world_def)

end
