(* ===== verification/Ledger.thy ===== *)
theory Ledger
  imports Database
begin

text \<open>
  The double-entry ledger (\<open>app/application/ledger_service.py\<close>): \<open>validate_balanced\<close> and
  \<open>post\<close>, statement by statement, over the session of \<open>Database\<close>. The specification
  \<open>posted\<close> says what a successful call does to the tables in terms of the abstract balance of an
  account and of \<open>run_postings\<close>, the effect of a posting list on balances; the locale
  \<open>ledger_contract\<close> is the interface the saga and the refunds rely on.
\<close>

section \<open>Operations\<close>

record Posting =
  pst_account_id :: UUID
  pst_direction :: Direction
  pst_amount :: int

fun sum_signed :: "int \<Rightarrow> Posting list \<Rightarrow> exn + int" where
  "sum_signed net [] = Inr net"
| "sum_signed net (p # ps) =
     (if pst_amount p \<le> 0
      then Inl (ValueError (''Posting amount must be strictly positive: '' @ str_int (pst_amount p)))
      else case pst_direction p of
             DEBIT \<Rightarrow> sum_signed (net + pst_amount p) ps
           | CREDIT \<Rightarrow> sum_signed (net - pst_amount p) ps)"

definition validate_balanced :: "Posting list \<Rightarrow> exn + unit" where
  "validate_balanced ps =
     (if ps = [] \<or> length ps < 2 then Inl (LedgerImbalanceException 0)
      else case sum_signed 0 ps of
             Inl e \<Rightarrow> Inl e
           | Inr net \<Rightarrow> if net \<noteq> 0 then Inl (LedgerImbalanceException net) else Inr ())"

definition sorted_account_ids :: "Posting list \<Rightarrow> UUID list" where
  "sorted_account_ids ps = sort (remdups (map pst_account_id ps))"

definition select_balance :: "UUID \<Rightarrow> AccountBalance option M" where
  "select_balance a = gets (\<lambda>s. row_of bal_account_id a (account_balances (db s)))"

text \<open>One round of the locking loop: read the row, create it when it is missing.\<close>

definition lock_balance :: "UUID \<Rightarrow> unit M" where
  "lock_balance a = and_then (select_balance a) (\<lambda>row. case row of
     Some _ \<Rightarrow> ret ()
   | None \<Rightarrow>
       and_then datetime_now (\<lambda>t.
       and_then (session_add (New_AccountBalance
         \<lparr>bal_account_id = a, bal_balance = 0, bal_version = 0, bal_updated_at = t\<rparr>)) (\<lambda>_.
       session_flush)))"

definition store_balance :: "UUID \<Rightarrow> int \<Rightarrow> int \<Rightarrow> database \<Rightarrow> database" where
  "store_balance a v t d = d\<lparr>account_balances := set_row bal_account_id a
     (\<lambda>b. b\<lparr>bal_balance := v, bal_version := bal_version b + 1, bal_updated_at := t\<rparr>)
     (account_balances d)\<rparr>"

definition entry_of :: "UUID \<Rightarrow> int \<Rightarrow> Posting \<Rightarrow> LedgerEntry" where
  "entry_of tid t p = \<lparr>ent_id = 0, ent_transaction_id = tid, ent_account_id = pst_account_id p,
     ent_direction = pst_direction p, ent_amount = pst_amount p, ent_created_at = t\<rparr>"

text \<open>The new balance of a row under one posting.\<close>

definition posting_result :: "int \<Rightarrow> Posting \<Rightarrow> exn + int" where
  "posting_result b p = (case pst_direction p of
     DEBIT \<Rightarrow> if b < pst_amount p
              then Inl (InsufficientFundsException (pst_account_id p) b (pst_amount p))
              else Inr (b - pst_amount p)
   | CREDIT \<Rightarrow> Inr (b + pst_amount p))"

text \<open>One round of the posting loop.\<close>

definition apply_posting :: "UUID \<Rightarrow> Posting \<Rightarrow> unit M" where
  "apply_posting tid p =
     and_then datetime_now (\<lambda>t.
     and_then (session_add (New_LedgerEntry (entry_of tid t p))) (\<lambda>_.
     and_then (select_balance (pst_account_id p)) (\<lambda>row. case row of
       None \<Rightarrow> raise KeyError
     | Some bal \<Rightarrow>
         and_then (of_result (posting_result (bal_balance bal) p)) (\<lambda>v.
         and_then datetime_now (\<lambda>t'.
         change (\<lambda>s. s\<lparr>db := store_balance (pst_account_id p) v t' (db s)\<rparr>))))))"

definition post :: "TransactionType \<Rightarrow> UUID \<Rightarrow> Posting list \<Rightarrow> LedgerTransaction M" where
  "post transaction_type reference_id ps =
     and_then (of_result (validate_balanced ps)) (\<lambda>_.
     and_then uuid4 (\<lambda>tid.
     and_then datetime_now (\<lambda>t.
     let txn = \<lparr>txn_id = tid, txn_type = transaction_type, txn_reference_id = reference_id,
                txn_created_at = t\<rparr> in
     and_then (session_add (New_LedgerTransaction txn)) (\<lambda>_.
     and_then session_flush (\<lambda>_.
     and_then (for_each lock_balance (sorted_account_ids ps)) (\<lambda>_.
     and_then (for_each (apply_posting tid) ps) (\<lambda>_.
     and_then session_flush (\<lambda>_.
     ret txn))))))))"

section \<open>Specification\<close>

definition balance :: "database \<Rightarrow> UUID \<Rightarrow> int" where
  "balance d a = (case row_of bal_account_id a (account_balances d) of
     None \<Rightarrow> 0 | Some b \<Rightarrow> bal_balance b)"

definition posting_credit :: "Posting \<Rightarrow> int" where
  "posting_credit p = (case pst_direction p of DEBIT \<Rightarrow> - pst_amount p | CREDIT \<Rightarrow> pst_amount p)"

definition posting_delta :: "Posting list \<Rightarrow> UUID \<Rightarrow> int" where
  "posting_delta ps a = sum_list (map posting_credit (filter (\<lambda>p. pst_account_id p = a) ps))"

text \<open>A posting list acts on balances in order; a debit needs the balance it finds.\<close>

fun run_postings :: "(UUID \<Rightarrow> int) \<Rightarrow> Posting list \<Rightarrow> exn + (UUID \<Rightarrow> int)" where
  "run_postings b [] = Inr b"
| "run_postings b (p # ps) = (case posting_result (b (pst_account_id p)) p of
     Inl e \<Rightarrow> Inl e
   | Inr v \<Rightarrow> run_postings (b(pst_account_id p := v)) ps)"

text \<open>Credits minus debits of an account over all its entries: the balance the audit computes.\<close>

definition computed_balance :: "LedgerEntry list \<Rightarrow> UUID \<Rightarrow> int" where
  "computed_balance es a = sum_list (map (\<lambda>e. - signed_amount e) (filter (\<lambda>e. ent_account_id e = a) es))"

definition entry_matches :: "UUID \<Rightarrow> Posting \<Rightarrow> LedgerEntry \<Rightarrow> bool" where
  "entry_matches tid p e \<longleftrightarrow> ent_transaction_id e = tid \<and> ent_account_id e = pst_account_id p \<and>
     ent_direction e = pst_direction p \<and> ent_amount e = pst_amount p"

definition posted :: "TransactionType \<Rightarrow> UUID \<Rightarrow> Posting list \<Rightarrow> LedgerTransaction \<Rightarrow>
    database \<Rightarrow> database \<Rightarrow> bool" where
  "posted ty r ps txn d d' \<longleftrightarrow>
     validate_balanced ps = Inr () \<and> txn_type txn = ty \<and> txn_reference_id txn = r \<and>
     d' = d\<lparr>account_balances := account_balances d', ledger_transactions := ledger_transactions d @ [txn],
            ledger_entries := ledger_entries d'\<rparr> \<and>
     (\<exists>es. ledger_entries d' = ledger_entries d @ es \<and> list_all2 (entry_matches (txn_id txn)) ps es) \<and>
     run_postings (balance d) ps = Inr (balance d') \<and>
     bal_account_id ` set (account_balances d') =
       bal_account_id ` set (account_balances d) \<union> pst_account_id ` set ps \<and>
     constraints d'"

section \<open>Validation\<close>

lemma sum_signed_Inr:
  "sum_signed net ps = Inr v \<longleftrightarrow>
     (\<forall>p \<in> set ps. 0 < pst_amount p) \<and> v = net - sum_list (map posting_credit ps)"
  by (induction ps arbitrary: net) (auto simp: posting_credit_def split: Direction.splits)

lemma validate_balanced_Inr:
  "validate_balanced ps = Inr () \<longleftrightarrow>
     2 \<le> length ps \<and> (\<forall>p \<in> set ps. 0 < pst_amount p) \<and> sum_list (map posting_credit ps) = 0"
proof (cases "sum_signed 0 ps")
  case (Inl e)
  then have "\<not> (\<forall>p \<in> set ps. 0 < pst_amount p)"
    using sum_signed_Inr[of 0 ps "0 - sum_list (map posting_credit ps)"] by auto
  with Inl show ?thesis by (auto simp: validate_balanced_def)
next
  case (Inr v)
  with sum_signed_Inr[of 0 ps v] show ?thesis by (auto simp: validate_balanced_def)
qed

section \<open>Effect of a posting list\<close>

lemma run_postings_delta:
  "run_postings b ps = Inr b' \<Longrightarrow> b' a = b a + posting_delta ps a"
proof (induction ps arbitrary: b)
  case Nil
  then show ?case by (simp add: posting_delta_def)
next
  case (Cons p ps)
  then obtain v where v: "posting_result (b (pst_account_id p)) p = Inr v"
    and "run_postings (b(pst_account_id p := v)) ps = Inr b'"
    by (auto split: sum.splits)
  with Cons.IH have "b' a = (b(pst_account_id p := v)) a + posting_delta ps a" by blast
  with v show ?case
    by (auto simp: posting_delta_def posting_credit_def posting_result_def
        split: Direction.splits if_splits)
qed

lemma run_postings_nonneg:
  assumes "run_postings b ps = Inr b'" and "\<forall>p \<in> set ps. 0 < pst_amount p" and "\<forall>a. 0 \<le> b a"
  shows "0 \<le> b' a"
  using assms
proof (induction ps arbitrary: b)
  case Nil
  then show ?case by simp
next
  case (Cons p ps)
  then obtain v where v: "posting_result (b (pst_account_id p)) p = Inr v"
    and run: "run_postings (b(pst_account_id p := v)) ps = Inr b'"
    by (auto split: sum.splits)
  from v Cons.prems have "0 \<le> v"
    by (auto simp: posting_result_def split: Direction.splits if_splits
        intro: add_nonneg_nonneg order.strict_implies_order)
  with Cons.prems have "\<forall>a. 0 \<le> (b(pst_account_id p := v)) a" by simp
  with Cons.IH[OF run] Cons.prems(2) show ?case by simp
qed

lemma balance_store_balance:
  assumes "row_of bal_account_id a (account_balances d) = Some b"
  shows "balance (store_balance a v t d) = (balance d)(a := v)"
proof
  fix x
  show "balance (store_balance a v t d) x = ((balance d)(a := v)) x"
    using assms by (simp add: balance_def store_balance_def row_of_set_row)
qed

lemma balance_keys_store_balance:
  "map bal_account_id (account_balances (store_balance a v t d)) = map bal_account_id (account_balances d)"
  by (simp add: store_balance_def map_key_set_row)

lemma store_balance_frame:
  "store_balance a v t d = d\<lparr>account_balances := account_balances (store_balance a v t d)\<rparr>"
  by (simp add: store_balance_def)

section \<open>Effect of the loops on the session\<close>

definition balance_keys :: "database \<Rightarrow> UUID set" where
  "balance_keys d = bal_account_id ` set (account_balances d)"

lemma balance_keys_store [simp]: "balance_keys (store_balance a v t d) = balance_keys d"
  using balance_keys_store_balance[of a v t d] unfolding balance_keys_def
  by (metis list.set_map)

text \<open>Two databases that differ in the balance rows only.\<close>

definition only_balances :: "database \<Rightarrow> database \<Rightarrow> bool" where
  "only_balances d d' \<longleftrightarrow> d' = d\<lparr>account_balances := account_balances d'\<rparr>"

lemma only_balances_refl [simp]: "only_balances d d"
  by (simp add: only_balances_def)

lemma only_balances_update [simp]: "only_balances d (d\<lparr>account_balances := bs\<rparr>)"
  by (simp add: only_balances_def)

lemma only_balances_store [simp]: "only_balances d (store_balance a v t d)"
  by (simp add: store_balance_def)

lemma only_balances_trans: "only_balances d d' \<Longrightarrow> only_balances d' d'' \<Longrightarrow> only_balances d d''"
  unfolding only_balances_def
  by (metis (no_types, lifting) database.surjective database.update_convs(2))

lemma only_balances_fields:
  assumes "only_balances d d'"
  shows "accounts d' = accounts d" and "ledger_transactions d' = ledger_transactions d"
    and "ledger_entries d' = ledger_entries d"
  using arg_cong[OF assms[unfolded only_balances_def], of accounts]
    arg_cong[OF assms[unfolded only_balances_def], of ledger_transactions]
    arg_cong[OF assms[unfolded only_balances_def], of ledger_entries]
  by simp_all

lemma lock_balance_Inr:
  assumes "lock_balance a s = (Inr u, t)" and "pending s = []"
  shows "pending t = [] \<and> balance (db t) = balance (db s) \<and>
    only_balances (db s) (db t) \<and>
    balance_keys (db t) = insert a (balance_keys (db s))"
proof (cases "row_of bal_account_id a (account_balances (db s))")
  case (Some b)
  with assms have "t = s" by (auto simp: lock_balance_def select_balance_def)
  moreover have "a \<in> balance_keys (db s)"
    using row_of_SomeD[OF Some] by (auto simp: balance_keys_def)
  ultimately show ?thesis using assms(2) by auto
next
  case None
  let ?b = "\<lparr>bal_account_id = a, bal_balance = 0, bal_version = 0,
    bal_updated_at = clock s (clock_reads s)\<rparr>"
  from assms None have t: "db t = (db s)\<lparr>account_balances := account_balances (db s) @ [?b]\<rparr>"
    and "pending t = []"
    by (auto simp: lock_balance_def select_balance_def and_then_Inr_iff flushed_def)
  moreover have "balance (db t) x = balance (db s) x" for x
    using None by (simp add: t balance_def row_of_append split: option.splits)
  ultimately show ?thesis by (auto simp: balance_keys_def)
qed

lemma lock_balances_Inr:
  assumes "for_each lock_balance as s = (Inr u, t)" and "pending s = []"
  shows "pending t = [] \<and> balance (db t) = balance (db s) \<and>
    only_balances (db s) (db t) \<and>
    balance_keys (db t) = set as \<union> balance_keys (db s)"
  using assms
proof (induction as arbitrary: s)
  case Nil
  then show ?case by simp
next
  case (Cons a as)
  then obtain s1 where s1: "lock_balance a s = (Inr (), s1)"
    and rest: "for_each lock_balance as s1 = (Inr u, t)"
    by (auto simp: and_then_Inr_iff)
  note one = lock_balance_Inr[OF s1 Cons.prems(2)]
  then have "pending s1 = []" by simp
  from Cons.IH[OF rest this] one show ?case by (auto intro: only_balances_trans)
qed

lemma apply_posting_Inr:
  assumes "apply_posting tid p s = (Inr u, t)"
  obtains b v t1 t2 where "row_of bal_account_id (pst_account_id p) (account_balances (db s)) = Some b"
    and "posting_result (bal_balance b) p = Inr v"
    and "db t = store_balance (pst_account_id p) v t2 (db s)"
    and "pending t = pending s @ [New_LedgerEntry (entry_of tid t1 p)]"
  using assms
  by (auto simp: apply_posting_def select_balance_def and_then_Inr_iff split: option.splits)

lemma entry_matches_entry_of [simp]: "entry_matches tid p (entry_of tid t p)"
  by (simp add: entry_matches_def entry_of_def)

lemma apply_postings_Inr:
  assumes "for_each (apply_posting tid) ps s = (Inr u, t)"
  shows "run_postings (balance (db s)) ps = Inr (balance (db t)) \<and>
    only_balances (db s) (db t) \<and>
    balance_keys (db t) = balance_keys (db s) \<and>
    (\<exists>es. pending t = pending s @ map New_LedgerEntry es \<and> list_all2 (entry_matches tid) ps es)"
  using assms
proof (induction ps arbitrary: s)
  case Nil
  then show ?case by simp
next
  case (Cons p ps)
  then obtain s1 where s1: "apply_posting tid p s = (Inr (), s1)"
    and rest: "for_each (apply_posting tid) ps s1 = (Inr u, t)"
    by (auto simp: and_then_Inr_iff)
  from s1 obtain b v t1 t2
    where b: "row_of bal_account_id (pst_account_id p) (account_balances (db s)) = Some b"
      and v: "posting_result (bal_balance b) p = Inr v"
      and d: "db s1 = store_balance (pst_account_id p) v t2 (db s)"
      and pe: "pending s1 = pending s @ [New_LedgerEntry (entry_of tid t1 p)]"
    by (rule apply_posting_Inr)
  from b have "balance (db s) (pst_account_id p) = bal_balance b" by (simp add: balance_def)
  moreover have "balance (db s1) = (balance (db s))(pst_account_id p := v)"
    unfolding d by (rule balance_store_balance[OF b])
  ultimately have "run_postings (balance (db s)) (p # ps) = Inr (balance (db t))"
    using v Cons.IH[OF rest] by (simp del: fun_upd_apply)
  moreover from Cons.IH[OF rest] obtain es where "pending t = pending s1 @ map New_LedgerEntry es"
    and "list_all2 (entry_matches tid) ps es" by blast
  then have "pending t = pending s @ map New_LedgerEntry (entry_of tid t1 p # es)"
    and "list_all2 (entry_matches tid) (p # ps) (entry_of tid t1 p # es)"
    using pe by simp_all
  moreover have "only_balances (db s) (db t)"
    using Cons.IH[OF rest] d by (metis only_balances_store only_balances_trans)
  ultimately show ?case using Cons.IH[OF rest] d by (metis balance_keys_store)
qed

section \<open>A call of post\<close>

fun numbered :: "int \<Rightarrow> LedgerEntry list \<Rightarrow> LedgerEntry list" where
  "numbered k [] = []"
| "numbered k (e # es) = e\<lparr>ent_id := k\<rparr> # numbered (k + 1) es"

lemma fold_insert_entries:
  "fold insert_row (map New_LedgerEntry es) s =
     s\<lparr>db := (db s)\<lparr>ledger_entries := ledger_entries (db s) @ numbered (entry_seq s) es\<rparr>,
       entry_seq := entry_seq s + int (length es)\<rparr>"
  by (induction es arbitrary: s) (simp_all add: algebra_simps)

lemma numbered_matches:
  "list_all2 (entry_matches tid) ps es \<Longrightarrow> list_all2 (entry_matches tid) ps (numbered k es)"
  by (induction ps es arbitrary: k rule: list_all2_induct) (auto simp: entry_matches_def)

lemma flushed_entries:
  assumes "pending s = map New_LedgerEntry es"
  shows "db (flushed s) = (db s)\<lparr>ledger_entries := ledger_entries (db s) @ numbered (entry_seq s) es\<rparr>"
  by (simp add: flushed_def assms fold_insert_entries)

lemma set_sorted_account_ids [simp]: "set (sorted_account_ids ps) = pst_account_id ` set ps"
  by (simp add: sorted_account_ids_def)

text \<open>The call of \<open>post\<close>, cut at its flushes.\<close>

lemma post_Inr_steps:
  assumes "post ty r ps s = (Inr txn, t)"
  obtains s1 s2 s3 where "txn_id txn = uuid_source s (uuids_drawn s)"
    and "s1 = (flushed s)\<lparr>uuids_drawn := Suc (uuids_drawn s), clock_reads := Suc (clock_reads s),
      db := (db (flushed s))\<lparr>ledger_transactions := ledger_transactions (db (flushed s)) @ [txn]\<rparr>\<rparr>"
    and "for_each lock_balance (sorted_account_ids ps) s1 = (Inr (), s2)"
    and "for_each (apply_posting (txn_id txn)) ps s2 = (Inr (), s3)"
    and "t = flushed s3" and "constraints (db t)" and "validate_balanced ps = Inr ()"
    and "txn_type txn = ty" and "txn_reference_id txn = r"
  using assms
  by (auto simp: post_def Let_def and_then_Inr_iff
      flushed_add[of "_\<lparr>clock_reads := _\<rparr>", simplified])

lemma post_posted:
  assumes "post ty r ps s = (Inr txn, t)"
  shows "posted ty r ps txn (db (flushed s)) (db t)" and "pending t = []"
proof -
  from assms obtain s1 s2 s3 where s1_def: "s1 = (flushed s)\<lparr>uuids_drawn := Suc (uuids_drawn s),
      clock_reads := Suc (clock_reads s), db := (db (flushed s))
        \<lparr>ledger_transactions := ledger_transactions (db (flushed s)) @ [txn]\<rparr>\<rparr>"
    and lock: "for_each lock_balance (sorted_account_ids ps) s1 = (Inr (), s2)"
    and app: "for_each (apply_posting (txn_id txn)) ps s2 = (Inr (), s3)"
    and t: "t = flushed s3" "constraints (db t)" and val: "validate_balanced ps = Inr ()"
    and txn: "txn_type txn = ty" "txn_reference_id txn = r"
    by (rule post_Inr_steps)
  have s1: "pending s1 = []" "db s1 = (db (flushed s))
      \<lparr>ledger_transactions := ledger_transactions (db (flushed s)) @ [txn]\<rparr>"
    by (simp_all add: s1_def)
  show "pending t = []" using t by simp
  note locked = lock_balances_Inr[OF lock s1(1)]
  note applied = apply_postings_Inr[OF app]
  from applied locked obtain es where es: "pending s3 = map New_LedgerEntry es"
    "list_all2 (entry_matches (txn_id txn)) ps es" by auto
  note d3 = only_balances_trans[of "db s1" "db s2" "db s3"]
  have ob: "only_balances (db s1) (db s3)" using locked applied d3 by blast
  have bal0: "balance (db s1) = balance (db (flushed s))" by (simp add: s1 balance_def fun_eq_iff)
  have dt: "db t = (db s3)\<lparr>ledger_entries := ledger_entries (db s3) @ numbered (entry_seq s3) es\<rparr>"
    using t flushed_entries[OF es(1)] by simp
  have balt: "balance (db t) = balance (db s3)" by (simp add: dt balance_def fun_eq_iff)
  have "run_postings (balance (db (flushed s))) ps = Inr (balance (db t))"
    using applied locked bal0 balt by simp
  moreover have "list_all2 (entry_matches (txn_id txn)) ps (numbered (entry_seq s3) es)"
    using es(2) by (rule numbered_matches)
  moreover have "bal_account_id ` set (account_balances (db t)) =
      bal_account_id ` set (account_balances (db (flushed s))) \<union> pst_account_id ` set ps"
    using locked applied by (auto simp: balance_keys_def dt s1)
  moreover have "db t = (db (flushed s))\<lparr>account_balances := account_balances (db t),
      ledger_transactions := ledger_transactions (db (flushed s)) @ [txn],
      ledger_entries := ledger_entries (db t)\<rparr>"
  proof -
    obtain bs where bs: "db s3 = (db s1)\<lparr>account_balances := bs\<rparr>"
      using ob unfolding only_balances_def by blast
    show ?thesis unfolding dt bs s1(2) by (intro database.equality) simp_all
  qed
  moreover have "ledger_entries (db t) = ledger_entries (db (flushed s)) @ numbered (entry_seq s3) es"
    using only_balances_fields(3)[OF ob] by (simp add: dt s1)
  ultimately show "posted ty r ps txn (db (flushed s)) (db t)"
    using val txn t(2) unfolding posted_def by blast
qed

section \<open>Consequences of the specification\<close>

definition ledger_net :: "database \<Rightarrow> int" where
  "ledger_net d = sum_list (map signed_amount (ledger_entries d))"

definition ledger_balanced :: "database \<Rightarrow> bool" where
  "ledger_balanced d \<longleftrightarrow> (\<forall>t. transaction_net (ledger_entries d) t = 0)"

definition drift :: "database \<Rightarrow> UUID \<Rightarrow> int" where
  "drift d a = balance d a - computed_balance (ledger_entries d) a"

definition total_balance :: "database \<Rightarrow> int" where
  "total_balance d = sum_list (map bal_balance (account_balances d))"

lemma posted_balance: "posted ty r ps txn d d' \<Longrightarrow> balance d' a = balance d a + posting_delta ps a"
  by (auto simp: posted_def dest: run_postings_delta)

lemma posted_frame:
  assumes "posted ty r ps txn d d'"
  shows "accounts d' = accounts d" and "payments d' = payments d" and "refunds d' = refunds d"
    and "idempotency_keys d' = idempotency_keys d" and "outbox d' = outbox d"
    and "webhook_events d' = webhook_events d" and "processed_events d' = processed_events d"
    and "ledger_transactions d' = ledger_transactions d @ [txn]"
proof -
  obtain bs es where "d' = d\<lparr>account_balances := bs, ledger_transactions := ledger_transactions d @ [txn],
      ledger_entries := es\<rparr>" using assms unfolding posted_def by blast
  then show "accounts d' = accounts d" and "payments d' = payments d" and "refunds d' = refunds d"
    and "idempotency_keys d' = idempotency_keys d" and "outbox d' = outbox d"
    and "webhook_events d' = webhook_events d" and "processed_events d' = processed_events d"
    and "ledger_transactions d' = ledger_transactions d @ [txn]"
    by simp_all
qed

lemma posted_entries:
  assumes "posted ty r ps txn d d'"
  obtains es where "ledger_entries d' = ledger_entries d @ es"
    and "list_all2 (entry_matches (txn_id txn)) ps es"
  using assms unfolding posted_def by blast

lemma posted_constraints: "posted ty r ps txn d d' \<Longrightarrow> constraints d'"
  by (simp add: posted_def)

lemma matches_credit: "entry_matches tid p e \<Longrightarrow> - signed_amount e = posting_credit p"
  by (auto simp: entry_matches_def signed_amount_def posting_credit_def split: Direction.splits)

lemma matches_computed:
  "list_all2 (entry_matches tid) ps es \<Longrightarrow> computed_balance es a = posting_delta ps a"
proof (induction ps es rule: list_all2_induct)
  case Nil
  then show ?case by (simp add: computed_balance_def posting_delta_def)
next
  case (Cons p ps e es)
  then show ?case using matches_credit[OF Cons.hyps(1)]
    by (auto simp: computed_balance_def posting_delta_def entry_matches_def)
qed

lemma matches_net:
  "list_all2 (entry_matches tid) ps es \<Longrightarrow> sum_list (map signed_amount es) = - sum_list (map posting_credit ps)"
proof (induction ps es rule: list_all2_induct)
  case Nil
  then show ?case by simp
next
  case (Cons p ps e es)
  with matches_credit[OF Cons.hyps(1)] show ?case by simp
qed

lemma matches_transaction:
  assumes "list_all2 (entry_matches tid) ps es"
  shows "filter (\<lambda>e. ent_transaction_id e = t) es = (if t = tid then es else [])"
  using assms by (induction ps es rule: list_all2_induct) (auto simp: entry_matches_def)

lemma computed_balance_append [simp]:
  "computed_balance (xs @ ys) a = computed_balance xs a + computed_balance ys a"
  by (simp add: computed_balance_def)

lemma posted_computed:
  "posted ty r ps txn d d' \<Longrightarrow>
     computed_balance (ledger_entries d') a = computed_balance (ledger_entries d) a + posting_delta ps a"
  by (erule posted_entries) (simp add: matches_computed)

lemma posted_drift: "posted ty r ps txn d d' \<Longrightarrow> drift d' a = drift d a"
  by (simp add: drift_def posted_balance posted_computed)

lemma posted_net:
  assumes "posted ty r ps txn d d'"
  shows "transaction_net (ledger_entries d') t = transaction_net (ledger_entries d) t"
    and "ledger_net d' = ledger_net d"
proof -
  from assms obtain es where es: "ledger_entries d' = ledger_entries d @ es"
    and m: "list_all2 (entry_matches (txn_id txn)) ps es" by (rule posted_entries)
  from assms have "sum_list (map posting_credit ps) = 0"
    by (simp add: posted_def validate_balanced_Inr)
  with matches_net[OF m] have "sum_list (map signed_amount es) = 0" by simp
  then show "transaction_net (ledger_entries d') t = transaction_net (ledger_entries d) t"
    and "ledger_net d' = ledger_net d"
    by (simp_all add: es transaction_net_def ledger_net_def matches_transaction[OF m])
qed

lemma posted_ledger_balanced: "posted ty r ps txn d d' \<Longrightarrow> ledger_balanced d \<Longrightarrow> ledger_balanced d'"
  by (simp add: ledger_balanced_def posted_net)

lemma ledger_balanced_trigger: "ledger_balanced d' \<Longrightarrow> trg_ledger_balanced d d'"
  by (simp add: ledger_balanced_def trg_ledger_balanced_def assert_ledger_balanced_def list_all_iff)

text \<open>The sum of the balance rows is the sum of the abstract balances over any finite superset of their keys.\<close>

lemma balance_of_row:
  "distinct (map bal_account_id (account_balances d)) \<Longrightarrow> b \<in> set (account_balances d) \<Longrightarrow>
     balance d (bal_account_id b) = bal_balance b"
  by (simp add: balance_def row_of_in)

lemma balance_no_row: "a \<notin> balance_keys d \<Longrightarrow> balance d a = 0"
  by (simp add: balance_def balance_keys_def row_of_None_iff[THEN iffD2])

lemma total_balance_sum:
  assumes "distinct (map bal_account_id (account_balances d))" and "balance_keys d \<subseteq> A" and "finite A"
  shows "total_balance d = (\<Sum>a \<in> A. balance d a)"
proof -
  have "total_balance d = sum_list (map (balance d) (map bal_account_id (account_balances d)))"
    using assms(1) by (simp add: total_balance_def balance_of_row cong: map_cong)
  also have "\<dots> = (\<Sum>a \<in> balance_keys d. balance d a)"
    using assms(1) by (simp only: sum_list_distinct_conv_sum_set) (simp add: balance_keys_def)
  also have "\<dots> = (\<Sum>a \<in> A. balance d a)"
    using assms(2,3) by (intro sum.mono_neutral_left) (auto simp: balance_no_row)
  finally show ?thesis .
qed

lemma sum_posting_delta:
  "finite A \<Longrightarrow> pst_account_id ` set ps \<subseteq> A \<Longrightarrow> (\<Sum>a \<in> A. posting_delta ps a) = sum_list (map posting_credit ps)"
proof (induction ps)
  case Nil
  then show ?case by (simp add: posting_delta_def)
next
  case (Cons p ps)
  have "(\<Sum>a \<in> A. posting_delta (p # ps) a) =
      (\<Sum>a \<in> A. (if pst_account_id p = a then posting_credit p else 0) + posting_delta ps a)"
    by (intro sum.cong) (simp_all add: posting_delta_def)
  with Cons show ?case by (simp add: sum.distrib)
qed

lemma posted_total_balance:
  assumes "posted ty r ps txn d d'" and "distinct (map bal_account_id (account_balances d))"
  shows "total_balance d' = total_balance d"
proof -
  let ?A = "balance_keys d'"
  have fin: "finite ?A" by (simp add: balance_keys_def)
  have keys: "balance_keys d \<subseteq> ?A" "pst_account_id ` set ps \<subseteq> ?A"
    using assms(1) by (auto simp: posted_def balance_keys_def)
  have "distinct (map bal_account_id (account_balances d'))"
    using posted_constraints[OF assms(1)] by (simp add: constraint_defs)
  then have "total_balance d' = (\<Sum>a \<in> ?A. balance d a + posting_delta ps a)"
    using fin total_balance_sum[of d' ?A] by (simp add: posted_balance[OF assms(1)])
  also have "\<dots> = total_balance d + sum_list (map posting_credit ps)"
    using fin keys by (simp add: sum.distrib sum_posting_delta total_balance_sum[OF assms(2) keys(1)])
  finally show ?thesis using assms(1) by (simp add: posted_def validate_balanced_Inr)
qed

section \<open>When post succeeds\<close>

text \<open>
  Room in the counters: the next entry number is unused and neither it nor a row version reaches
  the end of a \<open>BIGINT\<close> within \<open>n\<close> more steps.
\<close>

definition counters_ok :: "int \<Rightarrow> world \<Rightarrow> bool" where
  "counters_ok n s \<longleftrightarrow> (\<forall>e \<in> set (ledger_entries (db s)). ent_id e < entry_seq s) \<and>
     0 \<le> entry_seq s \<and> entry_seq s + n < 2 ^ 63 \<and>
     (\<forall>b \<in> set (account_balances (db s)). 0 \<le> bal_version b \<and> bal_version b + n < 2 ^ 63)"

definition versions_below :: "int \<Rightarrow> database \<Rightarrow> bool" where
  "versions_below k d \<longleftrightarrow> (\<forall>b \<in> set (account_balances d). 0 \<le> bal_version b \<and> bal_version b < k)"

lemma lock_balance_succeeds:
  assumes "constraints (db s)" and "pending s = []" and "a \<in> account_ids (db s)"
    and "versions_below k (db s)" and "0 < k"
  obtains t where "lock_balance a s = (Inr (), t)" and "constraints (db t)"
    and "versions_below k (db t)" and "entry_seq t = entry_seq s"
proof (cases "row_of bal_account_id a (account_balances (db s))")
  case (Some b)
  then have "lock_balance a s = (Inr (), s)" by (simp add: lock_balance_def select_balance_def ret_def)
  with assms show thesis by (auto intro: that)
next
  case None
  let ?b = "\<lparr>bal_account_id = a, bal_balance = 0, bal_version = 0,
    bal_updated_at = clock s (clock_reads s)\<rparr>"
  let ?t = "s\<lparr>clock_reads := Suc (clock_reads s),
    db := (db s)\<lparr>account_balances := account_balances (db s) @ [?b]\<rparr>\<rparr>"
  have "a \<notin> bal_account_id ` set (account_balances (db s))"
    using None by (simp add: row_of_None_iff)
  then have con: "constraints (db ?t)"
    using assms(1,3) by (auto simp: constraint_defs int64_def)
  have "flushed (s\<lparr>clock_reads := Suc (clock_reads s), pending := [New_AccountBalance ?b]\<rparr>) = ?t"
    using assms(2) by (cases s) (simp add: flushed_def)
  with con have "lock_balance a s = (Inr (), ?t)"
    using None assms(2)
    by (simp add: lock_balance_def select_balance_def session_defs)
  then show thesis using con assms(4,5) by (intro that[of ?t]) (auto simp: versions_below_def)
qed

lemma lock_balances_succeed:
  assumes "constraints (db s)" and "pending s = []" and "set as \<subseteq> account_ids (db s)"
    and "versions_below k (db s)" and "0 < k"
  shows "\<exists>t. for_each lock_balance as s = (Inr (), t) \<and> constraints (db t) \<and>
    versions_below k (db t) \<and> entry_seq t = entry_seq s"
  using assms
proof (induction as arbitrary: s)
  case Nil
  then show ?case by (simp add: ret_def)
next
  case (Cons a as)
  from Cons.prems obtain s1 where s1: "lock_balance a s = (Inr (), s1)" "constraints (db s1)"
    "versions_below k (db s1)" "entry_seq s1 = entry_seq s"
    by (auto intro: lock_balance_succeeds[of s a k])
  note l = lock_balance_Inr[OF s1(1) Cons.prems(2)]
  then have "accounts (db s1) = accounts (db s)" by (simp add: only_balances_fields)
  with Cons.prems have "set as \<subseteq> account_ids (db s1)" by (simp add: account_ids_def)
  with Cons.IH[of s1] Cons.prems l s1 show ?case by (simp add: and_then_def)
qed

lemma apply_posting_succeeds:
  assumes "pst_account_id p \<in> balance_keys (db s)"
    and "posting_result (balance (db s) (pst_account_id p)) p = Inr v"
    and "versions_below k (db s)"
  obtains t where "apply_posting tid p s = (Inr (), t)" and "versions_below (k + 1) (db t)"
    and "entry_seq t = entry_seq s"
    and "map bal_account_id (account_balances (db t)) = map bal_account_id (account_balances (db s))"
proof -
  obtain b where b: "row_of bal_account_id (pst_account_id p) (account_balances (db s)) = Some b"
    using assms(1) by (metis balance_keys_def option.exhaust row_of_None_iff)
  with assms(2) have v: "posting_result (bal_balance b) p = Inr v" by (simp add: balance_def)
  let ?t = "s\<lparr>clock_reads := Suc (Suc (clock_reads s)),
    pending := pending s @ [New_LedgerEntry (entry_of tid (clock s (clock_reads s)) p)],
    db := store_balance (pst_account_id p) v (clock s (Suc (clock_reads s))) (db s)\<rparr>"
  have "apply_posting tid p s = (Inr (), ?t)"
    using b v by (cases s) (simp add: apply_posting_def select_balance_def session_defs)
  moreover have "versions_below (k + 1) (db ?t)"
    using assms(3) by (auto simp: versions_below_def store_balance_def dest!: in_set_row)
  ultimately show thesis by (intro that[of ?t]) (simp_all add: balance_keys_store_balance)
qed

lemma apply_postings_succeed:
  assumes "pst_account_id ` set ps \<subseteq> balance_keys (db s)"
    and "run_postings (balance (db s)) ps = Inr b'"
    and "versions_below k (db s)"
  shows "\<exists>t. for_each (apply_posting tid) ps s = (Inr (), t) \<and>
    versions_below (k + int (length ps)) (db t) \<and> entry_seq t = entry_seq s \<and>
    map bal_account_id (account_balances (db t)) = map bal_account_id (account_balances (db s))"
  using assms
proof (induction ps arbitrary: s k)
  case Nil
  then show ?case by (simp add: ret_def)
next
  case (Cons p ps)
  from Cons.prems(2) obtain v where v: "posting_result (balance (db s) (pst_account_id p)) p = Inr v"
    and rest: "run_postings ((balance (db s))(pst_account_id p := v)) ps = Inr b'"
    by (auto split: sum.splits)
  from Cons.prems have "pst_account_id p \<in> balance_keys (db s)" by simp
  from apply_posting_succeeds[OF this v Cons.prems(3), of tid] obtain s1
    where s1: "apply_posting tid p s = (Inr (), s1)" "versions_below (k + 1) (db s1)"
      "entry_seq s1 = entry_seq s"
      "map bal_account_id (account_balances (db s1)) = map bal_account_id (account_balances (db s))"
    by blast
  from s1(1) obtain b v' t2
    where "row_of bal_account_id (pst_account_id p) (account_balances (db s)) = Some b"
      and "posting_result (bal_balance b) p = Inr v'"
      and "db s1 = store_balance (pst_account_id p) v' t2 (db s)"
    by (rule apply_posting_Inr)
  with v have "balance (db s1) = (balance (db s))(pst_account_id p := v)"
    by (metis Inr_inject balance_def balance_store_balance option.simps(5))
  with rest have "run_postings (balance (db s1)) ps = Inr b'" by (simp del: fun_upd_apply)
  moreover have "pst_account_id ` set ps \<subseteq> balance_keys (db s1)"
    using Cons.prems(1) s1(4) unfolding balance_keys_def by (metis image_set insert_subset list.simps(15) list.simps(9))
  ultimately show ?case using Cons.IH[of s1 "k + 1"] s1 by (auto simp: and_then_def algebra_simps)
qed

lemma constraints_balances:
  assumes "constraints d" and "only_balances d d'"
    and "map bal_account_id (account_balances d') = map bal_account_id (account_balances d)"
    and "versions_below (2 ^ 63) d'" and "\<And>a. 0 \<le> balance d' a \<and> balance d' a < 2 ^ 63"
  shows "constraints d'"
proof -
  obtain bs where d': "d' = d\<lparr>account_balances := bs\<rparr>"
    using assms(2) unfolding only_balances_def by blast
  from assms(1,3) have dist: "distinct (map bal_account_id bs)"
    by (simp add: constraint_defs d')
  have "bal_account_id b \<in> account_ids d" if "b \<in> set bs" for b
  proof -
    have "bal_account_id b \<in> bal_account_id ` set (account_balances d)"
      using assms(3) that by (metis d' database.select_convs(2) database.surjective
          database.update_convs(2) image_eqI image_set)
    with assms(1) show ?thesis by (auto simp: constraint_defs)
  qed
  moreover have "0 \<le> bal_balance b \<and> bal_balance b < 2 ^ 63" if "b \<in> set bs" for b
    using assms(5)[of "bal_account_id b"] balance_of_row[of d' b] dist that by (simp add: d')
  moreover have "0 \<le> bal_version b \<and> bal_version b < 2 ^ 63" if "b \<in> set bs" for b
    using assms(4) that by (simp add: d' versions_below_def)
  ultimately have "account_balances_ok d'"
    using dist by (fastforce simp: account_balances_ok_def int64_def d' account_ids_def)
  with assms(1) show ?thesis by (simp add: constraint_defs d')
qed

lemma numbered_ids: "map ent_id (numbered k es) = map (\<lambda>i. k + int i) [0..<length es]"
proof (induction es arbitrary: k)
  case Nil
  then show ?case by simp
next
  case (Cons e es)
  have "map (\<lambda>i. k + int i) [0..<length (e # es)] = k # map (\<lambda>i. k + int (Suc i)) [0..<length es]"
    by (simp add: upt_conv_Cons map_Suc_upt[symmetric] del: upt_Suc map_Suc_upt)
  with Cons show ?case by (simp add: add.assoc)
qed

lemma constraints_entries:
  assumes "constraints d" and "list_all2 (entry_matches tid) ps es"
    and "tid \<in> txn_id ` set (ledger_transactions d)" and "pst_account_id ` set ps \<subseteq> account_ids d"
    and "\<forall>p \<in> set ps. 0 < pst_amount p \<and> int64 (pst_amount p)"
    and "\<forall>e \<in> set (ledger_entries d). ent_id e < k" and "0 \<le> k" and "k + int (length ps) < 2 ^ 63"
  shows "constraints (d\<lparr>ledger_entries := ledger_entries d @ numbered k es\<rparr>)"
proof -
  let ?new = "numbered k es"
  from assms(2) have m: "list_all2 (entry_matches tid) ps ?new" by (rule numbered_matches)
  have len: "length es = length ps" using assms(2) by (simp add: list_all2_lengthD)
  have ids: "k \<le> ent_id e \<and> ent_id e < 2 ^ 63" if "e \<in> set ?new" for e
  proof -
    from that have "ent_id e \<in> set (map ent_id ?new)" by simp
    then show ?thesis using assms(8) len by (auto simp: numbered_ids)
  qed
  have dist: "distinct (map ent_id ?new)" by (simp add: numbered_ids distinct_map inj_on_def)
  have new: "ent_transaction_id e = tid \<and> ent_account_id e \<in> account_ids d \<and> 0 < ent_amount e \<and>
      int64 (ent_amount e)" if "e \<in> set ?new" for e
  proof -
    from m that obtain p where "p \<in> set ps" "entry_matches tid p e"
      by (metis in_set_conv_nth list_all2_conv_all_nth)
    with assms(4,5) show ?thesis by (auto simp: entry_matches_def)
  qed
  have "distinct (map ent_id (ledger_entries d) @ map ent_id ?new)"
    using assms(1,6) dist ids by (fastforce simp: constraint_defs)
  moreover have "int64 (ent_id e)" if "e \<in> set ?new" for e
    using ids[OF that] assms(7) by (simp add: int64_def)
  ultimately have "ledger_entries_ok (d\<lparr>ledger_entries := ledger_entries d @ ?new\<rparr>)"
    using assms(1,3) new by (auto simp: ledger_entries_ok_def account_ids_def constraints_def)
  with assms(1) show ?thesis by (simp add: constraint_defs)
qed

lemma constraints_balance_range:
  "constraints d \<Longrightarrow> 0 \<le> balance d a \<and> balance d a < 2 ^ 63"
  using row_of_SomeD[of bal_account_id a "account_balances d"]
  by (fastforce simp: balance_def constraint_defs int64_def split: option.splits)

lemma constraints_add_transaction:
  "constraints d \<Longrightarrow> txn_id txn \<notin> txn_id ` set (ledger_transactions d) \<Longrightarrow>
     constraints (d\<lparr>ledger_transactions := ledger_transactions d @ [txn]\<rparr>)"
  by (auto simp: constraint_defs)

lemma post_succeeds:
  assumes val: "validate_balanced ps = Inr ()"
    and run: "run_postings (balance (db (flushed s))) ps = Inr b'"
    and con: "constraints (db (flushed s))"
    and fresh: "uuid_source s (uuids_drawn s) \<notin> txn_id ` set (ledger_transactions (db (flushed s)))"
    and acc: "pst_account_id ` set ps \<subseteq> account_ids (db (flushed s))"
    and room: "counters_ok (int (length ps)) (flushed s)"
    and amt: "\<forall>p \<in> set ps. int64 (pst_amount p)"
    and fits: "\<And>a. b' a < 2 ^ 63"
  shows "\<exists>txn t. post ty r ps s = (Inr txn, t)"
proof -
  let ?n = "int (length ps)"
  define txn where "txn = \<lparr>txn_id = uuid_source s (uuids_drawn s), txn_type = ty, txn_reference_id = r,
    txn_created_at = clock s (clock_reads s)\<rparr>"
  define s1 where "s1 = (flushed s)\<lparr>uuids_drawn := Suc (uuids_drawn s),
    clock_reads := Suc (clock_reads s), db := (db (flushed s))
      \<lparr>ledger_transactions := ledger_transactions (db (flushed s)) @ [txn]\<rparr>\<rparr>"
  have con1: "constraints (db s1)"
    using constraints_add_transaction[OF con, of txn] fresh by (simp add: s1_def txn_def)
  have "versions_below (2 ^ 63 - ?n) (db s1)" and "0 < 2 ^ 63 - ?n"
    using room by (auto simp: counters_ok_def versions_below_def s1_def)
  with con1 acc obtain s2 where s2: "for_each lock_balance (sorted_account_ids ps) s1 = (Inr (), s2)"
    "constraints (db s2)" "versions_below (2 ^ 63 - ?n) (db s2)" "entry_seq s2 = entry_seq s1"
    using lock_balances_succeed[of s1 "sorted_account_ids ps" "2 ^ 63 - ?n"]
    by (auto simp: s1_def account_ids_def)
  have locked: "pending s2 = []" "balance (db s2) = balance (db (flushed s))"
    "only_balances (db s1) (db s2)" "pst_account_id ` set ps \<subseteq> balance_keys (db s2)"
    using lock_balances_Inr[OF s2(1)] by (auto simp: s1_def balance_def fun_eq_iff)
  obtain s3 where s3: "for_each (apply_posting (txn_id txn)) ps s2 = (Inr (), s3)"
    "versions_below (2 ^ 63) (db s3)" "entry_seq s3 = entry_seq s2"
    "map bal_account_id (account_balances (db s3)) = map bal_account_id (account_balances (db s2))"
    using apply_postings_succeed[of ps s2 b' "2 ^ 63 - ?n" "txn_id txn"] run locked s2(3) by auto
  note applied = apply_postings_Inr[OF s3(1)]
  with run locked have b': "balance (db s3) = b'" by simp
  have pos: "\<forall>p \<in> set ps. 0 < pst_amount p" using val by (simp add: validate_balanced_Inr)
  have "\<And>a. 0 \<le> b' a"
    using run_postings_nonneg[OF run pos] constraints_balance_range[OF con] by blast
  with constraints_balances[OF s2(2) _ s3(4) s3(2)] applied fits b' have con3: "constraints (db s3)"
    by simp
  obtain es where es: "pending s3 = map New_LedgerEntry es"
    "list_all2 (entry_matches (txn_id txn)) ps es" using applied locked(1) by auto
  have d3: "only_balances (db s1) (db s3)" using applied locked(3) only_balances_trans by blast
  have "constraints ((db s3)\<lparr>ledger_entries := ledger_entries (db s3) @ numbered (entry_seq s3) es\<rparr>)"
    using acc amt pos room only_balances_fields[OF d3] s2(4) s3(3)
    by (intro constraints_entries[OF con3 es(2)])
      (auto simp: s1_def account_ids_def counters_ok_def)
  then have con4: "constraints (db (flushed s3))" by (simp add: flushed_entries[OF es(1)])
  have "flushed (s\<lparr>uuids_drawn := Suc (uuids_drawn s), clock_reads := Suc (clock_reads s),
      pending := pending s @ [New_LedgerTransaction txn]\<rparr>) = s1"
    using flushed_add[of "s\<lparr>uuids_drawn := Suc (uuids_drawn s), clock_reads := Suc (clock_reads s)\<rparr>"
        "New_LedgerTransaction txn"] by (simp add: s1_def)
  then have "post ty r ps s = (Inr txn, flushed s3)"
    using val con1 s2(1) s3(1) con4 by (simp add: post_def Let_def and_then_Inr_iff txn_def)
  then show ?thesis by blast
qed

section \<open>Identifiers and counters used by a call\<close>

definition same_draws :: "world \<Rightarrow> world \<Rightarrow> bool" where
  "same_draws s t \<longleftrightarrow> uuid_source t = uuid_source s \<and> uuids_drawn t = uuids_drawn s"

interpretation draw_frame: frame_relation same_draws
  by standard (auto simp: same_draws_def)

lemma same_draws_insert_row: "same_draws s (insert_row r s)"
  by (cases r) (simp_all add: same_draws_def)

lemma same_draws_fold: "same_draws s (fold insert_row rs s)"
proof (induction rs arbitrary: s)
  case Nil
  then show ?case by (simp add: draw_frame.R_refl)
next
  case (Cons r rs)
  from draw_frame.R_trans[OF same_draws_insert_row Cons.IH] show ?case by simp
qed

lemma same_draws_flushed: "same_draws s (flushed s)"
  using same_draws_fold[of "s\<lparr>pending := []\<rparr>" "pending s"] by (simp add: flushed_def same_draws_def)

lemma draw_frame_flush: "keeps same_draws session_flush"
  by (rule keepsI) (simp add: same_draws_flushed)

lemma draw_frame_now: "keeps same_draws datetime_now"
  by (rule keepsI) (simp add: same_draws_def)

lemma draw_frame_add: "keeps same_draws (session_add r)"
  by (rule keepsI) (simp add: same_draws_def)

lemma draw_frame_db: "keeps same_draws (change (\<lambda>s. s\<lparr>db := f s\<rparr>))"
  by (rule keepsI) (simp add: same_draws_def)

lemmas draw_keeps = draw_frame.keeps_rules draw_frame_flush draw_frame_now draw_frame_add draw_frame_db

lemma lock_balance_draws: "keeps same_draws (lock_balance a)"
  unfolding lock_balance_def select_balance_def by (intro draw_keeps)

lemma apply_posting_draws: "keeps same_draws (apply_posting tid p)"
  unfolding apply_posting_def select_balance_def by (intro draw_keeps)

lemma lock_balance_counters:
  assumes "lock_balance a s = (Inr u, t)" and "pending s = []" and "versions_below k (db s)" and "0 < k"
  shows "versions_below k (db t) \<and> entry_seq t = entry_seq s"
  using assms
  by (auto simp: lock_balance_def select_balance_def and_then_Inr_iff flushed_def versions_below_def
      split: option.splits)

lemma lock_balances_counters:
  assumes "for_each lock_balance as s = (Inr u, t)" and "pending s = []" and "versions_below k (db s)"
    and "0 < k"
  shows "versions_below k (db t) \<and> entry_seq t = entry_seq s"
  using assms
proof (induction as arbitrary: s)
  case Nil
  then show ?case by simp
next
  case (Cons a as)
  then obtain s1 where s1: "lock_balance a s = (Inr (), s1)"
    and rest: "for_each lock_balance as s1 = (Inr u, t)" by (auto simp: and_then_Inr_iff)
  from lock_balance_Inr[OF s1 Cons.prems(2)] lock_balance_counters[OF s1 Cons.prems(2-4)]
    Cons.IH[OF rest] Cons.prems(4) show ?case by simp
qed

lemma apply_posting_counters:
  assumes "apply_posting tid p s = (Inr u, t)" and "versions_below k (db s)"
  shows "versions_below (k + 1) (db t) \<and> entry_seq t = entry_seq s"
proof -
  from assms(1) obtain v n where "db t = store_balance (pst_account_id p) v n (db s)"
    by (rule apply_posting_Inr)
  with assms(2) have "versions_below (k + 1) (db t)"
    by (auto simp: versions_below_def store_balance_def dest!: in_set_row)
  moreover from assms(1) have "entry_seq t = entry_seq s"
    by (auto simp: apply_posting_def select_balance_def and_then_Inr_iff split: option.splits)
  ultimately show ?thesis by simp
qed

lemma apply_postings_counters:
  assumes "for_each (apply_posting tid) ps s = (Inr u, t)" and "versions_below k (db s)"
  shows "versions_below (k + int (length ps)) (db t) \<and> entry_seq t = entry_seq s"
  using assms
proof (induction ps arbitrary: s k)
  case Nil
  then show ?case by simp
next
  case (Cons p ps)
  then obtain s1 where s1: "apply_posting tid p s = (Inr (), s1)"
    and rest: "for_each (apply_posting tid) ps s1 = (Inr u, t)" by (auto simp: and_then_Inr_iff)
  from apply_posting_counters[OF s1 Cons.prems(2)] Cons.IH[OF rest, of "k + 1"] show ?case
    by (simp add: algebra_simps)
qed

section \<open>When post raises\<close>

lemma post_invalid: "validate_balanced ps = Inl e \<Longrightarrow> post ty r ps s = (Inl e, s)"
  by (simp add: post_def raise_def)

lemma apply_posting_fails:
  assumes "pst_account_id p \<in> balance_keys (db s)"
    and "posting_result (balance (db s) (pst_account_id p)) p = Inl e"
  shows "\<exists>t. apply_posting tid p s = (Inl e, t) \<and> same_draws s t \<and> entry_seq t = entry_seq s"
proof -
  obtain b where b: "row_of bal_account_id (pst_account_id p) (account_balances (db s)) = Some b"
    using assms(1) by (metis balance_keys_def option.exhaust row_of_None_iff)
  with assms(2) show ?thesis
    by (simp add: apply_posting_def select_balance_def session_defs balance_def same_draws_def)
qed

lemma apply_postings_fail:
  assumes "pst_account_id ` set ps \<subseteq> balance_keys (db s)"
    and "run_postings (balance (db s)) ps = Inl e" and "versions_below k (db s)"
  shows "\<exists>t. for_each (apply_posting tid) ps s = (Inl e, t) \<and> same_draws s t \<and> entry_seq t = entry_seq s"
  using assms
proof (induction ps arbitrary: s k)
  case Nil
  then show ?case by simp
next
  case (Cons p ps)
  then have key: "pst_account_id p \<in> balance_keys (db s)" by simp
  show ?case
  proof (cases "posting_result (balance (db s) (pst_account_id p)) p")
    case (Inl e')
    with Cons.prems(2) have "e' = e" by simp
    with apply_posting_fails[OF key Inl, of tid] show ?thesis by (auto simp: and_then_def)
  next
    case (Inr v)
    from apply_posting_succeeds[OF key Inr Cons.prems(3), of tid] obtain s1
      where s1: "apply_posting tid p s = (Inr (), s1)" "versions_below (k + 1) (db s1)"
        "entry_seq s1 = entry_seq s" by blast
    from keepsD[OF apply_posting_draws s1(1)] have dr: "same_draws s s1" .
    from s1(1) obtain b v' t2
      where "row_of bal_account_id (pst_account_id p) (account_balances (db s)) = Some b"
        and "posting_result (bal_balance b) p = Inr v'"
        and d1: "db s1 = store_balance (pst_account_id p) v' t2 (db s)"
      by (rule apply_posting_Inr)
    with Inr have "balance (db s1) = (balance (db s))(pst_account_id p := v)"
      by (metis Inr_inject balance_def balance_store_balance option.simps(5))
    with Cons.prems(2) Inr have "run_postings (balance (db s1)) ps = Inl e" by (simp del: fun_upd_apply)
    with Cons.IH[of s1 "k + 1"] Cons.prems(1) s1 d1 dr show ?thesis
      by (auto simp: and_then_def intro: draw_frame.R_trans)
  qed
qed

lemma post_insufficient:
  assumes val: "validate_balanced ps = Inr ()"
    and run: "run_postings (balance (db (flushed s))) ps = Inl e"
    and con: "constraints (db (flushed s))"
    and fresh: "uuid_source s (uuids_drawn s) \<notin> txn_id ` set (ledger_transactions (db (flushed s)))"
    and acc: "pst_account_id ` set ps \<subseteq> account_ids (db (flushed s))"
    and room: "counters_ok (int (length ps)) (flushed s)"
  shows "\<exists>t. post ty r ps s = (Inl e, t) \<and> uuid_source t = uuid_source s \<and>
    uuids_drawn t = Suc (uuids_drawn s) \<and> entry_seq t = entry_seq (flushed s)"
proof -
  define txn where "txn = \<lparr>txn_id = uuid_source s (uuids_drawn s), txn_type = ty, txn_reference_id = r,
    txn_created_at = clock s (clock_reads s)\<rparr>"
  define s1 where "s1 = (flushed s)\<lparr>uuids_drawn := Suc (uuids_drawn s),
    clock_reads := Suc (clock_reads s), db := (db (flushed s))
      \<lparr>ledger_transactions := ledger_transactions (db (flushed s)) @ [txn]\<rparr>\<rparr>"
  have con1: "constraints (db s1)"
    using constraints_add_transaction[OF con, of txn] fresh by (simp add: s1_def txn_def)
  have "versions_below (2 ^ 63) (db s1)"
    using room by (auto simp: counters_ok_def versions_below_def s1_def)
  with con1 acc obtain s2 where s2: "for_each lock_balance (sorted_account_ids ps) s1 = (Inr (), s2)"
    "versions_below (2 ^ 63) (db s2)" "entry_seq s2 = entry_seq s1"
    using lock_balances_succeed[of s1 "sorted_account_ids ps" "2 ^ 63"]
    by (auto simp: s1_def account_ids_def)
  have locked: "balance (db s2) = balance (db (flushed s))"
    "pst_account_id ` set ps \<subseteq> balance_keys (db s2)"
    using lock_balances_Inr[OF s2(1)] by (auto simp: s1_def balance_def fun_eq_iff)
  have "same_draws s1 s2" using draw_frame.keeps_for_each[OF lock_balance_draws] s2(1) by (rule keepsD)
  moreover obtain t where t: "for_each (apply_posting (txn_id txn)) ps s2 = (Inl e, t)" "same_draws s2 t"
    "entry_seq t = entry_seq s2"
    using apply_postings_fail[of ps s2 e "2 ^ 63" "txn_id txn"] run locked s2(2) by auto
  ultimately have draws: "same_draws s1 t" "entry_seq t = entry_seq s1"
    using s2(3) by (auto intro: draw_frame.R_trans)
  have "flushed (s\<lparr>uuids_drawn := Suc (uuids_drawn s), clock_reads := Suc (clock_reads s),
      pending := pending s @ [New_LedgerTransaction txn]\<rparr>) = s1"
    using flushed_add[of "s\<lparr>uuids_drawn := Suc (uuids_drawn s), clock_reads := Suc (clock_reads s)\<rparr>"
        "New_LedgerTransaction txn"] by (simp add: s1_def)
  with val con1 s2(1) t(1) have "post ty r ps s = (Inl e, t)"
    by (simp add: post_def Let_def session_defs txn_def)
  moreover have "uuid_source t = uuid_source s \<and> uuids_drawn t = Suc (uuids_drawn s) \<and>
      entry_seq t = entry_seq (flushed s)"
    using draws same_draws_flushed[of s] by (simp add: same_draws_def s1_def)
  ultimately show ?thesis by blast
qed

section \<open>Interface\<close>

text \<open>Moving an amount from one account to another: the posting lists the services build.\<close>

abbreviation transfer :: "UUID \<Rightarrow> UUID \<Rightarrow> int \<Rightarrow> Posting list" where
  "transfer a b x \<equiv> [\<lparr>pst_account_id = a, pst_direction = DEBIT, pst_amount = x\<rparr>,
    \<lparr>pst_account_id = b, pst_direction = CREDIT, pst_amount = x\<rparr>]"

lemma validate_transfer: "validate_balanced (transfer a b x) = Inr () \<longleftrightarrow> 0 < x"
  by (simp add: validate_balanced_Inr posting_credit_def)

lemma validate_transfer_Inl:
  "x \<le> 0 \<Longrightarrow> validate_balanced (transfer a b x) =
     Inl (ValueError (''Posting amount must be strictly positive: '' @ str_int x))"
  by (simp add: validate_balanced_def)

lemma transfer_delta:
  "posting_delta (transfer a b x) c = (if c = b then x else 0) - (if c = a then x else 0)"
  by (simp add: posting_delta_def posting_credit_def)

lemma run_transfer:
  "run_postings f (transfer a b x) =
     (if f a < x then Inl (InsufficientFundsException a (f a) x)
      else Inr (f(a := f a - x, b := (f(a := f a - x)) b + x)))"
  by (simp add: posting_result_def)

locale ledger_contract =
  fixes post_op :: "TransactionType \<Rightarrow> UUID \<Rightarrow> Posting list \<Rightarrow> LedgerTransaction M"
  assumes post_effect: "post_op ty r ps s = (Inr txn, t) \<Longrightarrow>
      posted ty r ps txn (db (flushed s)) (db t) \<and> pending t = []"
    and post_rejects: "validate_balanced ps = Inl e \<Longrightarrow> post_op ty r ps s = (Inl e, s)"
    and post_total: "validate_balanced ps = Inr () \<Longrightarrow>
      run_postings (balance (db (flushed s))) ps = Inr f \<Longrightarrow> constraints (db (flushed s)) \<Longrightarrow>
      uuid_source s (uuids_drawn s) \<notin> txn_id ` set (ledger_transactions (db (flushed s))) \<Longrightarrow>
      pst_account_id ` set ps \<subseteq> account_ids (db (flushed s)) \<Longrightarrow>
      counters_ok (int (length ps)) (flushed s) \<Longrightarrow> \<forall>p \<in> set ps. int64 (pst_amount p) \<Longrightarrow>
      (\<And>a. f a < 2 ^ 63) \<Longrightarrow> \<exists>txn t. post_op ty r ps s = (Inr txn, t)"
begin

lemma transfer_balance:
  "post_op ty r (transfer a b x) s = (Inr txn, t) \<Longrightarrow>
     balance (db t) c = balance (db (flushed s)) c + (if c = b then x else 0) - (if c = a then x else 0)"
  using post_effect[THEN conjunct1, THEN posted_balance, of ty r "transfer a b x" s txn t c]
  by (simp only: transfer_delta)

lemma transfer_funds:
  assumes "post_op ty r (transfer a b x) s = (Inr txn, t)"
  shows "0 < x \<and> x \<le> balance (db (flushed s)) a"
proof -
  from assms have p: "posted ty r (transfer a b x) txn (db (flushed s)) (db t)"
    using post_effect by blast
  then have "validate_balanced (transfer a b x) = Inr ()" by (simp add: posted_def)
  moreover from p have "run_postings (balance (db (flushed s))) (transfer a b x) = Inr (balance (db t))"
    by (simp only: posted_def)
  ultimately show ?thesis by (auto simp: run_transfer validate_transfer simp del: run_postings.simps split: if_splits)
qed

lemma transfer_invalid: "x \<le> 0 \<Longrightarrow> fst (post_op ty r (transfer a b x) s) =
    Inl (ValueError (''Posting amount must be strictly positive: '' @ str_int x))"
  using post_rejects[OF validate_transfer_Inl] by simp

lemma transfer_total:
  assumes "0 < x" and "x \<le> balance (db (flushed s)) a" and "constraints (db (flushed s))"
    and "uuid_source s (uuids_drawn s) \<notin> txn_id ` set (ledger_transactions (db (flushed s)))"
    and "a \<in> account_ids (db (flushed s))" and "b \<in> account_ids (db (flushed s))"
    and "counters_ok 2 (flushed s)"
    and "a \<noteq> b \<Longrightarrow> balance (db (flushed s)) b + x < 2 ^ 63"
  shows "\<exists>txn t. post_op ty r (transfer a b x) s = (Inr txn, t)"
proof -
  let ?f = "balance (db (flushed s))"
  let ?f' = "?f(a := ?f a - x, b := (?f(a := ?f a - x)) b + x)"
  note range = constraints_balance_range[OF assms(3)]
  show ?thesis
  proof (rule post_total[where f = ?f'])
    show "validate_balanced (transfer a b x) = Inr ()" using assms(1) by (simp only: validate_transfer)
    show "run_postings ?f (transfer a b x) = Inr ?f'"
      using assms(2) unfolding run_transfer by simp
    show "?f' c < 2 ^ 63" for c
      using assms(1,8) range[of a] range[of c] by (cases "a = b") auto
    show "\<forall>p \<in> set (transfer a b x). int64 (pst_amount p)"
      using assms(1,2) range[of a] by (simp add: int64_def)
  qed (use assms in simp_all)
qed

end

interpretation ledger: ledger_contract post
proof
  fix ty r ps s txn t
  assume "post ty r ps s = (Inr txn, t)"
  then show "posted ty r ps txn (db (flushed s)) (db t) \<and> pending t = []"
    using post_posted by blast
next
  fix ps e ty r s
  assume "validate_balanced ps = Inl e"
  then show "post ty r ps s = (Inl e, s)" by (rule post_invalid)
next
  fix ps s f ty r
  assume "validate_balanced ps = Inr ()" "run_postings (balance (db (flushed s))) ps = Inr f"
    "constraints (db (flushed s))"
    "uuid_source s (uuids_drawn s) \<notin> txn_id ` set (ledger_transactions (db (flushed s)))"
    "pst_account_id ` set ps \<subseteq> account_ids (db (flushed s))"
    "counters_ok (int (length ps)) (flushed s)" "\<forall>p \<in> set ps. int64 (pst_amount p)"
    "\<And>a. f a < 2 ^ 63"
  then show "\<exists>txn t. post ty r ps s = (Inr txn, t)" by (rule post_succeeds)
qed

section \<open>The ledger frame\<close>

text \<open>
  What every operation of the engine does to the journal: entries and transactions are only
  appended, every transaction still nets to what it netted, the difference between a balance row
  and the entries of its account does not change, and no money is made or lost. States are
  compared as a flush would leave them, so the frame covers objects added but not yet inserted.
\<close>

definition ledger_part :: "database \<Rightarrow>
    Account list \<times> AccountBalance list \<times> LedgerTransaction list \<times> LedgerEntry list" where
  "ledger_part d = (accounts d, account_balances d, ledger_transactions d, ledger_entries d)"

definition ledger_kept :: "database \<Rightarrow> database \<Rightarrow> bool" where
  "ledger_kept d d' \<longleftrightarrow> accounts d' = accounts d \<and>
     (\<exists>ts. ledger_transactions d' = ledger_transactions d @ ts) \<and>
     (\<exists>es. ledger_entries d' = ledger_entries d @ es) \<and>
     (\<forall>t. transaction_net (ledger_entries d') t = transaction_net (ledger_entries d) t) \<and>
     ledger_net d' = ledger_net d \<and> (\<forall>a. drift d' a = drift d a) \<and>
     (distinct (map bal_account_id (account_balances d)) \<longrightarrow>
        distinct (map bal_account_id (account_balances d')) \<and> total_balance d' = total_balance d)"

definition ledger_frame_rel :: "world \<Rightarrow> world \<Rightarrow> bool" where
  "ledger_frame_rel s t \<longleftrightarrow> ledger_kept (db (flushed s)) (db (flushed t))"

lemma ledger_kept_same_part: "ledger_part d' = ledger_part d \<Longrightarrow> ledger_kept d d'"
  by (auto simp: ledger_part_def ledger_kept_def drift_def balance_def total_balance_def ledger_net_def)

lemma ledger_kept_trans: "ledger_kept d d' \<Longrightarrow> ledger_kept d' d'' \<Longrightarrow> ledger_kept d d''"
  by (auto simp: ledger_kept_def)

lemma posted_ledger_kept: "posted ty r ps txn d d' \<Longrightarrow> ledger_kept d d'"
proof -
  assume p: "posted ty r ps txn d d'"
  have "\<exists>es. ledger_entries d' = ledger_entries d @ es" using p by (blast elim: posted_entries)
  moreover have "distinct (map bal_account_id (account_balances d'))"
    using posted_constraints[OF p] by (simp add: constraint_defs)
  ultimately show "ledger_kept d d'"
    using posted_frame[OF p] posted_net[OF p] posted_drift[OF p] posted_total_balance[OF p]
    by (simp add: ledger_kept_def)
qed

interpretation ledger_frame: frame_relation ledger_frame_rel
  by standard (auto simp: ledger_frame_rel_def intro: ledger_kept_same_part ledger_kept_trans)

fun ledger_row :: "row \<Rightarrow> bool" where
  "ledger_row (New_AccountBalance _) = True"
| "ledger_row (New_LedgerTransaction _) = True"
| "ledger_row (New_LedgerEntry _) = True"
| "ledger_row _ = False"

lemma insert_row_ledger_part: "\<not> ledger_row r \<Longrightarrow> ledger_part (db (insert_row r s)) = ledger_part (db s)"
  by (cases r) (simp_all add: ledger_part_def)

lemma insert_row_ledger_cong:
  "ledger_part (db s) = ledger_part (db t) \<Longrightarrow> entry_seq s = entry_seq t \<Longrightarrow>
     ledger_part (db (insert_row r s)) = ledger_part (db (insert_row r t)) \<and>
     entry_seq (insert_row r s) = entry_seq (insert_row r t)"
  by (cases r; clarsimp simp: ledger_part_def)

lemma fold_insert_row_ledger_cong:
  "ledger_part (db s) = ledger_part (db t) \<Longrightarrow> entry_seq s = entry_seq t \<Longrightarrow>
     ledger_part (db (fold insert_row rs s)) = ledger_part (db (fold insert_row rs t))"
proof (induction rs arbitrary: s t)
  case Nil
  then show ?case by simp
next
  case (Cons r rs)
  have "ledger_part (db (fold insert_row rs (insert_row r s))) =
      ledger_part (db (fold insert_row rs (insert_row r t)))"
    by (rule Cons.IH) (use insert_row_ledger_cong[OF Cons.prems, of r] in blast)+
  then show ?case by simp
qed

lemma ledger_frame_change:
  assumes "\<And>s. pending (f s) = pending s" and "\<And>s. entry_seq (f s) = entry_seq s"
    and "\<And>s. ledger_part (db (f s)) = ledger_part (db s)"
  shows "keeps ledger_frame_rel (change f)"
proof (rule ledger_frame.keeps_change)
  fix s
  have "ledger_part (db (flushed (f s))) = ledger_part (db (flushed s))"
    using fold_insert_row_ledger_cong[of "(f s)\<lparr>pending := []\<rparr>" "s\<lparr>pending := []\<rparr>" "pending s"] assms
    by (simp add: flushed_def)
  then show "ledger_frame_rel s (f s)" by (simp add: ledger_frame_rel_def ledger_kept_same_part)
qed

lemma ledger_frame_db_change:
  "(\<And>d. ledger_part (f d) = ledger_part d) \<Longrightarrow>
     keeps ledger_frame_rel (change (\<lambda>s. s\<lparr>db := f (db s)\<rparr>))"
  by (rule ledger_frame_change) simp_all

lemma ledger_frame_add: "\<not> ledger_row r \<Longrightarrow> keeps ledger_frame_rel (session_add r)"
  by (rule keepsI)
    (auto simp: ledger_frame_rel_def flushed_add insert_row_ledger_part intro: ledger_kept_same_part)

lemma ledger_frame_flush: "keeps ledger_frame_rel session_flush"
  by (rule keepsI) (auto simp: ledger_frame_rel_def intro: ledger_kept_same_part)

lemma ledger_frame_uuid4: "keeps ledger_frame_rel uuid4"
  by (rule keepsI) (auto simp: ledger_frame_rel_def intro: ledger_kept_same_part)

lemma ledger_frame_now: "keeps ledger_frame_rel datetime_now"
  by (rule keepsI) (auto simp: ledger_frame_rel_def intro: ledger_kept_same_part)

lemma ledger_frame_post: "keeps ledger_frame_rel (post ty r ps)"
  by (rule keepsI)
    (simp add: ledger_frame_rel_def post_posted(2) posted_ledger_kept[OF post_posted(1)])

lemmas ledger_keeps = ledger_frame.keeps_rules ledger_frame_add ledger_frame_flush ledger_frame_uuid4
  ledger_frame_now ledger_frame_post ledger_frame_db_change

text \<open>A transaction around an operation that keeps the frame keeps the journal, also when it fails.\<close>

lemma transaction_ledger_kept:
  assumes "keeps ledger_frame_rel m" and "transaction m s = (r, t)"
  shows "ledger_kept (db s) (db t)"
proof (cases r)
  case (Inl e)
  with assms(2) have "db t = db s" by (simp add: transaction_Inl_db)
  then show ?thesis by (simp add: ledger_kept_same_part)
next
  case (Inr x)
  with assms(2) obtain s1 where "m (s\<lparr>pending := []\<rparr>) = (Inr x, s1)" and "t = flushed s1"
    by (auto elim: transaction_Inr)
  with assms(1) have "ledger_frame_rel (s\<lparr>pending := []\<rparr>) s1" by (blast dest: keepsD)
  with \<open>t = flushed s1\<close> show ?thesis by (simp add: ledger_frame_rel_def)
qed

lemma transaction_succeeds:
  assumes "keeps ledger_frame_rel m" and "m (s\<lparr>pending := []\<rparr>) = (Inr x, s1)"
    and "constraints (db (flushed s1))" and "ledger_balanced (db s)"
  shows "transaction m s = (Inr x, flushed s1)"
proof (rule transaction_InrI[where m = m and s = s, OF assms(2,3)])
  have "ledger_frame_rel (s\<lparr>pending := []\<rparr>) s1" using assms(1,2) by (rule keepsD)
  with assms(4) have "ledger_balanced (db (flushed s1))"
    by (simp add: ledger_frame_rel_def ledger_kept_def ledger_balanced_def)
  then show "trg_ledger_balanced (db s) (db (flushed s1))" by (rule ledger_balanced_trigger)
qed

lemma post_draws:
  assumes "post ty r ps s = (Inr txn, t)"
  shows "uuid_source t = uuid_source s \<and> uuids_drawn t = Suc (uuids_drawn s)"
proof -
  from assms obtain s1 s2 s3 where s1: "s1 = (flushed s)\<lparr>uuids_drawn := Suc (uuids_drawn s),
      clock_reads := Suc (clock_reads s),
      db := (db (flushed s))\<lparr>ledger_transactions := ledger_transactions (db (flushed s)) @ [txn]\<rparr>\<rparr>"
    and lock: "for_each lock_balance (sorted_account_ids ps) s1 = (Inr (), s2)"
    and app: "for_each (apply_posting (txn_id txn)) ps s2 = (Inr (), s3)" and t: "t = flushed s3"
    by (rule post_Inr_steps)
  have "same_draws s1 s2"
    using draw_frame.keeps_for_each[OF lock_balance_draws] lock by (rule keepsD)
  moreover have "same_draws s2 s3"
    using draw_frame.keeps_for_each[OF apply_posting_draws] app by (rule keepsD)
  ultimately show ?thesis
    using same_draws_flushed[of s] same_draws_flushed[of s3] by (simp add: s1 t same_draws_def)
qed

lemma post_counters:
  assumes "post ty r ps s = (Inr txn, t)" and "counters_ok (n + int (length ps)) (flushed s)" and "0 \<le> n"
  shows "counters_ok n t"
proof -
  let ?k = "2 ^ 63 - (n + int (length ps))"
  from assms(1) obtain s1 s2 s3 where s1: "s1 = (flushed s)\<lparr>uuids_drawn := Suc (uuids_drawn s),
      clock_reads := Suc (clock_reads s),
      db := (db (flushed s))\<lparr>ledger_transactions := ledger_transactions (db (flushed s)) @ [txn]\<rparr>\<rparr>"
    and lock: "for_each lock_balance (sorted_account_ids ps) s1 = (Inr (), s2)"
    and app: "for_each (apply_posting (txn_id txn)) ps s2 = (Inr (), s3)" and t: "t = flushed s3"
    by (rule post_Inr_steps)
  have "versions_below ?k (db s1)" and "0 < ?k"
    using assms(2) by (auto simp: counters_ok_def versions_below_def s1)
  with lock have v2: "versions_below ?k (db s2)" "entry_seq s2 = entry_seq s1"
    using lock_balances_counters[OF lock] by (simp_all add: s1)
  have "?k + int (length ps) = 2 ^ 63 - n" by simp
  with apply_postings_counters[OF app v2(1)] v2(2) have v3: "versions_below (2 ^ 63 - n) (db s3)"
    "entry_seq s3 = entry_seq (flushed s)" by (simp_all add: s1)
  have pe: "pending s1 = []" by (simp add: s1)
  note l = lock_balances_Inr[OF lock pe]
  note a = apply_postings_Inr[OF app]
  from a l obtain es where es: "pending s3 = map New_LedgerEntry es"
    "list_all2 (entry_matches (txn_id txn)) ps es" by auto
  have ent: "ledger_entries (db s3) = ledger_entries (db (flushed s))"
    using only_balances_fields(3)[of "db s2" "db s3"] only_balances_fields(3)[of "db s1" "db s2"] a l
    by (simp add: s1)
  have len: "length es = length ps" using es(2) by (simp add: list_all2_lengthD)
  have "ent_id e < entry_seq s3 + int (length ps)" if "e \<in> set (numbered (entry_seq s3) es)" for e
  proof -
    from that have "ent_id e \<in> set (map ent_id (numbered (entry_seq s3) es))" by simp
    then show ?thesis using len by (auto simp: numbered_ids)
  qed
  moreover have "entry_seq t = entry_seq s3 + int (length ps)"
    by (simp add: t flushed_def es(1) fold_insert_entries len)
  ultimately show ?thesis
    using assms(2,3) v3 ent
    by (fastforce simp: counters_ok_def t flushed_entries[OF es(1)] versions_below_def)
qed

end
