(* ===== verification/Saga.thy ===== *)
theory Saga
  imports Ledger
begin

text \<open>
  The hold / settle / reverse saga (\<open>app/application/payment_saga.py\<close>) on the session of
  \<open>Database\<close> and the ledger of \<open>Ledger\<close>. \<open>transitioned\<close> is what each phase does to the
  tables: one balanced ledger transaction and one outbox event beside the change of the payment.
\<close>

section \<open>Operations\<close>

definition select_payment :: "UUID \<Rightarrow> Payment option M" where
  "select_payment pid = gets (\<lambda>s. row_of pay_id pid (payments (db s)))"

text \<open>Attribute changes on a loaded payment object.\<close>

definition put_payment :: "Payment \<Rightarrow> unit M" where
  "put_payment p = change (\<lambda>s. s\<lparr>db := (db s)\<lparr>payments :=
     set_row pay_id (pay_id p) (\<lambda>_. p) (payments (db s))\<rparr>\<rparr>)"

text \<open>\<open>session.add(Outbox(...))\<close>, with the column defaults of \<open>id\<close> and \<open>created_at\<close>.\<close>

definition add_outbox :: "string \<Rightarrow> UUID \<Rightarrow> string \<Rightarrow> json \<Rightarrow> unit M" where
  "add_outbox aggregate_type aggregate_id event_type payload =
     and_then uuid4 (\<lambda>i.
     and_then datetime_now (\<lambda>t.
     session_add (New_Outbox \<lparr>obx_id = i, obx_aggregate_type = aggregate_type,
       obx_aggregate_id = aggregate_id, obx_event_type = event_type, obx_payload = payload,
       obx_created_at = t, obx_published_at = None\<rparr>)))"

definition processing_payload :: "Payment \<Rightarrow> json" where
  "processing_payload p = JObj [(''paymentId'', JStr (str_uuid (pay_id p))),
     (''merchantId'', JStr (pay_merchant_id p)), (''amount'', JInt (pay_amount p)),
     (''currency'', JStr (pay_currency p)), (''status'', JStr (PaymentStatus_value (pay_status p)))]"

definition succeeded_payload :: "Payment \<Rightarrow> json" where
  "succeeded_payload p = JObj [(''paymentId'', JStr (str_uuid (pay_id p))),
     (''merchantId'', JStr (pay_merchant_id p)), (''amount'', JInt (pay_amount p)),
     (''currency'', JStr (pay_currency p)), (''status'', JStr (PaymentStatus_value (pay_status p))),
     (''pspReference'', case pay_psp_reference p of None \<Rightarrow> JNull | Some r \<Rightarrow> JStr r)]"

definition failed_payload :: "Payment \<Rightarrow> json" where
  "failed_payload p = JObj [(''paymentId'', JStr (str_uuid (pay_id p))),
     (''merchantId'', JStr (pay_merchant_id p)), (''amount'', JInt (pay_amount p)),
     (''status'', JStr (PaymentStatus_value (pay_status p)))]"

definition hold :: "Payment \<Rightarrow> Payment M" where
  "hold p0 = (let payment = p0\<lparr>pay_status := PaymentStatus.PROCESSING\<rparr> in
     and_then (session_add (New_Payment payment)) (\<lambda>_.
     and_then session_flush (\<lambda>_.
     and_then (post TransactionType.PAYMENT (pay_id payment)
       (transfer (pay_payer_account payment) PSP_SUSPENSE_ACCOUNT_ID (pay_amount payment))) (\<lambda>_.
     and_then (add_outbox ''payment'' (pay_id payment) ''payment.processing''
       (processing_payload payment)) (\<lambda>_.
     and_then session_flush (\<lambda>_.
     ret payment))))))"

definition settle :: "UUID \<Rightarrow> string \<Rightarrow> Payment M" where
  "settle payment_id psp_reference = and_then (select_payment payment_id) (\<lambda>row. case row of
     None \<Rightarrow> raise (PaymentNotFoundException payment_id)
   | Some p \<Rightarrow>
       and_then datetime_now (\<lambda>t.
       let payment = p\<lparr>pay_status := PaymentStatus.SUCCEEDED, pay_psp_reference := Some psp_reference,
             pay_version := pay_version p + 1, pay_updated_at := t\<rparr> in
       and_then (put_payment payment) (\<lambda>_.
       and_then (post TransactionType.PAYMENT (pay_id payment)
         (transfer PSP_SUSPENSE_ACCOUNT_ID (pay_payee_account payment) (pay_amount payment))) (\<lambda>_.
       and_then (add_outbox ''payment'' (pay_id payment) ''payment.succeeded''
         (succeeded_payload payment)) (\<lambda>_.
       and_then session_flush (\<lambda>_.
       ret payment))))))"

definition reverse :: "UUID \<Rightarrow> Payment M" where
  "reverse payment_id = and_then (select_payment payment_id) (\<lambda>row. case row of
     None \<Rightarrow> raise (PaymentNotFoundException payment_id)
   | Some p \<Rightarrow>
       and_then datetime_now (\<lambda>t.
       let payment = p\<lparr>pay_status := PaymentStatus.FAILED, pay_version := pay_version p + 1,
             pay_updated_at := t\<rparr> in
       and_then (put_payment payment) (\<lambda>_.
       and_then (post TransactionType.REVERSAL (pay_id payment)
         (transfer PSP_SUSPENSE_ACCOUNT_ID (pay_payer_account payment) (pay_amount payment))) (\<lambda>_.
       and_then (add_outbox ''payment'' (pay_id payment) ''payment.failed''
         (failed_payload payment)) (\<lambda>_.
       and_then session_flush (\<lambda>_.
       ret payment))))))"

section \<open>Specification of a phase\<close>

definition transitioned :: "TransactionType \<Rightarrow> UUID \<Rightarrow> Posting list \<Rightarrow> string \<Rightarrow> json \<Rightarrow>
    database \<Rightarrow> database \<Rightarrow> bool" where
  "transitioned ty pid ps event payload d d' \<longleftrightarrow> (\<exists>txn ev d1.
     posted ty pid ps txn d d1 \<and> d' = d1\<lparr>outbox := outbox d1 @ [ev]\<rparr> \<and>
     obx_aggregate_type ev = ''payment'' \<and> obx_aggregate_id ev = pid \<and> obx_event_type ev = event \<and>
     obx_payload ev = payload \<and> obx_published_at ev = None \<and> constraints d')"

text \<open>What the three phases share: post, publish, flush.\<close>

lemma phase_Inr:
  assumes "and_then (post ty pid ps) (\<lambda>_. and_then (add_outbox ''payment'' pid event payload) (\<lambda>_.
      and_then session_flush (\<lambda>_. ret p))) s = (Inr q, t)"
    and "pending s = []"
  shows "q = p \<and> transitioned ty pid ps event payload (db s) (db t) \<and> pending t = []"
proof -
  from assms(1) obtain txn s1 where s1: "post ty pid ps s = (Inr txn, s1)"
    and rest: "and_then (add_outbox ''payment'' pid event payload) (\<lambda>_.
      and_then session_flush (\<lambda>_. ret p)) s1 = (Inr q, t)"
    by (rule and_then_InrE)
  from ledger.post_effect[OF s1] assms(2) have posted: "posted ty pid ps txn (db s) (db s1)"
    and pe: "pending s1 = []" by simp_all
  from rest pe obtain i n where "q = p" and t: "pending t = []" "constraints (db t)"
    and db: "db t = (db s1)\<lparr>outbox := outbox (db s1) @ [\<lparr>obx_id = i, obx_aggregate_type = ''payment'',
       obx_aggregate_id = pid, obx_event_type = event, obx_payload = payload,
       obx_created_at = n, obx_published_at = None\<rparr>]\<rparr>"
    by (auto simp: add_outbox_def and_then_Inr_iff flushed_def)
  with posted show ?thesis unfolding transitioned_def by (auto intro!: exI)
qed

lemma put_payment_Inr [simp]:
  "put_payment p s = (Inr u, t) \<longleftrightarrow>
     t = s\<lparr>db := (db s)\<lparr>payments := set_row pay_id (pay_id p) (\<lambda>_. p) (payments (db s))\<rparr>\<rparr>"
  by (auto simp: put_payment_def)

lemma hold_Inr:
  assumes "hold p s = (Inr q, t)" and "pending s = []"
  shows "q = p\<lparr>pay_status := PaymentStatus.PROCESSING\<rparr> \<and> pending t = [] \<and>
    transitioned TransactionType.PAYMENT (pay_id p)
      (transfer (pay_payer_account p) PSP_SUSPENSE_ACCOUNT_ID (pay_amount p)) ''payment.processing''
      (processing_payload q) ((db s)\<lparr>payments := payments (db s) @ [q]\<rparr>) (db t)"
proof -
  let ?q = "p\<lparr>pay_status := PaymentStatus.PROCESSING\<rparr>"
  let ?rest = "and_then (post TransactionType.PAYMENT (pay_id p)
      (transfer (pay_payer_account p) PSP_SUSPENSE_ACCOUNT_ID (pay_amount p))) (\<lambda>_.
      and_then (add_outbox ''payment'' (pay_id p) ''payment.processing'' (processing_payload ?q)) (\<lambda>_.
      and_then session_flush (\<lambda>_. ret ?q)))"
  from assms have "and_then session_flush (\<lambda>_. ?rest) (s\<lparr>pending := [New_Payment ?q]\<rparr>) = (Inr q, t)"
    by (simp add: hold_def Let_def session_add_def)
  then obtain u s1 where "session_flush (s\<lparr>pending := [New_Payment ?q]\<rparr>) = (Inr u, s1)"
    and rest: "?rest s1 = (Inr q, t)" by (rule and_then_InrE)
  then have s1: "pending s1 = []" "db s1 = (db s)\<lparr>payments := payments (db s) @ [?q]\<rparr>"
    by (simp_all add: flushed_def)
  from phase_Inr[OF rest s1(1)] s1(2) show ?thesis by simp
qed

lemma settle_Inr:
  assumes "settle pid ref s = (Inr q, t)" and "pending s = []"
  obtains p n where "row_of pay_id pid (payments (db s)) = Some p"
    and "q = p\<lparr>pay_status := PaymentStatus.SUCCEEDED, pay_psp_reference := Some ref,
             pay_version := pay_version p + 1, pay_updated_at := n\<rparr>"
    and "pending t = []"
    and "transitioned TransactionType.PAYMENT pid
      (transfer PSP_SUSPENSE_ACCOUNT_ID (pay_payee_account p) (pay_amount p)) ''payment.succeeded''
      (succeeded_payload q) ((db s)\<lparr>payments := set_row pay_id pid (\<lambda>_. q) (payments (db s))\<rparr>) (db t)"
proof -
  from assms(1) obtain p where p: "row_of pay_id pid (payments (db s)) = Some p"
    by (auto simp: settle_def select_payment_def split: option.splits)
  then have pid: "pay_id p = pid" by (auto dest: row_of_SomeD)
  let ?n = "clock s (clock_reads s)"
  let ?q = "p\<lparr>pay_status := PaymentStatus.SUCCEEDED, pay_psp_reference := Some ref,
    pay_version := pay_version p + 1, pay_updated_at := ?n\<rparr>"
  let ?s1 = "s\<lparr>clock_reads := Suc (clock_reads s),
    db := (db s)\<lparr>payments := set_row pay_id pid (\<lambda>_. ?q) (payments (db s))\<rparr>\<rparr>"
  have "and_then (post TransactionType.PAYMENT pid
      (transfer PSP_SUSPENSE_ACCOUNT_ID (pay_payee_account p) (pay_amount p))) (\<lambda>_.
      and_then (add_outbox ''payment'' pid ''payment.succeeded'' (succeeded_payload ?q)) (\<lambda>_.
      and_then session_flush (\<lambda>_. ret ?q))) ?s1 = (Inr q, t)"
    using assms(1) p pid
    by (simp add: settle_def select_payment_def Let_def and_then_Inr[of datetime_now] datetime_now_def
        put_payment_def)
  from phase_Inr[OF this] assms(2) have q: "q = ?q" and "pending t = []"
    and tr: "transitioned TransactionType.PAYMENT pid
      (transfer PSP_SUSPENSE_ACCOUNT_ID (pay_payee_account p) (pay_amount p)) ''payment.succeeded''
      (succeeded_payload ?q) ((db s)\<lparr>payments := set_row pay_id pid (\<lambda>_. ?q) (payments (db s))\<rparr>) (db t)"
    by simp_all
  show thesis by (rule that[OF p q \<open>pending t = []\<close>]) (use tr q in simp)
qed

lemma reverse_Inr:
  assumes "reverse pid s = (Inr q, t)" and "pending s = []"
  obtains p n where "row_of pay_id pid (payments (db s)) = Some p"
    and "q = p\<lparr>pay_status := PaymentStatus.FAILED, pay_version := pay_version p + 1, pay_updated_at := n\<rparr>"
    and "pending t = []"
    and "transitioned TransactionType.REVERSAL pid
      (transfer PSP_SUSPENSE_ACCOUNT_ID (pay_payer_account p) (pay_amount p)) ''payment.failed''
      (failed_payload q) ((db s)\<lparr>payments := set_row pay_id pid (\<lambda>_. q) (payments (db s))\<rparr>) (db t)"
proof -
  from assms(1) obtain p where p: "row_of pay_id pid (payments (db s)) = Some p"
    by (auto simp: reverse_def select_payment_def split: option.splits)
  then have pid: "pay_id p = pid" by (auto dest: row_of_SomeD)
  let ?n = "clock s (clock_reads s)"
  let ?q = "p\<lparr>pay_status := PaymentStatus.FAILED, pay_version := pay_version p + 1, pay_updated_at := ?n\<rparr>"
  let ?s1 = "s\<lparr>clock_reads := Suc (clock_reads s),
    db := (db s)\<lparr>payments := set_row pay_id pid (\<lambda>_. ?q) (payments (db s))\<rparr>\<rparr>"
  have "and_then (post TransactionType.REVERSAL pid
      (transfer PSP_SUSPENSE_ACCOUNT_ID (pay_payer_account p) (pay_amount p))) (\<lambda>_.
      and_then (add_outbox ''payment'' pid ''payment.failed'' (failed_payload ?q)) (\<lambda>_.
      and_then session_flush (\<lambda>_. ret ?q))) ?s1 = (Inr q, t)"
    using assms(1) p pid
    by (simp add: reverse_def select_payment_def Let_def and_then_Inr[of datetime_now] datetime_now_def
        put_payment_def)
  from phase_Inr[OF this] assms(2) have q: "q = ?q" and "pending t = []"
    and tr: "transitioned TransactionType.REVERSAL pid
      (transfer PSP_SUSPENSE_ACCOUNT_ID (pay_payer_account p) (pay_amount p)) ''payment.failed''
      (failed_payload ?q) ((db s)\<lparr>payments := set_row pay_id pid (\<lambda>_. ?q) (payments (db s))\<rparr>) (db t)"
    by simp_all
  show thesis by (rule that[OF p q \<open>pending t = []\<close>]) (use tr q in simp)
qed

section \<open>Consequences\<close>

lemma balance_payments [simp]: "balance (d\<lparr>payments := ps\<rparr>) = balance d"
  by (simp add: balance_def fun_eq_iff)

lemma balance_outbox [simp]: "balance (d\<lparr>outbox := es\<rparr>) = balance d"
  by (simp add: balance_def fun_eq_iff)

lemma transitioned_frame:
  assumes "transitioned ty pid ps event payload d d'"
  shows "accounts d' = accounts d" and "payments d' = payments d" and "refunds d' = refunds d"
    and "idempotency_keys d' = idempotency_keys d" and "webhook_events d' = webhook_events d"
    and "processed_events d' = processed_events d" and "constraints d'"
  using assms by (auto simp: transitioned_def posted_frame)

lemma transitioned_outbox:
  assumes "transitioned ty pid ps event payload d d'"
  obtains ev where "outbox d' = outbox d @ [ev]" and "obx_aggregate_type ev = ''payment''"
    and "obx_aggregate_id ev = pid" and "obx_event_type ev = event" and "obx_payload ev = payload"
    and "obx_published_at ev = None"
  using assms by (auto simp: transitioned_def posted_frame)

lemma transitioned_transactions:
  assumes "transitioned ty pid ps event payload d d'"
  obtains txn es where "ledger_transactions d' = ledger_transactions d @ [txn]" and "txn_type txn = ty"
    and "txn_reference_id txn = pid" and "ledger_entries d' = ledger_entries d @ es"
    and "list_all2 (entry_matches (txn_id txn)) ps es"
proof -
  from assms obtain txn ev d1 where p: "posted ty pid ps txn d d1"
    and d': "d' = d1\<lparr>outbox := outbox d1 @ [ev]\<rparr>" by (auto simp: transitioned_def)
  from p obtain es where "ledger_entries d1 = ledger_entries d @ es"
    and "list_all2 (entry_matches (txn_id txn)) ps es" by (rule posted_entries)
  with p d' show thesis by (intro that[of txn es]) (simp_all add: posted_frame, simp_all add: posted_def)
qed

lemma transitioned_balance:
  "transitioned ty pid ps event payload d d' \<Longrightarrow> balance d' c = balance d c + posting_delta ps c"
  by (auto simp: transitioned_def posted_balance)

lemma transitioned_transfer:
  assumes "transitioned ty pid (transfer a b x) event payload d d'"
  shows "balance d' c = balance d c + (if c = b then x else 0) - (if c = a then x else 0)"
    and "0 < x" and "x \<le> balance d a"
proof -
  show "balance d' c = balance d c + (if c = b then x else 0) - (if c = a then x else 0)"
    using transitioned_balance[OF assms, of c] unfolding transfer_delta by simp
  from assms obtain txn d1 where p: "posted ty pid (transfer a b x) txn d d1"
    by (auto simp: transitioned_def)
  then have "validate_balanced (transfer a b x) = Inr ()"
    and run: "run_postings (balance d) (transfer a b x) = Inr (balance d1)"
    by (simp_all only: posted_def)
  then show "0 < x" by (simp only: validate_transfer)
  from run show "x \<le> balance d a" unfolding run_transfer by (simp split: if_splits)
qed

lemma transitioned_ledger_kept: "transitioned ty pid ps event payload d d' \<Longrightarrow> ledger_kept d d'"
proof -
  assume "transitioned ty pid ps event payload d d'"
  then obtain txn ev d1 where p: "posted ty pid ps txn d d1"
    and d': "d' = d1\<lparr>outbox := outbox d1 @ [ev]\<rparr>" by (auto simp: transitioned_def)
  have "ledger_kept d1 d'" by (rule ledger_kept_same_part) (simp add: d' ledger_part_def)
  with posted_ledger_kept[OF p] show "ledger_kept d d'" by (rule ledger_kept_trans)
qed

lemma add_outbox_keeps: "keeps ledger_frame_rel (add_outbox aty aid ety pl)"
  unfolding add_outbox_def by (intro ledger_keeps) simp

lemma put_payment_keeps: "keeps ledger_frame_rel (put_payment p)"
  unfolding put_payment_def by (rule ledger_frame_db_change) (simp add: ledger_part_def)

lemma select_payment_keeps: "keeps ledger_frame_rel (select_payment p)"
  unfolding select_payment_def by (rule ledger_frame.keeps_gets)

lemma hold_keeps: "keeps ledger_frame_rel (hold p)"
  unfolding hold_def Let_def by (intro ledger_keeps add_outbox_keeps) simp

lemma settle_keeps: "keeps ledger_frame_rel (settle pid ref)"
  unfolding settle_def Let_def
  by (intro ledger_keeps add_outbox_keeps put_payment_keeps select_payment_keeps)

lemma reverse_keeps: "keeps ledger_frame_rel (reverse pid)"
  unfolding reverse_def Let_def
  by (intro ledger_keeps add_outbox_keeps put_payment_keeps select_payment_keeps)

lemmas saga_keeps = ledger_keeps add_outbox_keeps put_payment_keeps select_payment_keeps hold_keeps
  settle_keeps reverse_keeps

section \<open>When a phase succeeds\<close>

text \<open>The next \<open>n\<close> random identifiers are new to the journal and the outbox and differ from each other.\<close>

definition fresh_uuids :: "nat \<Rightarrow> world \<Rightarrow> bool" where
  "fresh_uuids n s \<longleftrightarrow> (\<forall>i < n. uuid_source s (uuids_drawn s + i) \<notin>
     txn_id ` set (ledger_transactions (db s)) \<union> obx_id ` set (outbox (db s))) \<and>
     inj_on (\<lambda>i. uuid_source s (uuids_drawn s + i)) {..<n}"

lemma constraints_put_payment:
  assumes "constraints d" and "row_of pay_id pid (payments d) = Some p" and "pay_id q = pid"
    and "pay_payer_account q = pay_payer_account p" and "pay_payee_account q = pay_payee_account p"
    and "pay_amount q = pay_amount p" and "int64 (pay_refunded_amount q)"
    and "pay_merchant_id q = pay_merchant_id p" and "pay_currency q = pay_currency p"
    and "int64 (pay_version q)"
    and "case pay_psp_reference q of None \<Rightarrow> True | Some r \<Rightarrow> length r \<le> 255"
  shows "constraints (d\<lparr>payments := set_row pay_id pid (\<lambda>_. q) (payments d)\<rparr>)"
proof -
  let ?ps = "set_row pay_id pid (\<lambda>_. q) (payments d)"
  have keys: "map pay_id ?ps = map pay_id (payments d)"
    by (auto simp: set_row_def assms(3))
  then have ids: "pay_id ` set ?ps = pay_id ` set (payments d)" by (metis list.set_map)
  from row_of_SomeD[OF assms(2)] have "p \<in> set (payments d)" by simp
  then have "payments_ok (d\<lparr>payments := ?ps\<rparr>)"
    using assms keys by (auto simp: payments_ok_def constraints_def account_ids_def dest!: in_set_row)
  with assms(1) ids show ?thesis by (simp add: constraint_defs)
qed

lemma constraints_add_outbox:
  "constraints d \<Longrightarrow> obx_id ev \<notin> obx_id ` set (outbox d) \<Longrightarrow> length (obx_aggregate_type ev) \<le> 100 \<Longrightarrow>
     length (obx_event_type ev) \<le> 100 \<Longrightarrow> constraints (d\<lparr>outbox := outbox d @ [ev]\<rparr>)"
  by (auto simp: constraint_defs)

lemma counters_ok_db [simp]:
  "counters_ok n (s\<lparr>db := (db s)\<lparr>payments := ps\<rparr>\<rparr>) = counters_ok n s"
  "counters_ok n (s\<lparr>clock_reads := k\<rparr>) = counters_ok n s"
  by (simp_all add: counters_ok_def)

lemma fresh_uuids_db [simp]:
  "fresh_uuids n (s\<lparr>db := (db s)\<lparr>payments := ps\<rparr>\<rparr>) = fresh_uuids n s"
  "fresh_uuids n (s\<lparr>clock_reads := k\<rparr>) = fresh_uuids n s"
  by (simp_all add: fresh_uuids_def)

lemma fresh_uuidsD:
  "fresh_uuids n s \<Longrightarrow> i < n \<Longrightarrow> uuid_source s (uuids_drawn s + i) \<notin> txn_id ` set (ledger_transactions (db s))"
  "fresh_uuids n s \<Longrightarrow> i < n \<Longrightarrow> uuid_source s (uuids_drawn s + i) \<notin> obx_id ` set (outbox (db s))"
  "fresh_uuids n s \<Longrightarrow> i < n \<Longrightarrow> j < n \<Longrightarrow> i \<noteq> j \<Longrightarrow>
     uuid_source s (uuids_drawn s + i) \<noteq> uuid_source s (uuids_drawn s + j)"
  unfolding fresh_uuids_def by (blast, blast, metis inj_onD lessThan_iff)

text \<open>Drawing \<open>k\<close> identifiers and using only them as keys leaves the rest new.\<close>

lemma fresh_uuids_used:
  assumes "fresh_uuids (k + m) s" and "uuid_source t = uuid_source s" and "uuids_drawn t = uuids_drawn s + k"
    and "txn_id ` set (ledger_transactions (db t)) \<union> obx_id ` set (outbox (db t)) \<subseteq>
      (\<lambda>i. uuid_source s (uuids_drawn s + i)) ` {..<k} \<union>
      (txn_id ` set (ledger_transactions (db s)) \<union> obx_id ` set (outbox (db s)))"
  shows "fresh_uuids m t"
proof -
  let ?u = "\<lambda>i. uuid_source s (uuids_drawn s + i)"
  have "?u (k + i) \<notin> txn_id ` set (ledger_transactions (db t)) \<union> obx_id ` set (outbox (db t))" if "i < m" for i
  proof -
    have "?u (k + i) \<noteq> ?u j" if "j < k" for j
      using fresh_uuidsD(3)[OF assms(1), of "k + i" j] \<open>i < m\<close> that by simp
    then have "?u (k + i) \<notin> ?u ` {..<k}" by auto
    moreover have "?u (k + i) \<notin> txn_id ` set (ledger_transactions (db s)) \<union> obx_id ` set (outbox (db s))"
      using fresh_uuidsD(1,2)[OF assms(1), of "k + i"] that by simp
    ultimately show ?thesis using subsetD[OF assms(4), of "?u (k + i)"] by (simp only: Un_iff) argo
  qed
  moreover have "inj_on (\<lambda>i. ?u (k + i)) {..<m}"
    using fresh_uuidsD(3)[OF assms(1)] by (intro inj_onI) (metis add_left_cancel lessThan_iff nat_add_left_cancel_less)
  ultimately show ?thesis by (simp add: fresh_uuids_def assms(2,3) add.assoc)
qed

lemma fresh_uuids_step:
  assumes "fresh_uuids (2 + m) s" and "uuid_source t = uuid_source s" and "uuids_drawn t = uuids_drawn s + 2"
    and "txn_id ` set (ledger_transactions (db t)) \<subseteq>
      insert (uuid_source s (uuids_drawn s + 0)) (txn_id ` set (ledger_transactions (db s)))"
    and "obx_id ` set (outbox (db t)) \<subseteq>
      insert (uuid_source s (uuids_drawn s + 1)) (obx_id ` set (outbox (db s)))"
  shows "fresh_uuids m t"
proof (rule fresh_uuids_used[OF assms(1-3)])
  have "{uuid_source s (uuids_drawn s + 0), uuid_source s (uuids_drawn s + 1)} \<subseteq>
      (\<lambda>i. uuid_source s (uuids_drawn s + i)) ` {..<2}"
    by (simp add: lessThan_Suc numeral_2_eq_2)
  with assms(4,5) show "txn_id ` set (ledger_transactions (db t)) \<union> obx_id ` set (outbox (db t)) \<subseteq>
      (\<lambda>i. uuid_source s (uuids_drawn s + i)) ` {..<2} \<union>
      (txn_id ` set (ledger_transactions (db s)) \<union> obx_id ` set (outbox (db s)))" by blast
qed

text \<open>
  The common tail of a phase returns when the debited account has the money, the counters have
  room and the identifiers are new; and it leaves room for the next phase.
\<close>

lemma phase_succeeds:
  assumes pe: "pending s = []" and con: "constraints (db s)" and x: "0 < x" "x \<le> balance (db s) a"
    and acc: "a \<in> account_ids (db s)" "b \<in> account_ids (db s)"
    and room: "counters_ok (2 + n) s" "0 \<le> n" and fresh: "fresh_uuids (2 + m) s"
    and fits: "a \<noteq> b \<Longrightarrow> balance (db s) b + x < 2 ^ 63" and len: "length event \<le> 100"
  shows "\<exists>t. and_then (post ty pid (transfer a b x)) (\<lambda>_.
      and_then (add_outbox ''payment'' pid event payload) (\<lambda>_.
      and_then session_flush (\<lambda>_. ret p))) s = (Inr p, t) \<and> counters_ok n t \<and> fresh_uuids m t"
proof -
  have "uuid_source s (uuids_drawn s + 0) \<notin> txn_id ` set (ledger_transactions (db s))"
    using fresh_uuidsD(1)[OF fresh, of 0] by simp
  moreover have "counters_ok 2 s" using room by (auto simp: counters_ok_def)
  ultimately obtain txn s1 where s1: "post ty pid (transfer a b x) s = (Inr txn, s1)"
    using ledger.transfer_total[of x s a b ty pid] pe con x acc fits by auto
  from ledger.post_effect[OF s1] pe have posted: "posted ty pid (transfer a b x) txn (db s) (db s1)"
    and pe1: "pending s1 = []" by simp_all
  have draws: "uuid_source s1 = uuid_source s" "uuids_drawn s1 = Suc (uuids_drawn s)"
    using post_draws[OF s1] by simp_all
  from s1 have tid: "txn_id txn = uuid_source s (uuids_drawn s)" by (rule post_Inr_steps)
  have room1: "counters_ok n s1" using post_counters[OF s1] room pe by (simp add: add.commute)
  let ?i = "uuid_source s (uuids_drawn s + 1)"
  let ?ev = "\<lparr>obx_id = ?i, obx_aggregate_type = ''payment'', obx_aggregate_id = pid,
    obx_event_type = event, obx_payload = payload, obx_created_at = clock s1 (clock_reads s1),
    obx_published_at = None\<rparr>"
  let ?t = "s1\<lparr>uuids_drawn := Suc (uuids_drawn s1), clock_reads := Suc (clock_reads s1),
    db := (db s1)\<lparr>outbox := outbox (db s1) @ [?ev]\<rparr>\<rparr>"
  have new: "?i \<notin> obx_id ` set (outbox (db s1))"
    using fresh_uuidsD(2)[OF fresh, of 1] by (simp add: posted_frame(5)[OF posted])
  have "constraints (db ?t)"
    using constraints_add_outbox[OF posted_constraints[OF posted], of ?ev] new len by simp
  moreover have "flushed (s1\<lparr>uuids_drawn := Suc (uuids_drawn s1), clock_reads := Suc (clock_reads s1),
      pending := [New_Outbox ?ev]\<rparr>) = ?t" using pe1 by (cases s1) (simp add: flushed_def)
  ultimately have "and_then (post ty pid (transfer a b x)) (\<lambda>_.
      and_then (add_outbox ''payment'' pid event payload) (\<lambda>_.
      and_then session_flush (\<lambda>_. ret p))) s = (Inr p, ?t)"
    using s1 pe1 draws by (simp add: add_outbox_def session_defs)
  moreover have "counters_ok n ?t" using room1 by (simp add: counters_ok_def)
  moreover have "fresh_uuids m ?t"
    by (rule fresh_uuids_step[OF fresh]) (auto simp: draws tid posted_frame[OF posted])
  ultimately show ?thesis by blast
qed

lemma account_ids_payments [simp]: "account_ids (d\<lparr>payments := ps\<rparr>) = account_ids d"
  by (simp add: account_ids_def)

lemma payment_accounts:
  assumes "constraints d" and "row_of pay_id pid (payments d) = Some p"
  shows "pay_payer_account p \<in> account_ids d" and "pay_payee_account p \<in> account_ids d"
    and "pay_id p = pid" and "length (pay_merchant_id p) \<le> 255"
    and "case pay_psp_reference p of None \<Rightarrow> True | Some r \<Rightarrow> length r \<le> 255"
    and "int64 (pay_refunded_amount p)" and "int64 (pay_amount p)" and "int64 (pay_version p)"
  using assms row_of_SomeD[OF assms(2)] by (auto simp: constraint_defs)

lemma settle_succeeds:
  assumes "pending s = []" and con: "constraints (db s)" and p: "row_of pay_id pid (payments (db s)) = Some p"
    and "0 < pay_amount p" and "pay_amount p \<le> balance (db s) PSP_SUSPENSE_ACCOUNT_ID"
    and "PSP_SUSPENSE_ACCOUNT_ID \<in> account_ids (db s)" and "counters_ok (2 + n) s" and "0 \<le> n"
    and "fresh_uuids (2 + m) s" and "length ref \<le> 255" and "int64 (pay_version p + 1)"
    and "PSP_SUSPENSE_ACCOUNT_ID \<noteq> pay_payee_account p \<Longrightarrow>
      balance (db s) (pay_payee_account p) + pay_amount p < 2 ^ 63"
  shows "\<exists>q t. settle pid ref s = (Inr q, t) \<and> counters_ok n t \<and> fresh_uuids m t"
proof -
  note acc = payment_accounts[OF con p]
  let ?q = "p\<lparr>pay_status := PaymentStatus.SUCCEEDED, pay_psp_reference := Some ref,
    pay_version := pay_version p + 1, pay_updated_at := clock s (clock_reads s)\<rparr>"
  let ?d1 = "(db s)\<lparr>payments := set_row pay_id pid (\<lambda>_. ?q) (payments (db s))\<rparr>"
  let ?s1 = "s\<lparr>clock_reads := Suc (clock_reads s), db := ?d1\<rparr>"
  have "constraints ?d1" using assms acc by (intro constraints_put_payment[OF con p]) simp_all
  then have "\<exists>t. and_then (post TransactionType.PAYMENT pid
      (transfer PSP_SUSPENSE_ACCOUNT_ID (pay_payee_account p) (pay_amount p))) (\<lambda>_.
      and_then (add_outbox ''payment'' pid ''payment.succeeded'' (succeeded_payload ?q)) (\<lambda>_.
      and_then session_flush (\<lambda>_. ret ?q))) ?s1 = (Inr ?q, t) \<and> counters_ok n t \<and> fresh_uuids m t"
    using assms acc by (intro phase_succeeds) (simp_all add: counters_ok_def fresh_uuids_def)
  then show ?thesis using p acc(3)
    by (auto simp: settle_def select_payment_def Let_def and_then_Inr[of datetime_now] datetime_now_def
        put_payment_def)
qed

lemma reverse_succeeds:
  assumes "pending s = []" and con: "constraints (db s)" and p: "row_of pay_id pid (payments (db s)) = Some p"
    and "0 < pay_amount p" and "pay_amount p \<le> balance (db s) PSP_SUSPENSE_ACCOUNT_ID"
    and "PSP_SUSPENSE_ACCOUNT_ID \<in> account_ids (db s)" and "counters_ok (2 + n) s" and "0 \<le> n"
    and "fresh_uuids (2 + m) s" and "int64 (pay_version p + 1)"
    and "PSP_SUSPENSE_ACCOUNT_ID \<noteq> pay_payer_account p \<Longrightarrow>
      balance (db s) (pay_payer_account p) + pay_amount p < 2 ^ 63"
  shows "\<exists>q t. reverse pid s = (Inr q, t) \<and> counters_ok n t \<and> fresh_uuids m t"
proof -
  note acc = payment_accounts[OF con p]
  let ?q = "p\<lparr>pay_status := PaymentStatus.FAILED, pay_version := pay_version p + 1,
    pay_updated_at := clock s (clock_reads s)\<rparr>"
  let ?d1 = "(db s)\<lparr>payments := set_row pay_id pid (\<lambda>_. ?q) (payments (db s))\<rparr>"
  let ?s1 = "s\<lparr>clock_reads := Suc (clock_reads s), db := ?d1\<rparr>"
  have "constraints ?d1" using assms acc by (intro constraints_put_payment[OF con p]) simp_all
  then have "\<exists>t. and_then (post TransactionType.REVERSAL pid
      (transfer PSP_SUSPENSE_ACCOUNT_ID (pay_payer_account p) (pay_amount p))) (\<lambda>_.
      and_then (add_outbox ''payment'' pid ''payment.failed'' (failed_payload ?q)) (\<lambda>_.
      and_then session_flush (\<lambda>_. ret ?q))) ?s1 = (Inr ?q, t) \<and> counters_ok n t \<and> fresh_uuids m t"
    using assms acc by (intro phase_succeeds) (simp_all add: counters_ok_def fresh_uuids_def)
  then show ?thesis using p acc(3)
    by (auto simp: reverse_def select_payment_def Let_def and_then_Inr[of datetime_now] datetime_now_def
        put_payment_def)
qed

lemma counters_ok_cong:
  "ledger_entries (db t) = ledger_entries (db s) \<Longrightarrow> account_balances (db t) = account_balances (db s) \<Longrightarrow>
     entry_seq t = entry_seq s \<Longrightarrow> counters_ok n t = counters_ok n s"
  by (simp add: counters_ok_def)

lemma fresh_uuids_cong:
  "ledger_transactions (db t) = ledger_transactions (db s) \<Longrightarrow> outbox (db t) = outbox (db s) \<Longrightarrow>
     same_draws s t \<Longrightarrow> fresh_uuids n t = fresh_uuids n s"
  by (simp add: fresh_uuids_def same_draws_def)

lemma fresh_uuids_less: "fresh_uuids n s \<Longrightarrow> m \<le> n \<Longrightarrow> fresh_uuids m s"
  unfolding fresh_uuids_def by (auto elim: inj_on_subset)

lemma fresh_uuids_skip:
  assumes "fresh_uuids (j + n) s"
  shows "fresh_uuids n (s\<lparr>uuids_drawn := uuids_drawn s + j\<rparr>)"
proof -
  let ?u = "\<lambda>i. uuid_source s (uuids_drawn s + (j + i))"
  have "inj_on ?u {..<n}"
    using fresh_uuidsD(3)[OF assms] by (intro inj_onI) (metis add_left_cancel lessThan_iff nat_add_left_cancel_less)
  then show ?thesis using fresh_uuidsD(1,2)[OF assms, of "j + i" for i]
    by (simp add: fresh_uuids_def add.assoc)
qed

lemma constraints_add_payment:
  assumes "constraints d" and "pay_id p \<notin> pay_id ` set (payments d)"
    and "pay_payer_account p \<in> account_ids d" and "pay_payee_account p \<in> account_ids d"
    and "int64 (pay_amount p)" and "int64 (pay_refunded_amount p)" and "int64 (pay_version p)"
    and "length (pay_merchant_id p) \<le> 255" and "length (pay_currency p) \<le> 3"
    and "pay_psp_reference p = None"
  shows "constraints (d\<lparr>payments := payments d @ [p]\<rparr>)"
  using assms by (auto simp: constraint_defs)

lemma hold_succeeds:
  assumes "pending s = []" and con: "constraints (db s)" and new: "pay_id p \<notin> pay_id ` set (payments (db s))"
    and "0 < pay_amount p" and funds: "pay_amount p \<le> balance (db s) (pay_payer_account p)"
    and acc: "pay_payer_account p \<in> account_ids (db s)" "pay_payee_account p \<in> account_ids (db s)"
    and "PSP_SUSPENSE_ACCOUNT_ID \<in> account_ids (db s)" and "counters_ok (2 + n) s" and "0 \<le> n"
    and "fresh_uuids (2 + m) s" and ver: "int64 (pay_refunded_amount p)" "int64 (pay_version p)"
    and len: "length (pay_merchant_id p) \<le> 255" "length (pay_currency p) \<le> 3" "pay_psp_reference p = None"
    and "pay_payer_account p \<noteq> PSP_SUSPENSE_ACCOUNT_ID \<Longrightarrow>
      balance (db s) PSP_SUSPENSE_ACCOUNT_ID + pay_amount p < 2 ^ 63"
  shows "\<exists>q t. hold p s = (Inr q, t) \<and> counters_ok n t \<and> fresh_uuids m t"
proof -
  let ?q = "p\<lparr>pay_status := PaymentStatus.PROCESSING\<rparr>"
  let ?s1 = "s\<lparr>db := (db s)\<lparr>payments := payments (db s) @ [?q]\<rparr>\<rparr>"
  have "int64 (pay_amount p)"
    using assms(4) funds constraints_balance_range[OF con, of "pay_payer_account p"] by (simp add: int64_def)
  then have con1: "constraints (db ?s1)"
    using constraints_add_payment[OF con, of ?q] new acc ver len by simp
  have "\<exists>t. and_then (post TransactionType.PAYMENT (pay_id p)
      (transfer (pay_payer_account p) PSP_SUSPENSE_ACCOUNT_ID (pay_amount p))) (\<lambda>_.
      and_then (add_outbox ''payment'' (pay_id p) ''payment.processing'' (processing_payload ?q)) (\<lambda>_.
      and_then session_flush (\<lambda>_. ret ?q))) ?s1 = (Inr ?q, t) \<and> counters_ok n t \<and> fresh_uuids m t"
    using assms con1 by (intro phase_succeeds) (simp_all add: counters_ok_def fresh_uuids_def)
  moreover have "flushed (s\<lparr>pending := [New_Payment ?q]\<rparr>) = ?s1"
    using assms(1) by (cases s) (simp add: flushed_def)
  ultimately show ?thesis using assms(1) con1
    by (auto simp: hold_def Let_def session_add_def session_flush_def and_then_Inr[of session_flush])
qed

lemma hold_insufficient:
  assumes "pending s = []" and con: "constraints (db s)" and new: "pay_id p \<notin> pay_id ` set (payments (db s))"
    and "0 < pay_amount p" and "int64 (pay_amount p)"
    and funds: "balance (db s) (pay_payer_account p) < pay_amount p"
    and acc: "pay_payer_account p \<in> account_ids (db s)" "pay_payee_account p \<in> account_ids (db s)"
    and "PSP_SUSPENSE_ACCOUNT_ID \<in> account_ids (db s)" and "counters_ok 2 s"
    and fresh: "fresh_uuids m s" "0 < m" and ver: "int64 (pay_refunded_amount p)" "int64 (pay_version p)"
    and len: "length (pay_merchant_id p) \<le> 255" "length (pay_currency p) \<le> 3" "pay_psp_reference p = None"
  shows "\<exists>t. hold p s = (Inl (InsufficientFundsException (pay_payer_account p)
    (balance (db s) (pay_payer_account p)) (pay_amount p)), t)"
proof -
  let ?q = "p\<lparr>pay_status := PaymentStatus.PROCESSING\<rparr>"
  let ?s1 = "s\<lparr>db := (db s)\<lparr>payments := payments (db s) @ [?q]\<rparr>\<rparr>"
  let ?ps = "transfer (pay_payer_account p) PSP_SUSPENSE_ACCOUNT_ID (pay_amount p)"
  let ?e = "InsufficientFundsException (pay_payer_account p) (balance (db s) (pay_payer_account p)) (pay_amount p)"
  have con1: "constraints (db ?s1)"
    using constraints_add_payment[OF con, of ?q] assms by simp
  have fl: "flushed ?s1 = ?s1" using assms(1) by simp
  have "\<exists>t. post TransactionType.PAYMENT (pay_id p) ?ps ?s1 = (Inl ?e, t) \<and> uuid_source t = uuid_source ?s1 \<and>
    uuids_drawn t = Suc (uuids_drawn ?s1) \<and> entry_seq t = entry_seq (flushed ?s1)"
  proof (rule post_insufficient)
    show "validate_balanced ?ps = Inr ()" using assms(4) by (simp only: validate_transfer)
    show "run_postings (balance (db (flushed ?s1))) ?ps = Inl ?e"
      using funds unfolding fl run_transfer by simp
    show "uuid_source ?s1 (uuids_drawn ?s1) \<notin> txn_id ` set (ledger_transactions (db (flushed ?s1)))"
      unfolding fl using fresh_uuidsD(1)[OF fresh] by simp
  qed (use con1 assms in \<open>simp_all add: fl counters_ok_def account_ids_def\<close>)
  then obtain t where t: "post TransactionType.PAYMENT (pay_id p) ?ps ?s1 = (Inl ?e, t)" by blast
  moreover have "flushed (s\<lparr>pending := [New_Payment ?q]\<rparr>) = ?s1"
    using assms(1) by (cases s) (simp add: flushed_def)
  ultimately show ?thesis using assms(1) con1
    by (auto simp: hold_def Let_def session_add_def session_flush_def and_then_Inr[of session_flush]
        and_then_Inl)
qed

end
