(* ===== verification/Hashlib.thy ===== *)
theory Hashlib
  imports Domain
begin

text \<open>
  The digests the services take from the standard library of Python: \<open>hashlib.sha256\<close> (FIPS 180-4) for
  idempotency keys and \<open>hmac.new(..., hashlib.sha256)\<close> (RFC 2104) for webhook signatures, on lists of
  bytes, with \<open>hexdigest\<close> and the UTF-8 encoding of the characters the model has. Words are 32 bits wide
  and addition wraps, as the standard prescribes.
\<close>

unbundle bit_operations_syntax

type_synonym byte = "8 word"
type_synonym word32 = "32 word"
type_synonym sha_state = "word32 \<times> word32 \<times> word32 \<times> word32 \<times> word32 \<times> word32 \<times> word32 \<times> word32"

section \<open>SHA-256\<close>

text \<open>
  The constants of the standard: the first 32 bits of the fractional parts of the cube roots of the first
  64 primes, and of the square roots of the first eight, each computed bit by bit as an integer root.
\<close>

definition int_root :: "nat \<Rightarrow> int \<Rightarrow> int" where
  "int_root k n = foldr (\<lambda>i r. if (r + 2 ^ i) ^ k \<le> n then r + 2 ^ i else r) [0..<48] 0"

definition sha_primes :: "int list" where
  "sha_primes = filter (\<lambda>p. list_all (\<lambda>d. p mod d \<noteq> 0) [2..p - 1]) [2..311]"

definition root_fraction :: "nat \<Rightarrow> int \<Rightarrow> word32" where
  "root_fraction k p = of_int (int_root k (p * 2 ^ (32 * k)))"

definition sha_K :: "word32 list" where
  "sha_K = map (root_fraction 3) sha_primes"

definition sha_init :: sha_state where
  "sha_init = (root_fraction 2 2, root_fraction 2 3, root_fraction 2 5, root_fraction 2 7,
     root_fraction 2 11, root_fraction 2 13, root_fraction 2 17, root_fraction 2 19)"

definition sha_ch :: "word32 \<Rightarrow> word32 \<Rightarrow> word32 \<Rightarrow> word32" where
  "sha_ch x y z = (x AND y) XOR (NOT x AND z)"

definition sha_maj :: "word32 \<Rightarrow> word32 \<Rightarrow> word32 \<Rightarrow> word32" where
  "sha_maj x y z = (x AND y) XOR (x AND z) XOR (y AND z)"

definition big_sigma0 :: "word32 \<Rightarrow> word32" where
  "big_sigma0 x = word_rotr 2 x XOR word_rotr 13 x XOR word_rotr 22 x"

definition big_sigma1 :: "word32 \<Rightarrow> word32" where
  "big_sigma1 x = word_rotr 6 x XOR word_rotr 11 x XOR word_rotr 25 x"

definition small_sigma0 :: "word32 \<Rightarrow> word32" where
  "small_sigma0 x = word_rotr 7 x XOR word_rotr 18 x XOR drop_bit 3 x"

definition small_sigma1 :: "word32 \<Rightarrow> word32" where
  "small_sigma1 x = word_rotr 17 x XOR word_rotr 19 x XOR drop_bit 10 x"

text \<open>Padding to whole blocks of 64 bytes: a one bit, zeros, and the length in bits.\<close>

definition be_bytes :: "nat \<Rightarrow> int \<Rightarrow> byte list" where
  "be_bytes width n = map (\<lambda>i. of_int (n div 256 ^ i mod 256)) (rev [0..<width])"

definition sha_pad :: "byte list \<Rightarrow> byte list" where
  "sha_pad msg = msg @ [0x80] @ replicate ((119 - length msg mod 64) mod 64) 0 @ be_bytes 8 (8 * int (length msg))"

fun be_words :: "byte list \<Rightarrow> word32 list" where
  "be_words (a # b # c # d # bs) = (push_bit 24 (ucast a) OR push_bit 16 (ucast b) OR push_bit 8 (ucast c) OR ucast d) # be_words bs"
| "be_words _ = []"

text \<open>The message schedule: the newest word first, until there are 64.\<close>

fun sha_extend :: "nat \<Rightarrow> word32 list \<Rightarrow> word32 list" where
  "sha_extend 0 ws = ws"
| "sha_extend (Suc n) ws = sha_extend n ((small_sigma1 (ws ! 1) + ws ! 6 + small_sigma0 (ws ! 14) + ws ! 15) # ws)"

definition sha_round :: "word32 \<times> word32 \<Rightarrow> sha_state \<Rightarrow> sha_state" where
  "sha_round kw st = (case (kw, st) of ((k, w), (a, b, c, d, e, f, g, h)) \<Rightarrow>
     let t1 = h + big_sigma1 e + sha_ch e f g + k + w; t2 = big_sigma0 a + sha_maj a b c in
     (t1 + t2, a, b, c, d + t1, e, f, g))"

definition sha_block :: "byte list \<Rightarrow> sha_state \<Rightarrow> sha_state" where
  "sha_block block st = (let ws = rev (sha_extend 48 (rev (be_words block))) in
     case (st, fold sha_round (zip sha_K ws) st) of
       ((a, b, c, d, e, f, g, h), (a', b', c', d', e', f', g', h')) \<Rightarrow>
         (a + a', b + b', c + c', d + d', e + e', f + f', g + g', h + h'))"

function sha_blocks :: "byte list \<Rightarrow> sha_state \<Rightarrow> sha_state" where
  "sha_blocks bs st = (if bs = [] then st else sha_blocks (drop 64 bs) (sha_block (take 64 bs) st))"
  by pat_completeness auto
termination
  by (relation "measure (\<lambda>(bs, st). length bs)") auto

declare sha_blocks.simps [simp del]

definition word_bytes :: "word32 \<Rightarrow> byte list" where
  "word_bytes w = [ucast (drop_bit 24 w), ucast (drop_bit 16 w), ucast (drop_bit 8 w), ucast w]"

definition sha256_digest :: "byte list \<Rightarrow> byte list" where
  "sha256_digest msg = (case sha_blocks (sha_pad msg) sha_init of
     (a, b, c, d, e, f, g, h) \<Rightarrow> concat (map word_bytes [a, b, c, d, e, f, g, h]))"

section \<open>HMAC\<close>

definition hmac_key :: "byte list \<Rightarrow> byte list" where
  "hmac_key key = (let k = (if 64 < length key then sha256_digest key else key) in k @ replicate (64 - length k) 0)"

definition hmac_sha256 :: "byte list \<Rightarrow> byte list \<Rightarrow> byte list" where
  "hmac_sha256 key msg = sha256_digest (map (\<lambda>b. b XOR 0x5c) (hmac_key key) @
     sha256_digest (map (\<lambda>b. b XOR 0x36) (hmac_key key) @ msg))"

section \<open>Text\<close>

definition utf8_char :: "char \<Rightarrow> byte list" where
  "utf8_char c = (let n = (of_char c :: nat) in
     if n < 128 then [of_nat n] else [of_nat (192 + n div 64), of_nat (128 + n mod 64)])"

definition encode :: "string \<Rightarrow> byte list" where
  "encode s = concat (map utf8_char s)"

definition hex :: "byte list \<Rightarrow> string" where
  "hex bs = concat (map (\<lambda>b. hex_digits 2 (uint b)) bs)"

definition sha256_hexdigest :: "string \<Rightarrow> string" where
  "sha256_hexdigest s = hex (sha256_digest (encode s))"

definition hmac_sha256_hexdigest :: "string \<Rightarrow> string \<Rightarrow> string" where
  "hmac_sha256_hexdigest secret payload = hex (hmac_sha256 (encode secret) (encode payload))"

section \<open>The shape of a digest\<close>

lemma length_hex_digits [simp]: "length (hex_digits w n) = w"
  by (simp add: hex_digits_def)

lemma hex_char_ascii: "0 \<le> d \<Longrightarrow> d < 16 \<Longrightarrow> (of_char (hex_char d) :: int) < 128"
  by (auto simp: hex_char_def of_char_of)

lemma length_sha256_digest [simp]: "length (sha256_digest msg) = 32"
  by (simp add: sha256_digest_def word_bytes_def split: prod.split)

lemma length_hex [simp]: "length (hex bs) = 2 * length bs"
  by (induction bs) (simp_all add: hex_def)

lemma hex_ascii: "list_all (\<lambda>c. (of_char c :: int) < 128) (hex bs)"
  by (auto simp: hex_def hex_digits_def list_all_iff intro!: hex_char_ascii)

lemma length_sha256_hexdigest [simp]: "length (sha256_hexdigest s) = 64"
  by (simp add: sha256_hexdigest_def)

lemma length_hmac_hexdigest [simp]: "length (hmac_sha256_hexdigest secret payload) = 64"
  by (simp add: hmac_sha256_hexdigest_def hmac_sha256_def)

lemma hmac_hexdigest_ascii: "list_all (\<lambda>c. (of_char c :: int) < 128) (hmac_sha256_hexdigest secret payload)"
  by (simp add: hmac_sha256_hexdigest_def hex_ascii)

lemma hmac_hexdigest_nonempty [simp]: "hmac_sha256_hexdigest secret payload \<noteq> []"
  using length_hmac_hexdigest[of secret payload] by (metis list.size(3) zero_neq_numeral)

end
