(* ===== verification/Idempotency.thy ===== *)
theory Idempotency
  imports Saga Hashlib
begin

text \<open>
  Idempotency keys (\<open>app/application/idempotency_service.py\<close>) and the Redis lock
  (\<open>IdempotencyLock\<close> in \<open>app/infrastructure/redis_client.py\<close>). The Redis server is
  not part of the repository: the reply of \<open>SET key value NX EX ttl\<close> is a parameter \<open>redis_set\<close>,
  which may also raise.
  \<open>key_state\<close> is the abstract state of a key: unused, claimed, or finished with a response.
\<close>

section \<open>Canonical JSON\<close>

definition json_escape_char :: "char \<Rightarrow> string" where
  "json_escape_char c = (let n = (of_char c :: int); b = CHR 0x5C in
     if c = CHR 0x22 then [b, CHR 0x22]
     else if c = b then [b, b]
     else if n = 10 then [b, CHR ''n'']
     else if n = 13 then [b, CHR ''r'']
     else if n = 9 then [b, CHR ''t'']
     else if n = 12 then [b, CHR ''f'']
     else if n = 8 then [b, CHR ''b'']
     else if n < 32 \<or> n > 126 then [b, CHR ''u''] @ hex_digits 4 n
     else [c])"

definition json_quote :: "string \<Rightarrow> string" where
  "json_quote s = [CHR 0x22] @ concat (map json_escape_char s) @ [CHR 0x22]"

definition comma_join :: "string list \<Rightarrow> string" where
  "comma_join xs = (case xs of [] \<Rightarrow> [] | y # ys \<Rightarrow> y @ concat (map (\<lambda>z. '', '' @ z) ys))"

text \<open>\<open>json.dumps(payload, sort_keys=True)\<close>: objects are printed in the order of their keys.\<close>

fun json_dumps :: "json \<Rightarrow> string" where
  "json_dumps JNull = ''null''"
| "json_dumps (JBool b) = (if b then ''true'' else ''false'')"
| "json_dumps (JInt i) = str_int i"
| "json_dumps (JStr s) = json_quote s"
| "json_dumps (JList xs) = ''['' @ comma_join (map json_dumps xs) @ '']''"
| "json_dumps (JObj kvs) = ''{'' @ comma_join (map (\<lambda>(k, v). json_quote k @ '': '' @ v)
     (sort_key fst (map (\<lambda>(k, v). (k, json_dumps v)) kvs))) @ ''}''"

definition compute_hash :: "json \<Rightarrow> string" where
  "compute_hash payload = sha256_hexdigest (json_dumps payload)"

section \<open>Operations\<close>

type_synonym redis_set = "string \<Rightarrow> string \<Rightarrow> int \<Rightarrow> exn + bool"

definition acquire :: "redis_set \<Rightarrow> string \<Rightarrow> string \<Rightarrow> string \<Rightarrow> int \<Rightarrow> bool" where
  "acquire redis merchant_id idempotency_key request_hash ttl_seconds =
     (case redis (''idem:'' @ merchant_id @ '':'' @ idempotency_key) request_hash ttl_seconds of
        Inl _ \<Rightarrow> True | Inr b \<Rightarrow> b)"

definition select_idempotency :: "string \<Rightarrow> string \<Rightarrow> IdempotencyRecord option M" where
  "select_idempotency m k = gets (\<lambda>s. row_of idem_scope (m, k) (idempotency_keys (db s)))"

definition replay_code :: "IdempotencyRecord \<Rightarrow> int" where
  "replay_code r = (case idem_response_code r of None \<Rightarrow> 200 | Some c \<Rightarrow> if c = 0 then 200 else c)"

definition replay_body :: "IdempotencyRecord \<Rightarrow> json" where
  "replay_body r = (case idem_response_body r of
     None \<Rightarrow> JObj [] | Some b \<Rightarrow> if truthy b then b else JObj [])"

definition claim_or_replay :: "redis_set option \<Rightarrow> string \<Rightarrow> string \<Rightarrow> json \<Rightarrow>
    (int \<times> json) option M" where
  "claim_or_replay lock merchant_id idem_key payload =
     (let req_hash = compute_hash payload in
      and_then (ret (map_option (\<lambda>l. acquire l merchant_id idem_key req_hash 60) lock)) (\<lambda>_.
      and_then (select_idempotency merchant_id idem_key) (\<lambda>row. case row of
        None \<Rightarrow>
          and_then datetime_now (\<lambda>t.
          and_then (session_add (New_IdempotencyRecord
            \<lparr>idem_id = 0, idem_merchant_id = merchant_id, idem_idem_key = idem_key,
             idem_request_hash = req_hash, idem_status = IN_PROGRESS, idem_resource_id = None,
             idem_response_code = None, idem_response_body = None, idem_created_at = t\<rparr>)) (\<lambda>_.
          and_then session_flush (\<lambda>_.
          ret None)))
      | Some record \<Rightarrow>
          if idem_request_hash record \<noteq> req_hash then raise (IdempotencyMismatchException idem_key)
          else case idem_status record of
                 IN_PROGRESS \<Rightarrow> raise (IdempotencyConflictException idem_key)
               | COMPLETED \<Rightarrow> ret (Some (replay_code record, replay_body record)))))"

definition complete :: "string \<Rightarrow> string \<Rightarrow> UUID \<Rightarrow> int \<Rightarrow> json \<Rightarrow> unit M" where
  "complete merchant_id idem_key resource_id response_code response_body =
     and_then (select_idempotency merchant_id idem_key) (\<lambda>row. case row of
       None \<Rightarrow> ret ()
     | Some _ \<Rightarrow>
         and_then (change (\<lambda>s. s\<lparr>db := (db s)\<lparr>idempotency_keys :=
           set_row idem_scope (merchant_id, idem_key)
             (\<lambda>r. r\<lparr>idem_status := COMPLETED, idem_resource_id := Some resource_id,
                idem_response_code := Some response_code, idem_response_body := Some response_body\<rparr>)
             (idempotency_keys (db s))\<rparr>\<rparr>)) (\<lambda>_.
         session_flush))"

section \<open>Abstract state of a key\<close>

datatype key_state = Unused | Claimed string | Finished string int json

definition record_state :: "IdempotencyRecord \<Rightarrow> key_state" where
  "record_state r = (case idem_status r of
     IN_PROGRESS \<Rightarrow> Claimed (idem_request_hash r)
   | COMPLETED \<Rightarrow> Finished (idem_request_hash r) (replay_code r) (replay_body r))"

definition key_state :: "database \<Rightarrow> string \<Rightarrow> string \<Rightarrow> key_state" where
  "key_state d m k = (case row_of idem_scope (m, k) (idempotency_keys d) of
     None \<Rightarrow> Unused | Some r \<Rightarrow> record_state r)"

text \<open>The outcome the protocol prescribes for a request with a given hash.\<close>

fun claim_outcome :: "key_state \<Rightarrow> string \<Rightarrow> string \<Rightarrow> exn + (int \<times> json) option" where
  "claim_outcome Unused k h = Inr None"
| "claim_outcome (Claimed h') k h =
     (if h' \<noteq> h then Inl (IdempotencyMismatchException k) else Inl (IdempotencyConflictException k))"
| "claim_outcome (Finished h' c b) k h =
     (if h' \<noteq> h then Inl (IdempotencyMismatchException k) else Inr (Some (c, b)))"

section \<open>Facts\<close>

lemma length_compute_hash [simp]: "length (compute_hash p) = 64"
  by (simp add: compute_hash_def)

lemma idem_scope_set_row:
  "idem_scope (r\<lparr>idem_status := a, idem_resource_id := b, idem_response_code := c,
     idem_response_body := d\<rparr>) = idem_scope r"
  by (simp add: idem_scope_def)

lemma claim_used:
  assumes "key_state (db s) m k \<noteq> Unused"
  shows "claim_or_replay lock m k payload s =
    (claim_outcome (key_state (db s) m k) k (compute_hash payload), s)"
proof -
  from assms obtain r where r: "row_of idem_scope (m, k) (idempotency_keys (db s)) = Some r"
    by (auto simp: key_state_def split: option.splits)
  show ?thesis
    by (cases "idem_status r")
      (simp_all add: claim_or_replay_def select_idempotency_def key_state_def record_state_def r
        ret_def raise_def Let_def)
qed

lemma claim_unused:
  assumes "key_state (db s) m k = Unused" and "claim_or_replay lock m k payload s = (Inr x, t)"
    and "pending s = []"
  obtains r where "x = None" and "db t = (db s)\<lparr>idempotency_keys := idempotency_keys (db s) @ [r]\<rparr>"
    and "idem_scope r = (m, k)" and "record_state r = Claimed (compute_hash payload)"
    and "pending t = []" and "constraints (db t)" and "same_draws s t"
    and "entry_seq t = entry_seq s"
proof -
  let ?r = "\<lparr>idem_id = idem_seq s, idem_merchant_id = m, idem_idem_key = k,
    idem_request_hash = compute_hash payload, idem_status = IN_PROGRESS, idem_resource_id = None,
    idem_response_code = None, idem_response_body = None, idem_created_at = clock s (clock_reads s)\<rparr>"
  from assms(1) have none: "row_of idem_scope (m, k) (idempotency_keys (db s)) = None"
    by (auto simp: key_state_def record_state_def split: option.splits IdempotencyStatus.splits)
  from assms(2,3) none have "x = None"
    and t: "t = s\<lparr>clock_reads := Suc (clock_reads s), pending := [],
      db := (db s)\<lparr>idempotency_keys := idempotency_keys (db s) @ [?r]\<rparr>, idem_seq := idem_seq s + 1\<rparr>"
    and "constraints (db t)"
    by (auto simp: claim_or_replay_def select_idempotency_def Let_def and_then_Inr_iff flushed_def)
  then show thesis
    by (intro that[of ?r]) (simp_all add: idem_scope_def record_state_def same_draws_def)
qed

lemma claim_None:
  assumes "claim_or_replay lock m k payload s = (Inr None, t)"
  shows "key_state (db s) m k = Unused"
  using assms claim_used[of s m k lock payload]
  by (cases "key_state (db s) m k") (auto split: if_splits)

lemma claim_Some:
  assumes "claim_or_replay lock m k payload s = (Inr (Some (c, b)), t)" and "pending s = []"
  shows "key_state (db s) m k = Finished (compute_hash payload) c b \<and> t = s"
proof (cases "key_state (db s) m k = Unused")
  case True
  then show ?thesis using assms by (rule claim_unused) simp
next
  case False
  with assms(1) claim_used[OF False, of lock payload] show ?thesis
    by (cases "key_state (db s) m k") (auto split: if_splits)
qed

lemma key_state_cong: "idempotency_keys d' = idempotency_keys d \<Longrightarrow> key_state d' m k = key_state d m k"
  by (simp add: key_state_def)

lemma key_state_append:
  assumes "key_state d m k = Unused" and "idem_scope r = (m, k)"
  shows "key_state (d\<lparr>idempotency_keys := idempotency_keys d @ [r]\<rparr>) m' k' =
    (if (m', k') = (m, k) then record_state r else key_state d m' k')"
proof -
  from assms(1) have "row_of idem_scope (m, k) (idempotency_keys d) = None"
    by (auto simp: key_state_def record_state_def split: option.splits IdempotencyStatus.splits)
  then show ?thesis using assms(2) by (auto simp: key_state_def row_of_append split: option.splits)
qed

lemma fold_insert_outbox:
  "fold insert_row (map New_Outbox es) s = s\<lparr>db := (db s)\<lparr>outbox := outbox (db s) @ es\<rparr>\<rparr>"
  by (induction es arbitrary: s) simp_all

lemma flushed_outbox:
  "pending s = map New_Outbox es \<Longrightarrow>
     flushed s = s\<lparr>pending := [], db := (db s)\<lparr>outbox := outbox (db s) @ es\<rparr>\<rparr>"
  by (simp add: flushed_def fold_insert_outbox)

lemma complete_Inr:
  assumes "complete m k rid c b s = (Inr u, t)" and "key_state (db s) m k = Claimed h"
    and "c \<noteq> 0" and "truthy b" and "pending s = map New_Outbox es"
  shows "key_state (db t) m' k' = (if (m', k') = (m, k) then Finished h c b else key_state (db s) m' k')"
    and "db t = (db s)\<lparr>idempotency_keys := idempotency_keys (db t), outbox := outbox (db s) @ es\<rparr>"
    and "constraints (db t)" and "pending t = []" and "same_draws s t" and "entry_seq t = entry_seq s"
proof -
  let ?f = "\<lambda>r. r\<lparr>idem_status := COMPLETED, idem_resource_id := Some rid,
    idem_response_code := Some c, idem_response_body := Some b\<rparr>"
  from assms(2) obtain r where r: "row_of idem_scope (m, k) (idempotency_keys (db s)) = Some r"
    and h: "record_state r = Claimed h"
    by (auto simp: key_state_def split: option.splits)
  from assms(1,5) r have t: "t = s\<lparr>pending := [], db := (db s)\<lparr>idempotency_keys :=
      set_row idem_scope (m, k) ?f (idempotency_keys (db s)), outbox := outbox (db s) @ es\<rparr>\<rparr>"
    and con: "constraints (db t)"
    by (auto simp: complete_def select_idempotency_def flushed_outbox)
  have "record_state (?f r) = Finished h c b"
    using h assms(3,4)
    by (auto simp: record_state_def replay_code_def replay_body_def split: IdempotencyStatus.splits)
  then show "key_state (db t) m' k' = (if (m', k') = (m, k) then Finished h c b else key_state (db s) m' k')"
    using r by (simp add: t key_state_def row_of_set_row idem_scope_set_row)
  show "db t = (db s)\<lparr>idempotency_keys := idempotency_keys (db t), outbox := outbox (db s) @ es\<rparr>" by (simp add: t)
  show "constraints (db t)" by fact
  show "pending t = []" and "same_draws s t" and "entry_seq t = entry_seq s"
    using assms(5) by (simp_all add: t same_draws_def)
qed

text \<open>Room for one more key: the next row number is unused and fits its column.\<close>

definition key_room :: "world \<Rightarrow> bool" where
  "key_room s \<longleftrightarrow> (\<forall>r \<in> set (idempotency_keys (db s)). idem_id r < idem_seq s) \<and> int64 (idem_seq s)"

lemma claim_succeeds:
  assumes "key_state (db s) m k = Unused" and "pending s = []" and "constraints (db s)" and "key_room s"
    and "length m \<le> 255" and "length k \<le> 255"
  shows "\<exists>t. claim_or_replay lock m k payload s = (Inr None, t)"
proof -
  from assms(1) have none: "row_of idem_scope (m, k) (idempotency_keys (db s)) = None"
    by (auto simp: key_state_def record_state_def split: option.splits IdempotencyStatus.splits)
  then have "(m, k) \<notin> idem_scope ` set (idempotency_keys (db s))" by (simp add: row_of_None_iff)
  moreover have "idem_seq s \<notin> idem_id ` set (idempotency_keys (db s))"
    using assms(4) by (force simp: key_room_def)
  ultimately have "constraints ((db s)\<lparr>idempotency_keys := idempotency_keys (db s) @ [\<lparr>idem_id = idem_seq s,
      idem_merchant_id = m, idem_idem_key = k, idem_request_hash = compute_hash payload,
      idem_status = IN_PROGRESS, idem_resource_id = None, idem_response_code = None,
      idem_response_body = None, idem_created_at = clock s (clock_reads s)\<rparr>]\<rparr>)"
    using assms(3-6) by (auto simp: constraint_defs key_room_def)
  then show ?thesis using none assms(2)
    by (simp add: claim_or_replay_def select_idempotency_def Let_def session_defs flushed_def)
qed

lemma complete_succeeds:
  assumes "constraints (db (flushed s))" and "int32 c" and "pending s = map New_Outbox es"
  shows "\<exists>t. complete m k rid c b s = (Inr (), t) \<and> constraints (db (flushed t))"
proof -
  let ?f = "\<lambda>r. r\<lparr>idem_status := COMPLETED, idem_resource_id := Some rid,
    idem_response_code := Some c, idem_response_body := Some b\<rparr>"
  let ?d = "db (flushed s)"
  have "idempotency_keys_ok (?d\<lparr>idempotency_keys := set_row idem_scope (m, k) ?f (idempotency_keys ?d)\<rparr>)"
    using assms(1,2)
    by (auto simp: constraints_def idempotency_keys_ok_def map_key_set_row idem_scope_set_row dest!: in_set_row)
  then have "constraints ((db s)\<lparr>idempotency_keys := set_row idem_scope (m, k) ?f (idempotency_keys (db s)),
      outbox := outbox (db s) @ es\<rparr>)"
    using assms(1,3) by (simp add: constraint_defs flushed_outbox)
  then show ?thesis using assms(1,3)
    by (cases "row_of idem_scope (m, k) (idempotency_keys (db s))")
      (simp_all add: complete_def select_idempotency_def session_defs flushed_outbox)
qed

lemma claim_keeps: "keeps ledger_frame_rel (claim_or_replay lock m k payload)"
  unfolding claim_or_replay_def select_idempotency_def Let_def
  by (intro ledger_keeps) (auto split: IdempotencyStatus.split intro: ledger_keeps)

lemma complete_keeps: "keeps ledger_frame_rel (complete m k rid c b)"
  unfolding complete_def select_idempotency_def
  by (intro ledger_keeps) (simp add: ledger_part_def)

section \<open>Interface\<close>

locale idempotency_contract =
  fixes claim :: "string \<Rightarrow> string \<Rightarrow> json \<Rightarrow> (int \<times> json) option M"
    and finish :: "string \<Rightarrow> string \<Rightarrow> UUID \<Rightarrow> int \<Rightarrow> json \<Rightarrow> unit M"
    and hash :: "json \<Rightarrow> string"
  assumes claim_known: "key_state (db s) m k \<noteq> Unused \<Longrightarrow>
      claim m k p s = (claim_outcome (key_state (db s) m k) k (hash p), s)"
    and claim_new: "key_state (db s) m k = Unused \<Longrightarrow> claim m k p s = (Inr x, t) \<Longrightarrow> pending s = [] \<Longrightarrow>
      x = None \<and> pending t = [] \<and> key_state (db t) m k = Claimed (hash p)"
    and finish_key: "finish m k rid c b s = (Inr u, t) \<Longrightarrow> key_state (db s) m k = Claimed h \<Longrightarrow>
      c \<noteq> 0 \<Longrightarrow> truthy b \<Longrightarrow> pending s = map New_Outbox es \<Longrightarrow> key_state (db t) m k = Finished h c b"
begin

lemma replays: "key_state (db s) m k = Finished (hash p) c b \<Longrightarrow> claim m k p s = (Inr (Some (c, b)), s)"
  by (simp add: claim_known)

lemma conflicts: "key_state (db s) m k = Claimed (hash p) \<Longrightarrow>
    claim m k p s = (Inl (IdempotencyConflictException k), s)"
  by (simp add: claim_known)

lemma mismatches: "key_state (db s) m k = Claimed h \<or> key_state (db s) m k = Finished h c b \<Longrightarrow> h \<noteq> hash p \<Longrightarrow>
    claim m k p s = (Inl (IdempotencyMismatchException k), s)"
  by (auto simp: claim_known)

lemma round_trip:
  assumes "claim m k p s = (Inr None, s1)" and "pending s = []"
    and "finish m k rid c b s1 = (Inr u, s2)" and "c \<noteq> 0" and "truthy b"
  shows "claim m k p s2 = (Inr (Some (c, b)), s2)"
proof -
  have "key_state (db s) m k = Unused"
  proof (rule ccontr)
    assume "key_state (db s) m k \<noteq> Unused"
    with claim_known[of s m k p] assms(1) show False
      by (cases "key_state (db s) m k") (auto split: if_splits)
  qed
  from claim_new[OF this assms(1,2)] have "key_state (db s1) m k = Claimed (hash p)" "pending s1 = []"
    by simp_all
  with finish_key[OF assms(3), where es = "[]"] assms(4,5) show ?thesis by (simp add: replays)
qed

end

interpretation idem: idempotency_contract "claim_or_replay lock" complete compute_hash
  for lock
proof
  fix s :: world and m k :: string and p
  assume "key_state (db s) m k \<noteq> Unused"
  then show "claim_or_replay lock m k p s =
      (claim_outcome (key_state (db s) m k) k (compute_hash p), s)" by (rule claim_used)
next
  fix s t :: world and m k :: string and p x
  assume a: "key_state (db s) m k = Unused" "claim_or_replay lock m k p s = (Inr x, t)" "pending s = []"
  then show "x = None \<and> pending t = [] \<and> key_state (db t) m k = Claimed (compute_hash p)"
    by (rule claim_unused) (simp add: key_state_append[OF a(1)])
next
  fix s t :: world and m k h :: string and rid c b u es
  assume "complete m k rid c b s = (Inr u, t)" "key_state (db s) m k = Claimed h" "c \<noteq> 0" "truthy b"
    "pending s = map New_Outbox es"
  then show "key_state (db t) m k = Finished h c b" by (simp add: complete_Inr(1))
qed

end
