(* ===== verification/Psp.thy ===== *)
theory Psp
  imports Idempotency
begin

text \<open>
  Payment service providers (\<open>app/infrastructure/psp\<close>): the result type and the abstract
  \<open>authorize\<close> of \<open>provider.py\<close>, the mock of \<open>mock_psp.py\<close>, the Stripe client of
  \<open>stripe_psp.py\<close>, and the choice between them in \<open>app/api/dependencies.py\<close>. The Stripe SDK is
  not part of the repository: the answer to \<open>PaymentIntent.create\<close> is a parameter.
  A provider never touches the database; the locale \<open>payment_provider\<close> states that.
\<close>

section \<open>Results\<close>

record AuthorizationResult =
  ar_outcome :: AuthorizationOutcome
  ar_psp_reference :: "string option"
  ar_decline_reason :: "string option"

definition captured :: "string \<Rightarrow> AuthorizationResult" where
  "captured r = \<lparr>ar_outcome = CAPTURED, ar_psp_reference = Some r, ar_decline_reason = None\<rparr>"

definition pending_result :: "string \<Rightarrow> AuthorizationResult" where
  "pending_result r = \<lparr>ar_outcome = AuthorizationOutcome.PENDING, ar_psp_reference = Some r, ar_decline_reason = None\<rparr>"

definition declined :: "string \<Rightarrow> AuthorizationResult" where
  "declined reason = \<lparr>ar_outcome = DECLINED, ar_psp_reference = None, ar_decline_reason = Some reason\<rparr>"

type_synonym provider = "Payment \<Rightarrow> AuthorizationResult M"

text \<open>\<open>uuid.uuid4().hex[:12]\<close>\<close>

definition uuid4_hex12 :: "string M" where
  "uuid4_hex12 = and_then uuid4 (\<lambda>u. ret (take 12 (hex_digits 32 (uint (uuid_int u)))))"

section \<open>The mock provider\<close>

definition mock_authorize :: provider where
  "mock_authorize payment =
     (if pay_amount payment = 40001 then ret (declined ''Card declined by mock bank'')
      else if pay_amount payment = 40002
      then and_then uuid4_hex12 (\<lambda>h. ret (pending_result (''mock_async_ref_'' @ h)))
      else and_then uuid4_hex12 (\<lambda>h. ret (captured (''mock_psp_ref_'' @ h))))"

section \<open>Stripe\<close>

record PaymentIntent =
  pi_id :: string
  pi_status :: string
  pi_last_payment_error :: "string option"

record intent_request =
  ir_amount :: int
  ir_currency :: string
  ir_capture_method :: string
  ir_metadata :: "(string \<times> string) list"
  ir_idempotency_key :: string

text \<open>What \<open>stripe.PaymentIntent.create\<close> does: return an intent or raise, with a user message.\<close>

datatype stripe_reply = Intent PaymentIntent | CardError "string option" | StripeError "string option"

definition lower_char :: "char \<Rightarrow> char" where
  "lower_char c = (let n = (of_char c :: int) in if 65 \<le> n \<and> n \<le> 90 then char_of (n + 32) else c)"

definition stripe_request :: "Payment \<Rightarrow> intent_request" where
  "stripe_request payment = \<lparr>ir_amount = pay_amount payment,
     ir_currency = map lower_char (pay_currency payment), ir_capture_method = ''manual'',
     ir_metadata = [(''payment_id'', str_uuid (pay_id payment)),
       (''merchant_id'', pay_merchant_id payment),
       (''payer_account'', str_uuid (pay_payer_account payment)),
       (''payee_account'', str_uuid (pay_payee_account payment))],
     ir_idempotency_key = str_uuid (pay_id payment)\<rparr>"

definition map_stripe_status :: "PaymentIntent \<Rightarrow> AuthorizationResult" where
  "map_stripe_status intent = (let status = pi_status intent in
     if status \<in> {''succeeded'', ''requires_capture''} then captured (pi_id intent)
     else if status \<in> {''requires_action'', ''requires_confirmation'', ''processing''}
     then pending_result (pi_id intent)
     else if status \<in> {''requires_payment_method'', ''canceled''}
     then declined (case pi_last_payment_error intent of
            Some m \<Rightarrow> m | None \<Rightarrow> ''Payment declined by Stripe (status='' @ status @ '')'')
     else pending_result (pi_id intent))"

definition stripe_authorize :: "string \<Rightarrow> (intent_request \<Rightarrow> stripe_reply) \<Rightarrow> provider" where
  "stripe_authorize api_key create_intent payment =
     (if api_key = [] then and_then uuid4_hex12 (\<lambda>h. ret (captured (''stripe_mock_'' @ h)))
      else case create_intent (stripe_request payment) of
             Intent intent \<Rightarrow> ret (map_stripe_status intent)
           | CardError msg \<Rightarrow> ret (declined (case msg of
                 None \<Rightarrow> ''Card declined'' | Some m \<Rightarrow> if m = [] then ''Card declined'' else m))
           | StripeError msg \<Rightarrow> raise (RuntimeError (''Stripe gateway error: '' @
                 (case msg of None \<Rightarrow> ''None'' | Some m \<Rightarrow> m))))"

definition get_payment_provider :: "string \<Rightarrow> string \<Rightarrow> (intent_request \<Rightarrow> stripe_reply) \<Rightarrow> provider" where
  "get_payment_provider psp_provider api_key create_intent =
     (if map lower_char psp_provider = ''stripe'' then stripe_authorize api_key create_intent
      else mock_authorize)"

section \<open>Interface\<close>

definition same_data :: "world \<Rightarrow> world \<Rightarrow> bool" where
  "same_data s t \<longleftrightarrow> db t = db s \<and> pending t = pending s \<and> entry_seq t = entry_seq s \<and>
     idem_seq t = idem_seq s \<and> uuid_source t = uuid_source s \<and> clock t = clock s"

interpretation data_frame: frame_relation same_data
  by standard (auto simp: same_data_def)

lemma uuid4_same_data: "keeps same_data uuid4"
  by (rule keepsI) (simp add: same_data_def)

lemma uuid4_hex12_same_data: "keeps same_data uuid4_hex12"
  unfolding uuid4_hex12_def by (intro data_frame.keeps_rules uuid4_same_data)

locale payment_provider =
  fixes authorize :: provider
  assumes authorize_same_data: "keeps same_data (authorize p)"
    and authorize_error: "authorize p s = (Inl e, t) \<Longrightarrow> same_data s t"
    and authorize_reference: "authorize p s = (Inr r, t) \<Longrightarrow>
      (ar_outcome r = DECLINED) = (ar_psp_reference r = None)"
begin

lemma authorize_db: "authorize p s = (r, t) \<Longrightarrow> db t = db s"
  using keepsD[OF authorize_same_data] authorize_error
  by (cases r) (fastforce simp: same_data_def)+

end

interpretation mock: payment_provider mock_authorize
proof
  show "keeps same_data (mock_authorize p)" for p
    unfolding mock_authorize_def by (intro data_frame.keeps_rules uuid4_hex12_same_data)
  show "same_data s t" if "mock_authorize p s = (Inl e, t)" for p s e t
    using that
    by (auto simp: mock_authorize_def uuid4_hex12_def and_then_def uuid4_def ret_def split: if_splits)
  show "(ar_outcome r = DECLINED) = (ar_psp_reference r = None)" if "mock_authorize p s = (Inr r, t)" for p s r t
    using that
    by (auto simp: mock_authorize_def and_then_Inr_iff captured_def pending_result_def declined_def
        split: if_splits)
qed

lemma map_stripe_status_reference:
  "(ar_outcome (map_stripe_status i) = DECLINED) = (ar_psp_reference (map_stripe_status i) = None)"
  by (auto simp: map_stripe_status_def Let_def captured_def pending_result_def declined_def)

interpretation stripe: payment_provider "stripe_authorize api_key create_intent"
  for api_key create_intent
proof
  show "keeps same_data (stripe_authorize api_key create_intent p)" for p
    unfolding stripe_authorize_def
    by (intro data_frame.keeps_rules uuid4_hex12_same_data)
      (auto split: stripe_reply.split intro: data_frame.keeps_rules)
  show "same_data s t" if "stripe_authorize api_key create_intent p s = (Inl e, t)" for p s e t
    using that
    by (auto simp: stripe_authorize_def uuid4_hex12_def and_then_def uuid4_def ret_def raise_def
        data_frame.R_refl split: if_splits stripe_reply.splits)
  show "(ar_outcome r = DECLINED) = (ar_psp_reference r = None)"
    if "stripe_authorize api_key create_intent p s = (Inr r, t)" for p s r t
    using that
    by (auto simp: stripe_authorize_def and_then_Inr_iff map_stripe_status_reference captured_def
        declined_def split: if_splits stripe_reply.splits)
qed

end
