(* ===== verification/Foundations.thy ===== *)
theory Foundations
  imports Psp "HOL-Library.Multiset"
begin

text \<open>
  The properties of the foundations: the ledger service, the idempotency service, the Redis lock and the
  providers, each stated on the operation of the source and applied to a concrete state.
\<close>

section \<open>Examples\<close>

lemma sample_balances: "balance sample_db (UUID 3) = 1000" "balance sample_db (UUID 4) = 50"
  "balance sample_db (UUID 1) = 0"
  by (simp_all add: balance_def sample_db_def upgrade_def)

lemma sample_fresh: "fresh_uuids 6 sample_world"
proof -
  have "inj_on (\<lambda>i. UUID (of_nat (i + 100))) {..<6}"
  proof (rule inj_onI)
    fix x y :: nat
    assume "x \<in> {..<6}" "y \<in> {..<6}" "UUID (of_nat (x + 100)) = UUID (of_nat (y + 100))"
    then have "unat (of_nat (x + 100) :: 128 word) = unat (of_nat (y + 100) :: 128 word)" "x < 6" "y < 6"
      by simp_all
    then show "x = y" by (simp only: unat_of_nat) simp
  qed
  then show ?thesis by (simp add: fresh_uuids_def sample_db_def upgrade_def empty_database_def)
qed

lemma sample_counters: "counters_ok 4 sample_world"
  by (simp add: counters_ok_def sample_world_def sample_db_def upgrade_def empty_database_def)

lemma sample_accounts: "{UUID 3, UUID 4, UUID 1} \<subseteq> account_ids sample_db"
  by (simp add: account_ids_def sample_db_def upgrade_def)

lemma sample_post:
  "\<exists>txn t. post TransactionType.PAYMENT (UUID 9) (transfer (UUID 3) (UUID 4) 200) sample_world = (Inr txn, t)"
proof (rule ledger.transfer_total)
  show "uuid_source sample_world (uuids_drawn sample_world) \<notin>
      txn_id ` set (ledger_transactions (db (flushed sample_world)))"
    by (simp add: sample_db_def upgrade_def empty_database_def)
  show "counters_ok 2 (flushed sample_world)" using sample_counters by (auto simp: counters_ok_def)
qed (use sample_db_constraints sample_balances sample_accounts in simp_all)

section \<open>The ledger\<close>

text \<open>
  C19. Posting is double entry. A call of \<open>LedgerService.post\<close> that returns has balanced, positive
  postings; it appends one transaction and one entry for each posting, in order and with the posting's
  account, direction and amount; every account's balance changes by its credits minus its debits;
  no balance is negative; the sum of all balances, the net of every transaction and the difference
  between each balance and the account's entries are what they were.
\<close>

theorem post_double_entry:
  assumes "post ty r ps s = (Inr txn, t)" and "pending s = []" and "constraints (db s)"
  shows "validate_balanced ps = Inr () \<and> ledger_transactions (db t) = ledger_transactions (db s) @ [txn] \<and>
    (\<exists>es. ledger_entries (db t) = ledger_entries (db s) @ es \<and> list_all2 (entry_matches (txn_id txn)) ps es) \<and>
    (\<forall>a. balance (db t) a = balance (db s) a + posting_delta ps a \<and> 0 \<le> balance (db t) a) \<and>
    total_balance (db t) = total_balance (db s) \<and>
    (\<forall>x. transaction_net (ledger_entries (db t)) x = transaction_net (ledger_entries (db s)) x) \<and>
    (\<forall>a. drift (db t) a = drift (db s) a)"
proof -
  from ledger.post_effect[OF assms(1)] assms(2) have p: "posted ty r ps txn (db s) (db t)" by simp
  have "distinct (map bal_account_id (account_balances (db s)))" using assms(3) by (simp add: constraint_defs)
  from posted_total_balance[OF p this] posted_frame(8)[OF p] posted_balance[OF p] posted_net[OF p] posted_drift[OF p]
    constraints_balance_range[OF posted_constraints[OF p]]
  show ?thesis using posted_entries[OF p] p by (auto simp: posted_def)
qed

theorem post_double_entry_witness:
  "\<exists>txn t. post TransactionType.PAYMENT (UUID 9) (transfer (UUID 3) (UUID 4) 200) sample_world = (Inr txn, t) \<and>
     balance (db t) (UUID 3) = 800 \<and> balance (db t) (UUID 4) = 250 \<and> total_balance (db t) = total_balance sample_db"
proof -
  obtain txn t where p: "post TransactionType.PAYMENT (UUID 9) (transfer (UUID 3) (UUID 4) 200) sample_world = (Inr txn, t)"
    using sample_post by blast
  from post_double_entry[OF p] sample_db_constraints
  have "\<forall>a. balance (db t) a = balance sample_db a + posting_delta (transfer (UUID 3) (UUID 4) 200) a"
    "total_balance (db t) = total_balance sample_db" by simp_all
  with p sample_balances show ?thesis by (auto simp: transfer_delta simp del: posting_delta_def)
qed

text \<open>
  A posting that would overdraw is refused: when the postings, applied in order to the balances, meet
  a debit above the balance, \<open>post\<close> raises InsufficientFundsException with the account, the balance at
  that point and the amount, and a transaction around it changes no table.
\<close>

lemma post_refuses_overdraft:
  assumes "validate_balanced ps = Inr ()" and "run_postings (balance (db s)) ps = Inl e"
    and "constraints (db s)" and "uuid_source s (uuids_drawn s) \<notin> txn_id ` set (ledger_transactions (db s))"
    and "pst_account_id ` set ps \<subseteq> account_ids (db s)" and "counters_ok (int (length ps)) s"
  shows "\<exists>t. transaction (post ty r ps) s = (Inl e, t) \<and> db t = db s"
proof -
  let ?s = "s\<lparr>pending := []\<rparr>"
  from assms post_insufficient[of ps ?s e ty r] obtain t where "post ty r ps ?s = (Inl e, t)" by (auto simp: counters_ok_def)
  from transaction_InlI[of "post ty r ps", OF this] show ?thesis by (simp add: rollback_def)
qed

lemma post_refuses_overdraft_witness:
  "\<exists>t. transaction (post TransactionType.PAYMENT (UUID 9) (transfer (UUID 3) (UUID 4) 2000)) sample_world =
     (Inl (InsufficientFundsException (UUID 3) 1000 2000), t) \<and> db t = sample_db"
proof -
  let ?ps = "transfer (UUID 3) (UUID 4) 2000"
  have "validate_balanced ?ps = Inr ()" unfolding validate_transfer by simp
  moreover have "run_postings (balance (db sample_world)) ?ps = Inl (InsufficientFundsException (UUID 3) 1000 2000)"
    unfolding run_transfer using sample_balances by simp
  moreover have "counters_ok (int (length ?ps)) sample_world" using sample_counters by (auto simp: counters_ok_def)
  ultimately show ?thesis
    using post_refuses_overdraft[of ?ps sample_world "InsufficientFundsException (UUID 3) 1000 2000"] sample_db_constraints
      sample_accounts by (simp add: sample_db_def upgrade_def empty_database_def)
qed

text \<open>
  Balance validation is exact: \<open>validate_balanced\<close> accepts a list of postings if and only if it has at
  least two, all amounts are positive, and debits equal credits.
\<close>

lemma validate_balanced_exact:
  "validate_balanced ps = Inr () \<longleftrightarrow> 2 \<le> length ps \<and> list_all (\<lambda>p. 0 < pst_amount p) ps \<and>
     sum_list (map pst_amount (filter (\<lambda>p. pst_direction p = DEBIT) ps)) =
     sum_list (map pst_amount (filter (\<lambda>p. pst_direction p = CREDIT) ps))"
proof -
  have "sum_list (map posting_credit ps) = sum_list (map pst_amount (filter (\<lambda>p. pst_direction p = CREDIT) ps)) -
      sum_list (map pst_amount (filter (\<lambda>p. pst_direction p = DEBIT) ps))"
  proof (induction ps)
    case Nil
    then show ?case by simp
  next
    case (Cons p ps)
    then show ?case by (cases "pst_direction p") (simp_all add: posting_credit_def)
  qed
  then show ?thesis by (auto simp: validate_balanced_Inr list_all_iff)
qed

text \<open>
  Locks are taken in one global order: the accounts whose balance rows \<open>post\<close> locks are the accounts
  of its postings, each once, in strictly increasing order of their identifiers, so that two calls
  that share accounts lock the shared ones in the same order.
\<close>

lemma post_locks_in_order:
  "sorted_wrt (<) (sorted_account_ids ps) \<and> set (sorted_account_ids ps) = pst_account_id ` set ps \<and>
     filter (\<lambda>a. a \<in> set (sorted_account_ids qs)) (sorted_account_ids ps) =
     filter (\<lambda>a. a \<in> set (sorted_account_ids ps)) (sorted_account_ids qs)"
proof -
  have sd: "sorted (sorted_account_ids xs)" "distinct (sorted_account_ids xs)" for xs
    by (simp_all add: sorted_account_ids_def)
  then have "sorted_wrt (<) (sorted_account_ids ps)" by (simp add: strict_sorted_iff)
  moreover have "filter (\<lambda>a. a \<in> set (sorted_account_ids qs)) (sorted_account_ids ps) =
     filter (\<lambda>a. a \<in> set (sorted_account_ids ps)) (sorted_account_ids qs)"
    by (rule sorted_distinct_set_unique) (auto simp: sd sorted_filter[of "\<lambda>x. x", simplified])
  ultimately show ?thesis by simp
qed

section \<open>Idempotency keys\<close>

text \<open>
  C22. The claim implements the key protocol. On a database whose constraints hold, \<open>claim_or_replay\<close>
  answers exactly as the abstract key prescribes (a new key is claimed, a claimed one conflicts, a
  finished one replays its response, another digest is a mismatch), it turns an unused key into a
  claimed one with this digest, and it changes no other key.
\<close>

theorem claim_refines_key_protocol:
  assumes "pending s = []" and "constraints (db s)" and "key_room s" and "length m \<le> 255" and "length k \<le> 255"
  shows "\<exists>t. claim_or_replay lock m k p s =
      (claim_outcome (key_state (db s) m k) k (compute_hash p), t) \<and>
    (\<forall>m' k'. key_state (db t) m' k' = (if (m', k') = (m, k) \<and> key_state (db s) m k = Unused
       then Claimed (compute_hash p) else key_state (db s) m' k'))"
proof (cases "key_state (db s) m k = Unused")
  case True
  from claim_succeeds[OF True assms] obtain t where t: "claim_or_replay lock m k p s = (Inr None, t)" by blast
  from True t assms(1) obtain r where "db t = (db s)\<lparr>idempotency_keys := idempotency_keys (db s) @ [r]\<rparr>"
    "idem_scope r = (m, k)" "record_state r = Claimed (compute_hash p)" by (rule claim_unused)
  with t True show ?thesis by (auto simp: key_state_append[OF True])
next
  case False
  with claim_used[OF False] show ?thesis by auto
qed

theorem claim_refines_key_protocol_witness:
  "\<exists>t. claim_or_replay None ''m'' ''k'' JNull sample_world = (Inr None, t) \<and>
     key_state (db t) ''m'' ''k'' = Claimed (compute_hash JNull)"
proof -
  have "key_room sample_world"
    by (simp add: key_room_def sample_world_def sample_db_def upgrade_def empty_database_def int64_def)
  moreover have "key_state (db sample_world) ''m'' ''k'' = Unused"
    by (simp add: key_state_def sample_db_def upgrade_def empty_database_def)
  ultimately show ?thesis
    using claim_refines_key_protocol[OF _ _ \<open>key_room sample_world\<close>, of "''m''" "''k''" None JNull]
      sample_db_constraints by fastforce
qed

text \<open>
  A finished key replays: after a claim by a new request and its completion with a status and a body,
  the same request gets that status and body back, whatever the lock, and the state does not change.
\<close>

lemma complete_then_replay:
  assumes "claim_or_replay lock m k p s = (Inr None, s1)" and "pending s = []"
    and "complete m k rid c b s1 = (Inr u, s2)" and "c \<noteq> 0" and "truthy b"
  shows "claim_or_replay lock' m k p s2 = (Inr (Some (c, b)), s2)"
proof -
  have "claim_or_replay lock' m k p s = (Inr None, s1)"
    using assms(1) by (simp add: claim_or_replay_def)
  then show ?thesis using assms(2-5) by (rule idem.round_trip)
qed

lemma complete_then_replay_witness:
  "\<exists>s1 s2. claim_or_replay None ''m'' ''k'' JNull sample_world = (Inr None, s1) \<and>
     complete ''m'' ''k'' (UUID 9) 201 (JInt 5) s1 = (Inr (), s2) \<and>
     claim_or_replay None ''m'' ''k'' JNull s2 = (Inr (Some (201, JInt 5)), s2)"
proof -
  have un: "key_state (db sample_world) ''m'' ''k'' = Unused"
    by (simp add: key_state_def sample_db_def upgrade_def empty_database_def)
  have "key_room sample_world"
    by (simp add: key_room_def sample_world_def sample_db_def upgrade_def empty_database_def int64_def)
  with claim_succeeds[OF un, of None JNull] sample_db_constraints
  obtain s1 where s1: "claim_or_replay None ''m'' ''k'' JNull sample_world = (Inr None, s1)"
    by auto
  from un s1 have "constraints (db s1)" "pending s1 = []" by (rule claim_unused; simp)+
  then obtain s2 where s2: "complete ''m'' ''k'' (UUID 9) 201 (JInt 5) s1 = (Inr (), s2)"
    using complete_succeeds[of s1 201 "[]" "''m''" "''k''" "UUID 9" "JInt 5"] by (auto simp: int32_def)
  from complete_then_replay[OF s1 _ s2, of None] s1 s2 show ?thesis by simp
qed

text \<open>
  The Redis lock decides nothing: the outcome of a claim is the same with no lock, with one that is
  free, held or failing; its answer is never used.
\<close>

lemma redis_lock_ignored: "claim_or_replay lock m k p s = claim_or_replay lock' m k p s"
  by (simp add: claim_or_replay_def)

text \<open>
  The digest does not depend on the order of the fields of a request body: two objects with the same
  fields in another order are the same request.
\<close>

lemma compute_hash_field_order:
  assumes "distinct (map fst kvs)" and "mset kvs' = mset kvs"
  shows "compute_hash (JObj kvs') = compute_hash (JObj kvs)"
proof -
  let ?f = "map (\<lambda>(k, v). (k, json_dumps v))"
  have keys: "map fst (?f xs) = map fst xs" for xs :: "(string \<times> json) list" by (induction xs) auto
  have ms: "mset (?f kvs') = mset (?f kvs)" using assms(2) by (metis mset_map)
  have "distinct (map fst (?f kvs))" using assms(1) keys by metis
  then have "inj_on fst (set (?f kvs'))"
    unfolding mset_eq_setD[OF ms] by (simp only: distinct_map)
  with ms have "sort_key fst (?f kvs') = sort_key fst (?f kvs)"
    by (intro sort_key_inj_key_eq) (simp_all del: set_map)
  then show ?thesis by (simp add: compute_hash_def)
qed

lemma compute_hash_field_order_witness:
  "compute_hash (JObj [(''b'', JNull), (''a'', JInt 1)]) =
     compute_hash (JObj [(''a'', JInt 1), (''b'', JNull)])"
  by (rule compute_hash_field_order) simp_all

section \<open>Providers\<close>

text \<open>
  The provider is called outside every transaction and cannot move money: whichever provider the
  settings choose and whatever Stripe answers, the call changes no table, also when it raises; and an
  answer carries a reference unless it is a decline.
\<close>

lemma provider_isolated:
  assumes "get_payment_provider name api_key create_intent p s = (r, t)"
  shows "db t = db s \<and> pending t = pending s \<and>
    (\<forall>a. r = Inr a \<longrightarrow> (ar_psp_reference a = None) = (ar_outcome a = DECLINED))"
proof -
  have pp: "payment_provider (get_payment_provider name api_key create_intent)"
    using mock.payment_provider_axioms stripe.payment_provider_axioms by (simp add: get_payment_provider_def)
  show ?thesis
  proof (cases r)
    case (Inl e)
    with payment_provider.authorize_error[OF pp] assms have "same_data s t" by blast
    with Inl show ?thesis by (simp add: same_data_def)
  next
    case (Inr a)
    with keepsD[OF payment_provider.authorize_same_data[OF pp]] assms have "same_data s t" by blast
    with Inr payment_provider.authorize_reference[OF pp] assms show ?thesis by (auto simp: same_data_def)
  qed
qed

lemma provider_isolated_witness:
  "db (snd (get_payment_provider ''Stripe'' ''sk'' (\<lambda>_. StripeError None)
     \<lparr>pay_id = UUID 50, pay_merchant_id = ''m'', pay_payer_account = UUID 3, pay_payee_account = UUID 4,
      pay_amount = 40, pay_currency = ''INR'', pay_status = PaymentStatus.PROCESSING, pay_psp_reference = None,
      pay_refunded_amount = 0, pay_version = 0, pay_created_at = 0, pay_updated_at = 0\<rparr> sample_world)) = sample_db"
  using provider_isolated[OF prod.collapse[symmetric]] by (metis sample_world_fields(1))

end
