(* ===== verification/Payments.thy ===== *)
theory Payments
  imports Foundations
begin

text \<open>
  Payment creation: the request and response schemas (\<open>app/application/schemas.py\<close>),
  \<open>PaymentService\<close> (\<open>app/application/payment_service.py\<close>) and the routes of
  \<open>app/api/payments.py\<close>. \<open>create\<close> runs two transactions with the provider's call between
  them; they are separate definitions, because other requests run between them in \<open>System\<close>.
  Pydantic, SHA-256 and Redis are not part of the repository: the record \<open>env\<close> holds what the
  services use of them, and \<open>codec_ok\<close> is the law of pydantic's JSON mode: a dumped response can
  be loaded again and is not an empty object.
\<close>

section \<open>Schemas\<close>

record CreatePaymentRequest =
  req_merchantId :: string
  req_payerAccountId :: UUID
  req_payeeAccountId :: UUID
  req_amount :: int
  req_currency :: string

text \<open>The \<open>Field\<close> constraints, which FastAPI checks before the route runs.\<close>

definition CreatePaymentRequest_valid :: "CreatePaymentRequest \<Rightarrow> bool" where
  "CreatePaymentRequest_valid r \<longleftrightarrow> length (req_merchantId r) \<ge> 1 \<and> req_amount r > 0 \<and>
     length (req_currency r) \<ge> 3 \<and> length (req_currency r) \<le> 3"

record PaymentResponse =
  pres_id :: UUID
  pres_merchantId :: string
  pres_payerAccountId :: UUID
  pres_payeeAccountId :: UUID
  pres_amount :: int
  pres_currency :: string
  pres_status :: PaymentStatus
  pres_pspReference :: "string option"
  pres_refundedAmount :: int
  pres_createdAt :: int

record RefundResponse =
  rres_id :: UUID
  rres_paymentId :: UUID
  rres_amount :: int
  rres_status :: RefundStatus
  rres_createdAt :: int

record env =
  redis_lock :: "redis_set option"
  dump_request :: "CreatePaymentRequest \<Rightarrow> json"
  dump_payment :: "PaymentResponse \<Rightarrow> json"
  load_payment :: "json \<Rightarrow> exn + PaymentResponse"
  dump_refund :: "RefundResponse \<Rightarrow> json"
  load_refund :: "json \<Rightarrow> exn + RefundResponse"

definition codec_ok :: "env \<Rightarrow> bool" where
  "codec_ok env \<longleftrightarrow>
     (\<forall>r. load_payment env (dump_payment env r) = Inr r \<and> truthy (dump_payment env r)) \<and>
     (\<forall>r. load_refund env (dump_refund env r) = Inr r \<and> truthy (dump_refund env r))"

section \<open>Operations\<close>

definition to_response :: "Payment \<Rightarrow> PaymentResponse" where
  "to_response payment = \<lparr>pres_id = pay_id payment, pres_merchantId = pay_merchant_id payment,
     pres_payerAccountId = pay_payer_account payment, pres_payeeAccountId = pay_payee_account payment,
     pres_amount = pay_amount payment, pres_currency = pay_currency payment,
     pres_status = pay_status payment, pres_pspReference = pay_psp_reference payment,
     pres_refundedAmount = pay_refunded_amount payment, pres_createdAt = pay_created_at payment\<rparr>"

definition get_payment :: "UUID \<Rightarrow> PaymentResponse M" where
  "get_payment payment_id = and_then (select_payment payment_id) (\<lambda>row. case row of
     None \<Rightarrow> raise (PaymentNotFoundException payment_id)
   | Some payment \<Rightarrow> ret (to_response payment))"

text \<open>The new row: the arguments of \<open>create\<close> and the column defaults.\<close>

definition new_payment :: "UUID \<Rightarrow> CreatePaymentRequest \<Rightarrow> int \<Rightarrow> int \<Rightarrow> Payment" where
  "new_payment payment_id request created updated = \<lparr>pay_id = payment_id,
     pay_merchant_id = req_merchantId request, pay_payer_account = req_payerAccountId request,
     pay_payee_account = req_payeeAccountId request, pay_amount = req_amount request,
     pay_currency = req_currency request, pay_status = PaymentStatus.CREATED,
     pay_psp_reference = None, pay_refunded_amount = 0, pay_version = 0,
     pay_created_at = created, pay_updated_at = updated\<rparr>"

text \<open>Transaction 1: a replayed response, or the payment whose funds are now held.\<close>

definition create_hold :: "env \<Rightarrow> string \<Rightarrow> CreatePaymentRequest \<Rightarrow> UUID \<Rightarrow>
    ((int \<times> PaymentResponse) + Payment) M" where
  "create_hold env idempotency_key request payment_id =
     and_then (claim_or_replay (redis_lock env) (req_merchantId request) idempotency_key
       (dump_request env request)) (\<lambda>replay. case replay of
       Some (status_code, body) \<Rightarrow>
         and_then (of_result (load_payment env body)) (\<lambda>r. ret (Inl (status_code, r)))
     | None \<Rightarrow>
         and_then datetime_now (\<lambda>created.
         and_then datetime_now (\<lambda>updated.
         and_then (hold (new_payment payment_id request created updated)) (\<lambda>payment.
         ret (Inr payment)))))"

text \<open>The \<open>PENDING\<close> branch of transaction 2; the flush sets \<open>updated_at\<close> (\<open>onupdate\<close>).\<close>

definition await_webhook :: "UUID \<Rightarrow> string option \<Rightarrow> Payment M" where
  "await_webhook payment_id psp_reference = and_then (select_payment payment_id) (\<lambda>row. case row of
     None \<Rightarrow> raise NoResultFound
   | Some p \<Rightarrow>
       and_then datetime_now (\<lambda>t.
       let payment = p\<lparr>pay_status := PaymentStatus.AUTHORIZED, pay_psp_reference := psp_reference,
             pay_updated_at := t\<rparr> in
       and_then (put_payment payment) (\<lambda>_. ret payment)))"

definition resolve :: "UUID \<Rightarrow> AuthorizationResult \<Rightarrow> Payment M" where
  "resolve payment_id auth_result = (case ar_outcome auth_result of
     CAPTURED \<Rightarrow> settle payment_id (case ar_psp_reference auth_result of None \<Rightarrow> [] | Some r \<Rightarrow> r)
   | DECLINED \<Rightarrow> reverse payment_id
   | AuthorizationOutcome.PENDING \<Rightarrow> await_webhook payment_id (ar_psp_reference auth_result))"

text \<open>Transaction 2.\<close>

definition create_settle :: "env \<Rightarrow> string \<Rightarrow> CreatePaymentRequest \<Rightarrow> UUID \<Rightarrow> AuthorizationResult \<Rightarrow>
    (int \<times> PaymentResponse) M" where
  "create_settle env idempotency_key request payment_id auth_result =
     and_then (resolve payment_id auth_result) (\<lambda>payment.
     let response = to_response payment in
     and_then (complete (req_merchantId request) idempotency_key (pay_id payment) 201
       (dump_payment env response)) (\<lambda>_.
     ret (201, response)))"

definition create :: "env \<Rightarrow> provider \<Rightarrow> string \<Rightarrow> CreatePaymentRequest \<Rightarrow> (int \<times> PaymentResponse) M" where
  "create env psp idempotency_key request =
     and_then uuid4 (\<lambda>payment_id.
     and_then (transaction (create_hold env idempotency_key request payment_id)) (\<lambda>r. case r of
       Inl replay \<Rightarrow> ret replay
     | Inr payment \<Rightarrow>
         and_then (psp payment) (\<lambda>auth_result.
         transaction (create_settle env idempotency_key request payment_id auth_result))))"

text \<open>The route \<open>POST /v1/payments\<close>: validation, then the service.\<close>

definition create_payment :: "env \<Rightarrow> provider \<Rightarrow> string \<Rightarrow> CreatePaymentRequest \<Rightarrow> (int \<times> PaymentResponse) M" where
  "create_payment env psp idempotency_key request =
     (if CreatePaymentRequest_valid request then create env psp idempotency_key request
      else raise ValidationError)"

section \<open>Specification\<close>

definition request_hash :: "env \<Rightarrow> CreatePaymentRequest \<Rightarrow> string" where
  "request_hash env req = compute_hash (dump_request env req)"

abbreviation create_key :: "database \<Rightarrow> CreatePaymentRequest \<Rightarrow> string \<Rightarrow> key_state" where
  "create_key d req k \<equiv> key_state d (req_merchantId req) k"

text \<open>How far a payment in a given status has moved its amount.\<close>

fun moved :: "PaymentStatus \<Rightarrow> UUID \<Rightarrow> UUID \<Rightarrow> int \<Rightarrow> UUID \<Rightarrow> int" where
  "moved PaymentStatus.SUCCEEDED payer payee x a = (if a = payee then x else 0) - (if a = payer then x else 0)"
| "moved PaymentStatus.FAILED payer payee x a = 0"
| "moved _ payer payee x a = (if a = PSP_SUSPENSE_ACCOUNT_ID then x else 0) - (if a = payer then x else 0)"

text \<open>What transaction 2 does to a payment and to the tables.\<close>

fun resolved_status :: "AuthorizationOutcome \<Rightarrow> PaymentStatus" where
  "resolved_status CAPTURED = PaymentStatus.SUCCEEDED"
| "resolved_status DECLINED = PaymentStatus.FAILED"
| "resolved_status AuthorizationOutcome.PENDING = PaymentStatus.AUTHORIZED"

definition same_terms :: "Payment \<Rightarrow> Payment \<Rightarrow> bool" where
  "same_terms p q \<longleftrightarrow> pay_id q = pay_id p \<and> pay_merchant_id q = pay_merchant_id p \<and>
     pay_payer_account q = pay_payer_account p \<and> pay_payee_account q = pay_payee_account p \<and>
     pay_amount q = pay_amount p \<and> pay_currency q = pay_currency p \<and>
     pay_created_at q = pay_created_at p"

fun resolved_transfer :: "AuthorizationOutcome \<Rightarrow> Payment \<Rightarrow> UUID \<Rightarrow> int" where
  "resolved_transfer CAPTURED p a =
     (if a = pay_payee_account p then pay_amount p else 0) - (if a = PSP_SUSPENSE_ACCOUNT_ID then pay_amount p else 0)"
| "resolved_transfer DECLINED p a =
     (if a = pay_payer_account p then pay_amount p else 0) - (if a = PSP_SUSPENSE_ACCOUNT_ID then pay_amount p else 0)"
| "resolved_transfer AuthorizationOutcome.PENDING p a = 0"

section \<open>What the transactions do\<close>

lemma same_terms_refl [simp]: "same_terms p p"
  by (simp add: same_terms_def)

lemma await_webhook_Inr:
  assumes "await_webhook pid ref s = (Inr q, t)"
  obtains p n where "row_of pay_id pid (payments (db s)) = Some p"
    and "q = p\<lparr>pay_status := PaymentStatus.AUTHORIZED, pay_psp_reference := ref, pay_updated_at := n\<rparr>"
    and "db t = (db s)\<lparr>payments := set_row pay_id pid (\<lambda>_. q) (payments (db s))\<rparr>"
    and "pending t = pending s"
  using assms
  by (auto simp: await_webhook_def select_payment_def and_then_Inr_iff Let_def
      split: option.splits dest: row_of_SomeD)

text \<open>The frame of a step that touches the payment \<open>pid\<close>, the journal and the outbox only.\<close>

definition payment_step :: "UUID \<Rightarrow> Payment \<Rightarrow> database \<Rightarrow> database \<Rightarrow> bool" where
  "payment_step pid q d d' \<longleftrightarrow> payments d' = set_row pay_id pid (\<lambda>_. q) (payments d) \<and>
     accounts d' = accounts d \<and> refunds d' = refunds d \<and> idempotency_keys d' = idempotency_keys d \<and>
     webhook_events d' = webhook_events d \<and> processed_events d' = processed_events d"

lemma transitioned_payment_step:
  "transitioned ty pid ps event payload (d\<lparr>payments := set_row pay_id pid (\<lambda>_. q) (payments d)\<rparr>) d' \<Longrightarrow>
     payment_step pid q d d'"
  by (auto simp: payment_step_def transitioned_frame)

lemma resolve_Inr:
  assumes "resolve pid a s = (Inr q, t)" and "pending s = []"
  obtains p where "row_of pay_id pid (payments (db s)) = Some p" and "same_terms p q"
    and "pay_refunded_amount q = pay_refunded_amount p" and "pay_status q = resolved_status (ar_outcome a)"
    and "pending t = []" and "payment_step pid q (db s) (db t)"
    and "\<And>c. balance (db t) c = balance (db s) c + resolved_transfer (ar_outcome a) p c"
proof (cases "ar_outcome a")
  case CAPTURED
  let ?r = "case ar_psp_reference a of None \<Rightarrow> [] | Some r \<Rightarrow> r"
  from CAPTURED assms(1) have "settle pid ?r s = (Inr q, t)" by (simp add: resolve_def)
  then obtain p n where p: "row_of pay_id pid (payments (db s)) = Some p"
    and q: "q = p\<lparr>pay_status := PaymentStatus.SUCCEEDED, pay_psp_reference := Some ?r,
      pay_version := pay_version p + 1, pay_updated_at := n\<rparr>" and pe: "pending t = []"
    and tr: "transitioned TransactionType.PAYMENT pid
      (transfer PSP_SUSPENSE_ACCOUNT_ID (pay_payee_account p) (pay_amount p)) ''payment.succeeded''
      (succeeded_payload q) ((db s)\<lparr>payments := set_row pay_id pid (\<lambda>_. q) (payments (db s))\<rparr>) (db t)"
    using assms(2) by (rule settle_Inr)
  show thesis
    by (rule that[OF p])
      (simp_all add: q same_terms_def CAPTURED pe transitioned_transfer[OF tr]
        transitioned_payment_step[OF tr, unfolded q])
next
  case DECLINED
  from DECLINED assms(1) have "reverse pid s = (Inr q, t)" by (simp add: resolve_def)
  then obtain p n where p: "row_of pay_id pid (payments (db s)) = Some p"
    and q: "q = p\<lparr>pay_status := PaymentStatus.FAILED, pay_version := pay_version p + 1, pay_updated_at := n\<rparr>"
    and pe: "pending t = []"
    and tr: "transitioned TransactionType.REVERSAL pid
      (transfer PSP_SUSPENSE_ACCOUNT_ID (pay_payer_account p) (pay_amount p)) ''payment.failed''
      (failed_payload q) ((db s)\<lparr>payments := set_row pay_id pid (\<lambda>_. q) (payments (db s))\<rparr>) (db t)"
    using assms(2) by (rule reverse_Inr)
  show thesis
    by (rule that[OF p])
      (simp_all add: q same_terms_def DECLINED pe transitioned_transfer[OF tr]
        transitioned_payment_step[OF tr, unfolded q])
next
  case PENDING
  from PENDING assms(1) have "await_webhook pid (ar_psp_reference a) s = (Inr q, t)"
    by (simp add: resolve_def)
  then show thesis using assms(2)
    by (elim await_webhook_Inr) (rule that, simp_all add: PENDING same_terms_def payment_step_def)
qed

lemma create_hold_new:
  assumes "transaction (create_hold env k req pid) s = (Inr (Inr p), t)"
  obtains r n u where "create_key (db s) req k = Unused"
    and "p = (new_payment pid req n u)\<lparr>pay_status := PaymentStatus.PROCESSING\<rparr>"
    and "idem_scope r = (req_merchantId req, k)" and "record_state r = Claimed (request_hash env req)"
    and "pending t = []"
    and "transitioned TransactionType.PAYMENT pid
      (transfer (req_payerAccountId req) PSP_SUSPENSE_ACCOUNT_ID (req_amount req)) ''payment.processing''
      (processing_payload p) ((db s)\<lparr>idempotency_keys := idempotency_keys (db s) @ [r],
        payments := payments (db s) @ [p]\<rparr>) (db t)"
proof -
  let ?s0 = "s\<lparr>pending := []\<rparr>"
  from assms obtain s1 where s1: "create_hold env k req pid ?s0 = (Inr (Inr p), s1)"
    and t: "t = flushed s1" by (rule transaction_Inr)
  from s1 obtain x s2 where claim: "claim_or_replay (redis_lock env) (req_merchantId req) k
      (dump_request env req) ?s0 = (Inr x, s2)"
    and rest: "(case x of Some (c, body) \<Rightarrow> and_then (of_result (load_payment env body)) (\<lambda>r. ret (Inl (c, r)))
      | None \<Rightarrow> and_then datetime_now (\<lambda>created. and_then datetime_now (\<lambda>updated.
          and_then (hold (new_payment pid req created updated)) (\<lambda>payment. ret (Inr payment))))) s2 =
        (Inr (Inr p), s1)"
    unfolding create_hold_def by (rule and_then_InrE)
  have none: "x = None" using rest by (auto simp: and_then_Inr_iff split: option.splits)
  note un = claim_None[OF claim[unfolded none]]
  from claim_unused[OF un claim] obtain r where d2: "db s2 = (db s)\<lparr>idempotency_keys := idempotency_keys (db s) @ [r]\<rparr>"
    and r: "idem_scope r = (req_merchantId req, k)" "record_state r = Claimed (request_hash env req)"
    and p2: "pending s2 = []" by (auto simp: request_hash_def)
  let ?s3 = "s2\<lparr>clock_reads := Suc (Suc (clock_reads s2))\<rparr>"
  let ?n = "clock s2 (clock_reads s2)"
  let ?u = "clock s2 (Suc (clock_reads s2))"
  from rest none have "hold (new_payment pid req ?n ?u) ?s3 = (Inr p, s1)"
    by (auto simp: and_then_Inr_iff)
  from hold_Inr[OF this] p2 d2 t un r show thesis
    by (intro that[of ?n ?u r]) (auto simp: new_payment_def)
qed

lemma create_hold_replay:
  assumes "transaction (create_hold env k req pid) s = (Inr (Inl (c, r)), t)"
  shows "db t = db s" and "\<exists>b. create_key (db s) req k = Finished (request_hash env req) c b \<and> load_payment env b = Inr r"
proof -
  let ?s0 = "s\<lparr>pending := []\<rparr>"
  from assms obtain s1 where s1: "create_hold env k req pid ?s0 = (Inr (Inl (c, r)), s1)"
    and t: "t = flushed s1" by (rule transaction_Inr)
  then obtain b s2 where claim: "claim_or_replay (redis_lock env) (req_merchantId req) k
      (dump_request env req) ?s0 = (Inr (Some (c, b)), s2)" and load: "load_payment env b = Inr r" "s1 = s2"
    by (auto simp: create_hold_def and_then_Inr_iff split: option.splits)
  from claim_Some[OF claim] have "create_key (db s) req k = Finished (request_hash env req) c b" "s2 = ?s0"
    by (simp_all add: request_hash_def)
  with t load show "db t = db s"
    and "\<exists>b. create_key (db s) req k = Finished (request_hash env req) c b \<and> load_payment env b = Inr r"
    by auto
qed

lemma create_settle_Inr:
  assumes "transaction (create_settle env k req pid a) s = (Inr (c, r), t)"
    and "create_key (db s) req k = Claimed h" and "codec_ok env"
  obtains p q where "row_of pay_id pid (payments (db s)) = Some p" and "same_terms p q"
    and "pay_refunded_amount q = pay_refunded_amount p" and "pay_status q = resolved_status (ar_outcome a)"
    and "c = 201" and "r = to_response q"
    and "create_key (db t) req k = Finished h 201 (dump_payment env r)"
    and "payments (db t) = set_row pay_id pid (\<lambda>_. q) (payments (db s))"
    and "\<And>c. balance (db t) c = balance (db s) c + resolved_transfer (ar_outcome a) p c"
proof -
  let ?s0 = "s\<lparr>pending := []\<rparr>"
  from assms(1) obtain s1 where "create_settle env k req pid a ?s0 = (Inr (c, r), s1)"
    and t: "t = flushed s1" by (rule transaction_Inr)
  then obtain q s2 u where res: "resolve pid a ?s0 = (Inr q, s2)" and cr: "c = 201" "r = to_response q"
    and comp: "complete (req_merchantId req) k (pay_id q) 201 (dump_payment env (to_response q)) s2 = (Inr u, s1)"
    by (auto simp: create_settle_def and_then_Inr_iff Let_def)
  from res obtain p where p: "row_of pay_id pid (payments (db ?s0)) = Some p" "same_terms p q"
    "pay_refunded_amount q = pay_refunded_amount p" "pay_status q = resolved_status (ar_outcome a)"
    and pe: "pending s2 = []" and st: "payment_step pid q (db ?s0) (db s2)"
    and bal: "\<And>c. balance (db s2) c = balance (db ?s0) c + resolved_transfer (ar_outcome a) p c"
    by (rule resolve_Inr) simp_all
  have k2: "create_key (db s2) req k = Claimed h"
    using st assms(2) key_state_cong[of "db s2" "db s"] by (simp add: payment_step_def)
  note c = complete_Inr[OF comp k2, where es = "[]"]
  have tr: "truthy (dump_payment env (to_response q))" using assms(3) by (simp add: codec_ok_def)
  have d: "db s1 = (db s2)\<lparr>idempotency_keys := idempotency_keys (db s1)\<rparr>"
    and pe1: "pending s1 = []" using c(2,4) tr pe by simp_all
  have "balance (db s1) = balance (db s2)" and "payments (db s1) = payments (db s2)"
    by (subst d, simp add: balance_def fun_eq_iff)+
  then show thesis using p cr bal st pe1 c(1)[of "req_merchantId req" k] tr pe
    by (intro that[of p q]) (simp_all add: t payment_step_def)
qed

section \<open>The whole call\<close>

lemma create_hold_row:
  assumes "transaction (create_hold env k req pid) s = (Inr (Inr p), t)"
  shows "row_of pay_id pid (payments (db t)) = Some p"
    and "create_key (db s) req k = Unused" and "create_key (db t) req k = Claimed (request_hash env req)"
    and "pay_status p = PaymentStatus.PROCESSING" and "pay_id p = pid"
    and "pay_payer_account p = req_payerAccountId req" and "pay_payee_account p = req_payeeAccountId req"
    and "pay_amount p = req_amount req" and "pay_merchant_id p = req_merchantId req"
    and "balance (db t) a = balance (db s) a + (if a = PSP_SUSPENSE_ACCOUNT_ID then req_amount req else 0) -
      (if a = req_payerAccountId req then req_amount req else 0)"
    and "payments (db t) = payments (db s) @ [p]" and "0 < req_amount req"
    and "req_amount req \<le> balance (db s) (req_payerAccountId req)"
proof -
  from assms obtain r n u where un: "create_key (db s) req k = Unused"
    and p: "p = (new_payment pid req n u)\<lparr>pay_status := PaymentStatus.PROCESSING\<rparr>"
    and r: "idem_scope r = (req_merchantId req, k)" "record_state r = Claimed (request_hash env req)"
    and tr: "transitioned TransactionType.PAYMENT pid
      (transfer (req_payerAccountId req) PSP_SUSPENSE_ACCOUNT_ID (req_amount req)) ''payment.processing''
      (processing_payload p) ((db s)\<lparr>idempotency_keys := idempotency_keys (db s) @ [r],
        payments := payments (db s) @ [p]\<rparr>) (db t)"
    by (rule create_hold_new)
  let ?d = "(db s)\<lparr>idempotency_keys := idempotency_keys (db s) @ [r], payments := payments (db s) @ [p]\<rparr>"
  have pays: "payments (db t) = payments (db s) @ [p]" using transitioned_frame(2)[OF tr] by simp
  have pid: "pay_id p = pid" by (simp add: p new_payment_def)
  have "distinct (map pay_id (payments (db t)))" using transitioned_frame(7)[OF tr] by (simp add: constraint_defs)
  from row_of_in[OF this, of p] pays pid show "row_of pay_id pid (payments (db t)) = Some p" by simp
  show "create_key (db s) req k = Unused" by fact
  have "create_key (db t) req k = create_key ((db s)\<lparr>idempotency_keys := idempotency_keys (db s) @ [r]\<rparr>) req k"
    using transitioned_frame(4)[OF tr] by (intro key_state_cong) simp
  then show "create_key (db t) req k = Claimed (request_hash env req)"
    using key_state_append[OF un r(1)] r(2) by simp
  show "payments (db t) = payments (db s) @ [p]" by fact
  have b: "balance ?d = balance (db s)" by (simp add: balance_def fun_eq_iff)
  show "balance (db t) a = balance (db s) a + (if a = PSP_SUSPENSE_ACCOUNT_ID then req_amount req else 0) -
      (if a = req_payerAccountId req then req_amount req else 0)"
    and "0 < req_amount req" and "req_amount req \<le> balance (db s) (req_payerAccountId req)"
    using transitioned_transfer[OF tr] b by simp_all
qed (use assms in \<open>auto elim!: create_hold_new simp: new_payment_def\<close>)

lemma create_Inr:
  assumes "create env psp k req s = (Inr (c, r), t)" and "payment_provider psp" and "codec_ok env"
    and "create_key (db s) req k = Unused"
  obtains a where "c = 201" and "pres_status r = resolved_status (ar_outcome a)"
    and "pres_payerAccountId r = req_payerAccountId req" and "pres_payeeAccountId r = req_payeeAccountId req"
    and "pres_amount r = req_amount req" and "pres_merchantId r = req_merchantId req"
    and "create_key (db t) req k = Finished (request_hash env req) 201 (dump_payment env r)"
    and "\<And>x. balance (db t) x = balance (db s) x +
      moved (pres_status r) (req_payerAccountId req) (req_payeeAccountId req) (req_amount req) x"
    and "\<exists>q. row_of pay_id (pres_id r) (payments (db t)) = Some q \<and> r = to_response q"
    and "\<exists>p s1 s2. psp p s1 = (Inr a, s2) \<and> pay_amount p = req_amount req"
proof -
  let ?s0 = "s\<lparr>uuids_drawn := Suc (uuids_drawn s)\<rparr>"
  let ?pid = "uuid_source s (uuids_drawn s)"
  from assms(1) obtain x s1 where tx1: "transaction (create_hold env k req ?pid) ?s0 = (Inr x, s1)"
    and rest: "(case x of Inl replay \<Rightarrow> ret replay | Inr payment \<Rightarrow> and_then (psp payment)
      (\<lambda>a. transaction (create_settle env k req ?pid a))) s1 = (Inr (c, r), t)"
    by (auto simp: create_def and_then_Inr_iff)
  obtain p where p: "x = Inr p"
    using create_hold_replay(2)[of env k req ?pid ?s0] tx1 assms(4) by (cases x) fastforce+
  note h = create_hold_row[OF tx1[unfolded p]]
  from rest p obtain a s2 where a: "psp p s1 = (Inr a, s2)"
    and tx2: "transaction (create_settle env k req ?pid a) s2 = (Inr (c, r), t)"
    by (auto simp: and_then_Inr_iff)
  have d2: "db s2 = db s1" using payment_provider.authorize_db[OF assms(2) a] .
  from tx2 h(3) assms(3) obtain p' q where p': "row_of pay_id ?pid (payments (db s2)) = Some p'"
    and q: "same_terms p' q" "pay_refunded_amount q = pay_refunded_amount p'"
      "pay_status q = resolved_status (ar_outcome a)"
    and r: "c = 201" "r = to_response q"
    and key: "create_key (db t) req k = Finished (request_hash env req) 201 (dump_payment env r)"
    and pays: "payments (db t) = set_row pay_id ?pid (\<lambda>_. q) (payments (db s2))"
    and bal: "\<And>c. balance (db t) c = balance (db s2) c + resolved_transfer (ar_outcome a) p' c"
    unfolding d2[symmetric] by (rule create_settle_Inr) simp_all
  from p' h(1) d2 have pp: "p' = p" by simp
  have row: "row_of pay_id ?pid (payments (db t)) = Some q"
    using row_of_replaced[OF p'] q(1) pays pp h(5) by (simp add: same_terms_def)
  have "balance (db t) x = balance (db s) x +
      moved (pres_status r) (req_payerAccountId req) (req_payeeAccountId req) (req_amount req) x" for x
    using bal[of x] h(10)[of x] d2 pp h(6-8) r(2) q(3)
    by (cases "ar_outcome a") (simp_all add: to_response_def)
  moreover have "pres_id r = ?pid" using r(2) q(1) pp h(5) by (simp add: to_response_def same_terms_def)
  ultimately show thesis using r key row a q pp h(5-9)
    by (intro that[of a]) (auto simp: to_response_def same_terms_def)
qed

section \<open>The journal\<close>

lemma await_webhook_keeps: "keeps ledger_frame_rel (await_webhook pid ref)"
  unfolding await_webhook_def Let_def by (intro saga_keeps)

lemma resolve_keeps: "keeps ledger_frame_rel (resolve pid a)"
  unfolding resolve_def
  by (cases "ar_outcome a") (simp_all add: settle_keeps reverse_keeps await_webhook_keeps)

lemma create_hold_keeps: "keeps ledger_frame_rel (create_hold env k req pid)"
  unfolding create_hold_def
  by (intro saga_keeps claim_keeps) (auto split: prod.split intro: saga_keeps)

lemma create_settle_keeps: "keeps ledger_frame_rel (create_settle env k req pid a)"
  unfolding create_settle_def Let_def by (intro saga_keeps complete_keeps resolve_keeps)

section \<open>When the call returns\<close>

text \<open>
  The circumstances under which a request can be served: the schema and the journal are in order,
  the key is new and the key, merchant, amount and digest fit their columns, the accounts exist and
  the next identifiers are new (\<open>can_serve\<close>); and the payer has the money and no balance would
  pass the end of its column (\<open>can_create\<close>).
\<close>

definition can_serve :: "env \<Rightarrow> string \<Rightarrow> CreatePaymentRequest \<Rightarrow> world \<Rightarrow> bool" where
  "can_serve env k req s \<longleftrightarrow> constraints (db s) \<and> ledger_balanced (db s) \<and> key_room s \<and>
     create_key (db s) req k = Unused \<and> length k \<le> 255 \<and> length (req_merchantId req) \<le> 255 \<and>
     length (req_currency req) \<le> 3 \<and>
     {req_payerAccountId req, req_payeeAccountId req, PSP_SUSPENSE_ACCOUNT_ID} \<subseteq> account_ids (db s) \<and>
     0 < req_amount req \<and> int64 (req_amount req) \<and> counters_ok 4 s \<and> fresh_uuids 6 s \<and>
     uuid_source s (uuids_drawn s) \<notin> pay_id ` set (payments (db s))"

definition can_create :: "env \<Rightarrow> string \<Rightarrow> CreatePaymentRequest \<Rightarrow> world \<Rightarrow> bool" where
  "can_create env k req s \<longleftrightarrow> can_serve env k req s \<and>
     req_amount req \<le> balance (db s) (req_payerAccountId req) \<and>
     (\<forall>a \<in> {req_payeeAccountId req, PSP_SUSPENSE_ACCOUNT_ID}. balance (db s) a + req_amount req < 2 ^ 63)"

text \<open>The first steps of transaction 1: the key is claimed and the payment is handed to the saga.\<close>

lemma create_hold_claims:
  assumes "pending s = []" and "can_serve env k req (s\<lparr>uuids_drawn := uuids_drawn s - 1\<rparr>)"
    and "0 < uuids_drawn s" and pid: "pid = uuid_source s (uuids_drawn s - 1)"
  obtains n u s1 where "create_hold env k req pid s =
      and_then (hold (new_payment pid req n u)) (\<lambda>payment. ret (Inr payment)) s1"
    and "pending s1 = []" and "constraints (db s1)" and "balance (db s1) = balance (db s)"
    and "accounts (db s1) = accounts (db s)" and "payments (db s1) = payments (db s)"
    and "counters_ok 4 s1" and "fresh_uuids 5 s1"
proof -
  let ?m = "req_merchantId req"
  note cc = assms(2)[unfolded can_serve_def, simplified]
  have "fresh_uuids (1 + 5) (s\<lparr>uuids_drawn := uuids_drawn s - 1\<rparr>)" using cc by simp
  from fresh_uuids_skip[OF this] assms(3) have fresh: "fresh_uuids 5 s" by simp
  have cnt: "counters_ok 4 s" using cc by (simp add: counters_ok_def)
  obtain s1 where claim: "claim_or_replay (redis_lock env) ?m k (dump_request env req) s = (Inr None, s1)"
    using claim_succeeds[of s ?m k "redis_lock env" "dump_request env req"] assms(1) cc
    by (auto simp: request_hash_def key_room_def)
  from claim_unused[OF _ claim assms(1)] cc obtain r where
    d1: "db s1 = (db s)\<lparr>idempotency_keys := idempotency_keys (db s) @ [r]\<rparr>"
    and pe1: "pending s1 = []" and con1: "constraints (db s1)" and dr: "same_draws s s1"
    and en: "entry_seq s1 = entry_seq s" by auto
  let ?s2 = "s1\<lparr>clock_reads := Suc (Suc (clock_reads s1))\<rparr>"
  have b: "balance (db s1) = balance (db s)" by (simp add: d1 balance_def fun_eq_iff)
  have "create_hold env k req pid s = and_then (hold (new_payment pid req (clock s1 (clock_reads s1))
      (clock s1 (Suc (clock_reads s1))))) (\<lambda>payment. ret (Inr payment)) ?s2"
    by (simp add: create_hold_def and_then_def claim datetime_now_def ret_def)
  moreover have "counters_ok 4 ?s2" "fresh_uuids 5 ?s2"
    using cnt fresh counters_ok_cong[of s1 s 4] fresh_uuids_cong[of s1 s 5] d1 en dr by simp_all
  ultimately show thesis using pe1 con1 b d1 by (intro that[of _ _ ?s2]) simp_all
qed

lemma create_hold_succeeds:
  assumes "pending s = []" and can: "can_create env k req (s\<lparr>uuids_drawn := uuids_drawn s - 1\<rparr>)"
    and "0 < uuids_drawn s" and pid: "pid = uuid_source s (uuids_drawn s - 1)"
  shows "\<exists>p t. transaction (create_hold env k req pid) s = (Inr (Inr p), t) \<and> counters_ok 2 t \<and>
    fresh_uuids 3 t \<and> pending t = []"
proof -
  from assms(1) have s0: "s\<lparr>pending := []\<rparr> = s" by simp
  note cc = can[unfolded can_create_def can_serve_def, simplified]
  from can have "can_serve env k req (s\<lparr>uuids_drawn := uuids_drawn s - 1\<rparr>)" by (simp add: can_create_def)
  from assms(1) this assms(3,4) obtain n u s1 where run: "create_hold env k req pid s =
      and_then (hold (new_payment pid req n u)) (\<lambda>payment. ret (Inr payment)) s1"
    and s1: "pending s1 = []" "constraints (db s1)" "balance (db s1) = balance (db s)"
      "accounts (db s1) = accounts (db s)" "payments (db s1) = payments (db s)"
      "counters_ok 4 s1" "fresh_uuids 5 s1" by (rule create_hold_claims)
  have "counters_ok (2 + 2) s1" "fresh_uuids (2 + 3) s1" using s1 by simp_all
  then have "\<exists>q t. hold (new_payment pid req n u) s1 = (Inr q, t) \<and> counters_ok 2 t \<and> fresh_uuids 3 t"
    using cc s1 pid by (intro hold_succeeds) (auto simp: new_payment_def account_ids_def int64_def)
  then obtain q t where q: "hold (new_payment pid req n u) s1 = (Inr q, t)" "counters_ok 2 t" "fresh_uuids 3 t"
    by blast
  from hold_Inr[OF q(1)] s1(1) have pt: "pending t = []" "constraints (db t)"
    by (auto dest: transitioned_frame(7))
  have "create_hold env k req pid (s\<lparr>pending := []\<rparr>) = (Inr (Inr q), t)"
    unfolding s0 by (simp add: run and_then_def q(1) ret_def)
  then have "transaction (create_hold env k req pid) s = (Inr (Inr q), flushed t)"
    by (rule transaction_succeeds[OF create_hold_keeps]) (use pt cc in simp_all)
  with pt q show ?thesis by auto
qed

lemma create_hold_insufficient:
  assumes "pending s = []" and can: "can_serve env k req (s\<lparr>uuids_drawn := uuids_drawn s - 1\<rparr>)"
    and "0 < uuids_drawn s" and pid: "pid = uuid_source s (uuids_drawn s - 1)"
    and "balance (db s) (req_payerAccountId req) < req_amount req"
  shows "fst (transaction (create_hold env k req pid) s) = Inl (InsufficientFundsException
    (req_payerAccountId req) (balance (db s) (req_payerAccountId req)) (req_amount req))"
proof -
  from assms(1) have s0: "s\<lparr>pending := []\<rparr> = s" by simp
  note cc = can[unfolded can_serve_def, simplified]
  from assms(1-4) obtain n u s1 where run: "create_hold env k req pid s =
      and_then (hold (new_payment pid req n u)) (\<lambda>payment. ret (Inr payment)) s1"
    and s1: "pending s1 = []" "constraints (db s1)" "balance (db s1) = balance (db s)"
      "accounts (db s1) = accounts (db s)" "payments (db s1) = payments (db s)"
      "counters_ok 4 s1" "fresh_uuids 5 s1" by (rule create_hold_claims)
  let ?e = "InsufficientFundsException (req_payerAccountId req)
    (balance (db s) (req_payerAccountId req)) (req_amount req)"
  have "counters_ok 2 s1" using s1(6) by (auto simp: counters_ok_def)
  then have "\<exists>t. hold (new_payment pid req n u) s1 = (Inl (InsufficientFundsException
      (pay_payer_account (new_payment pid req n u)) (balance (db s1) (pay_payer_account (new_payment pid req n u)))
      (pay_amount (new_payment pid req n u))), t)"
    using cc s1 pid assms(5)
    by (intro hold_insufficient[where m = 5]) (auto simp: new_payment_def account_ids_def int64_def)
  then obtain t where t: "hold (new_payment pid req n u) s1 = (Inl ?e, t)"
    using s1(3) by (auto simp: new_payment_def)
  have "create_hold env k req pid (s\<lparr>pending := []\<rparr>) = (Inl ?e, t)"
    unfolding s0 by (simp add: run and_then_def t)
  from transaction_InlI[of "create_hold env k req pid", OF this] show ?thesis by simp
qed

text \<open>Transaction 2 returns when the held funds are still in the suspense account.\<close>

lemma resolve_succeeds:
  assumes "pending s = []" and con: "constraints (db s)" and p: "row_of pay_id pid (payments (db s)) = Some p"
    and "0 < pay_amount p" and "pay_amount p \<le> balance (db s) PSP_SUSPENSE_ACCOUNT_ID"
    and "PSP_SUSPENSE_ACCOUNT_ID \<in> account_ids (db s)" and "counters_ok (2 + n) s" and "0 \<le> n"
    and "fresh_uuids (2 + m) s" and "int64 (pay_version p + 1)"
    and ref: "case ar_psp_reference a of None \<Rightarrow> True | Some r \<Rightarrow> length r \<le> 255"
    and "PSP_SUSPENSE_ACCOUNT_ID \<noteq> pay_payee_account p \<Longrightarrow>
      balance (db s) (pay_payee_account p) + pay_amount p < 2 ^ 63"
    and "PSP_SUSPENSE_ACCOUNT_ID \<noteq> pay_payer_account p \<Longrightarrow>
      balance (db s) (pay_payer_account p) + pay_amount p < 2 ^ 63"
  shows "\<exists>q t. resolve pid a s = (Inr q, t) \<and> constraints (db t)"
proof (cases "ar_outcome a")
  case CAPTURED
  let ?r = "case ar_psp_reference a of None \<Rightarrow> [] | Some r \<Rightarrow> r"
  have "length ?r \<le> 255" using ref by (simp split: option.splits)
  then obtain q t where st: "settle pid ?r s = (Inr q, t)"
    using settle_succeeds[of s pid p n m ?r] assms by auto
  from st assms(1) have "constraints (db t)" by (rule settle_Inr) (rule transitioned_frame(7))
  with st CAPTURED show ?thesis by (simp add: resolve_def)
next
  case DECLINED
  obtain q t where st: "reverse pid s = (Inr q, t)"
    using reverse_succeeds[of s pid p n m] assms by auto
  from st assms(1) have "constraints (db t)" by (rule reverse_Inr) (rule transitioned_frame(7))
  with st DECLINED show ?thesis by (simp add: resolve_def)
next
  case PENDING
  note acc = payment_accounts[OF con p]
  let ?q = "p\<lparr>pay_status := PaymentStatus.AUTHORIZED, pay_psp_reference := ar_psp_reference a,
    pay_updated_at := clock s (clock_reads s)\<rparr>"
  have "int64 (pay_version p)" using con row_of_SomeD[OF p] by (auto simp: constraint_defs)
  then have "constraints ((db s)\<lparr>payments := set_row pay_id pid (\<lambda>_. ?q) (payments (db s))\<rparr>)"
    using ref acc by (intro constraints_put_payment[OF con p]) simp_all
  then show ?thesis using PENDING p acc(3)
    by (simp add: resolve_def await_webhook_def select_payment_def put_payment_def Let_def session_defs)
qed

lemma create_settle_succeeds:
  assumes "pending s = []" and "ledger_balanced (db s)" and "create_key (db s) req k = Claimed h"
    and "\<exists>q t. resolve pid a s = (Inr q, t) \<and> constraints (db t)"
  shows "\<exists>r t. transaction (create_settle env k req pid a) s = (Inr (201, r), t)"
proof -
  from assms(1) have s0: "s\<lparr>pending := []\<rparr> = s" by simp
  from assms(4) obtain q t where q: "resolve pid a s = (Inr q, t)" and con: "constraints (db t)" by blast
  from q assms(1) have pt: "pending t = []" by (rule resolve_Inr)
  let ?r = "to_response q"
  obtain u where u: "complete (req_merchantId req) k (pay_id q) 201 (dump_payment env ?r) t = (Inr (), u)"
    using complete_succeeds[of t 201 "[]" "req_merchantId req" k "pay_id q" "dump_payment env ?r"] pt con
    by (auto simp: int32_def)
  have pu: "pending u = []" "constraints (db u)"
    using u pt con by (auto simp: complete_def select_idempotency_def and_then_Inr_iff split: option.splits)
  have run: "create_settle env k req pid a (s\<lparr>pending := []\<rparr>) = (Inr (201, ?r), u)"
    unfolding s0 by (simp add: create_settle_def and_then_def q u ret_def Let_def)
  have "transaction (create_settle env k req pid a) s = (Inr (201, ?r), flushed u)"
    using create_settle_keeps run _ assms(2) by (rule transaction_succeeds) (use pu in simp)
  then show ?thesis by blast
qed

lemma mock_authorize_returns:
  obtains a j where "mock_authorize p s = (Inr a, s\<lparr>uuids_drawn := uuids_drawn s + j\<rparr>)" and "j \<le> 1"
    and "case ar_psp_reference a of None \<Rightarrow> True | Some r \<Rightarrow> length r \<le> 255"
  by (cases "pay_amount p = 40001"; cases "pay_amount p = 40002")
    (auto simp: mock_authorize_def uuid4_hex12_def session_defs declined_def pending_result_def captured_def
      hex_digits_def intro: that[where j = 0] that[where j = 1])

lemma create_mock_succeeds:
  assumes "pending s = []" and "can_create env k req s"
  shows "\<exists>r t. create env mock_authorize k req s = (Inr (201, r), t)"
proof -
  let ?s0 = "s\<lparr>uuids_drawn := Suc (uuids_drawn s)\<rparr>"
  let ?pid = "uuid_source s (uuids_drawn s)"
  note cc = assms(2)[unfolded can_create_def can_serve_def, simplified]
  obtain p s1 where tx1: "transaction (create_hold env k req ?pid) ?s0 = (Inr (Inr p), s1)"
    and c1: "counters_ok 2 s1" "fresh_uuids 3 s1" and pe1: "pending s1 = []"
    using create_hold_succeeds[of ?s0 env k req ?pid] assms by auto
  note h = create_hold_row[OF tx1]
  have kept: "ledger_kept (db s) (db s1)"
    using transaction_ledger_kept[OF create_hold_keeps tx1] by simp
  obtain a j where psp: "mock_authorize p s1 = (Inr a, s1\<lparr>uuids_drawn := uuids_drawn s1 + j\<rparr>)" and j: "j \<le> 1"
    and ref: "case ar_psp_reference a of None \<Rightarrow> True | Some r \<Rightarrow> length r \<le> 255"
    by (rule mock_authorize_returns)
  let ?s2 = "s1\<lparr>uuids_drawn := uuids_drawn s1 + j\<rparr>"
  have con: "constraints (db s1)" using transaction_constraints[OF tx1] cc by simp
  have fresh: "fresh_uuids (2 + 0) ?s2"
    using fresh_uuids_skip[OF fresh_uuids_less[OF c1(2), of "j + 2"]] j by simp
  have cnt: "counters_ok (2 + 0) ?s2" using c1(1) by (simp add: counters_ok_def)
  note range = constraints_balance_range[of "db s"]
  have p: "pay_version p = 0" using tx1 by (auto elim!: create_hold_new simp: new_payment_def)
  have susp: "pay_amount p \<le> balance (db s1) PSP_SUSPENSE_ACCOUNT_ID"
    using h(8) h(10)[of PSP_SUSPENSE_ACCOUNT_ID] h(13) range[of PSP_SUSPENSE_ACCOUNT_ID] cc by auto
  have payee: "balance (db s1) (pay_payee_account p) + pay_amount p < 2 ^ 63"
    if "PSP_SUSPENSE_ACCOUNT_ID \<noteq> pay_payee_account p"
    using h(7,8,12) h(10)[of "pay_payee_account p"] range[of "pay_payee_account p"] cc that by auto
  have payer: "balance (db s1) (pay_payer_account p) + pay_amount p < 2 ^ 63"
    if "PSP_SUSPENSE_ACCOUNT_ID \<noteq> pay_payer_account p"
    using h(6,8,12) h(10)[of "pay_payer_account p"] range[of "pay_payer_account p"] cc that by auto
  have "PSP_SUSPENSE_ACCOUNT_ID \<in> account_ids (db s1)" using kept cc by (simp add: ledger_kept_def account_ids_def)
  then have "\<exists>q t. resolve ?pid a ?s2 = (Inr q, t) \<and> constraints (db t)"
    using pe1 con h(1,8,12) susp payee payer fresh cnt ref p
    by (intro resolve_succeeds[where n = 0 and m = 0 and p = p]) (simp_all add: int64_def)
  moreover have "ledger_balanced (db s1)" using kept cc by (simp add: ledger_kept_def ledger_balanced_def)
  ultimately obtain r t where tx2: "transaction (create_settle env k req ?pid a) ?s2 = (Inr (201, r), t)"
    using create_settle_succeeds[of ?s2 req k "request_hash env req" ?pid a env] pe1 h(3) by auto
  have "create env mock_authorize k req s = (Inr (201, r), t)"
    by (simp add: create_def uuid4_def and_then_def tx1 psp tx2)
  then show ?thesis by blast
qed

section \<open>Requests on a used key\<close>

lemma create_rejected:
  assumes "claim_outcome (create_key (db s) req k) k (request_hash env req) = Inl e"
  shows "\<exists>t. create env psp k req s = (Inl e, t) \<and> db t = db s"
proof -
  let ?s0 = "s\<lparr>uuids_drawn := Suc (uuids_drawn s)\<rparr>"
  have "create_key (db (?s0\<lparr>pending := []\<rparr>)) req k \<noteq> Unused" using assms by auto
  from claim_used[OF this] assms
  have "create_hold env k req pid (?s0\<lparr>pending := []\<rparr>) = (Inl e, ?s0\<lparr>pending := []\<rparr>)" for pid
    by (simp add: create_hold_def and_then_def request_hash_def)
  from transaction_InlI[of "create_hold env k req pid" for pid, OF this] show ?thesis
    by (simp add: create_def and_then_def uuid4_def rollback_def)
qed

lemma create_replayed:
  assumes "create_key (db s) req k = Finished (request_hash env req) c b" and "constraints (db s)"
    and "load_payment env b = Inr r"
  shows "\<exists>t. create env psp k req s = (Inr (c, r), t) \<and> db t = db s"
proof -
  let ?s0 = "s\<lparr>uuids_drawn := Suc (uuids_drawn s), pending := []\<rparr>"
  have "create_key (db ?s0) req k \<noteq> Unused" using assms(1) by simp
  from claim_used[OF this] assms(1,3)
  have run: "create_hold env k req pid ?s0 = (Inr (Inl (c, r)), ?s0)" for pid
    by (simp add: create_hold_def and_then_def request_hash_def of_result_def ret_def)
  have "trg_ledger_balanced (db s) (db ?s0)" by (simp add: trg_ledger_balanced_def)
  with transaction_InrI[of "create_hold env k req pid" "s\<lparr>uuids_drawn := Suc (uuids_drawn s)\<rparr>" for pid, OF run]
  show ?thesis using assms(2) by (simp add: create_def and_then_def uuid4_def ret_def)
qed

section \<open>An instance of the parameters\<close>

text \<open>A codec that satisfies \<open>codec_ok\<close>, so that the law is not vacuous.\<close>

fun json_int :: "json \<Rightarrow> int" where
  "json_int (JInt i) = i"
| "json_int _ = 0"

fun json_str :: "json \<Rightarrow> string" where
  "json_str (JStr s) = s"
| "json_str _ = []"

definition uuid_json :: "UUID \<Rightarrow> json" where
  "uuid_json u = JInt (uint (uuid_int u))"

definition json_uuid :: "json \<Rightarrow> UUID" where
  "json_uuid j = UUID (word_of_int (json_int j))"

definition sample_dump_payment :: "PaymentResponse \<Rightarrow> json" where
  "sample_dump_payment r = JList [uuid_json (pres_id r), JStr (pres_merchantId r),
     uuid_json (pres_payerAccountId r), uuid_json (pres_payeeAccountId r), JInt (pres_amount r),
     JStr (pres_currency r), JStr (PaymentStatus_value (pres_status r)),
     (case pres_pspReference r of None \<Rightarrow> JNull | Some x \<Rightarrow> JStr x), JInt (pres_refundedAmount r),
     JInt (pres_createdAt r)]"

definition sample_load_payment :: "json \<Rightarrow> exn + PaymentResponse" where
  "sample_load_payment j = (case j of JList xs \<Rightarrow>
       (case find (\<lambda>v. PaymentStatus_value v = json_str (xs ! 6)) [PaymentStatus.CREATED,
          PaymentStatus.PROCESSING, PaymentStatus.AUTHORIZED, PaymentStatus.SUCCEEDED,
          PaymentStatus.FAILED, FUNDS_LOCKED, REFUND_PENDING, REFUNDED] of
          None \<Rightarrow> Inl ValidationError
        | Some v \<Rightarrow> Inr \<lparr>pres_id = json_uuid (xs ! 0), pres_merchantId = json_str (xs ! 1),
            pres_payerAccountId = json_uuid (xs ! 2), pres_payeeAccountId = json_uuid (xs ! 3),
            pres_amount = json_int (xs ! 4), pres_currency = json_str (xs ! 5), pres_status = v,
            pres_pspReference = (case xs ! 7 of JStr x \<Rightarrow> Some x | _ \<Rightarrow> None),
            pres_refundedAmount = json_int (xs ! 8), pres_createdAt = json_int (xs ! 9)\<rparr>)
     | _ \<Rightarrow> Inl ValidationError)"

definition sample_dump_refund :: "RefundResponse \<Rightarrow> json" where
  "sample_dump_refund r = JList [uuid_json (rres_id r), uuid_json (rres_paymentId r), JInt (rres_amount r),
     JStr (RefundStatus_value (rres_status r)), JInt (rres_createdAt r)]"

definition sample_load_refund :: "json \<Rightarrow> exn + RefundResponse" where
  "sample_load_refund j = (case j of JList xs \<Rightarrow>
       (case find (\<lambda>v. RefundStatus_value v = json_str (xs ! 3)) [RefundStatus.PENDING,
          RefundStatus.SUCCEEDED, RefundStatus.FAILED] of
          None \<Rightarrow> Inl ValidationError
        | Some v \<Rightarrow> Inr \<lparr>rres_id = json_uuid (xs ! 0), rres_paymentId = json_uuid (xs ! 1),
            rres_amount = json_int (xs ! 2), rres_status = v, rres_createdAt = json_int (xs ! 4)\<rparr>)
     | _ \<Rightarrow> Inl ValidationError)"

text \<open>\<open>model_dump(mode="json")\<close> of a request: its fields, identifiers as text.\<close>

definition model_dump :: "CreatePaymentRequest \<Rightarrow> json" where
  "model_dump r = JObj [(''merchantId'', JStr (req_merchantId r)),
     (''payerAccountId'', JStr (str_uuid (req_payerAccountId r))),
     (''payeeAccountId'', JStr (str_uuid (req_payeeAccountId r))), (''amount'', JInt (req_amount r)),
     (''currency'', JStr (req_currency r))]"

definition sample_env :: env where
  "sample_env = \<lparr>redis_lock = None,
     dump_request = model_dump,
     dump_payment = sample_dump_payment, load_payment = sample_load_payment,
     dump_refund = sample_dump_refund, load_refund = sample_load_refund\<rparr>"

definition sample_request :: "int \<Rightarrow> CreatePaymentRequest" where
  "sample_request x = \<lparr>req_merchantId = ''m'', req_payerAccountId = UUID 3, req_payeeAccountId = UUID 4,
     req_amount = x, req_currency = ''INR''\<rparr>"

lemma json_uuid_json [simp]: "json_uuid (uuid_json u) = u"
  by (simp add: json_uuid_def uuid_json_def)

lemma sample_payment_codec: "sample_load_payment (sample_dump_payment r) = Inr r"
  by (cases "pres_status r"; cases "pres_pspReference r"; cases r)
    (simp_all add: sample_load_payment_def sample_dump_payment_def)

lemma sample_refund_codec: "sample_load_refund (sample_dump_refund r) = Inr r"
  by (cases "rres_status r"; cases r) (simp_all add: sample_load_refund_def sample_dump_refund_def)

lemma sample_dumps_truthy: "truthy (sample_dump_payment r)" "truthy (sample_dump_refund r')"
  by (simp_all add: sample_dump_payment_def sample_dump_refund_def)

lemma sample_env_codec: "codec_ok sample_env"
  by (simp add: codec_ok_def sample_env_def sample_payment_codec sample_refund_codec sample_dumps_truthy)

lemma sample_can_create:
  "0 < x \<Longrightarrow> x \<le> 1000 \<Longrightarrow> can_create sample_env ''k'' (sample_request x) sample_world"
proof -
  assume x: "0 < x" "x \<le> 1000"
  have "counters_ok 4 sample_world"
    by (simp add: counters_ok_def sample_world_def sample_db_def upgrade_def empty_database_def)
  moreover have "key_room sample_world"
    by (simp add: key_room_def sample_world_def sample_db_def upgrade_def empty_database_def int64_def)
  moreover have "ledger_balanced sample_db"
    by (simp add: ledger_balanced_def transaction_net_def sample_db_def upgrade_def empty_database_def)
  moreover have "{UUID 3, UUID 4, UUID 1} \<subseteq> account_ids sample_db"
    by (simp add: account_ids_def sample_db_def upgrade_def)
  moreover have "key_state sample_db ''m'' ''k'' = Unused" "payments sample_db = []"
    by (simp_all add: key_state_def sample_db_def upgrade_def empty_database_def)
  ultimately show ?thesis using x sample_fresh sample_db_constraints sample_balances
    by (simp add: can_create_def can_serve_def sample_request_def PSP_SUSPENSE_ACCOUNT_ID_def int64_def)
qed

section \<open>Properties\<close>

definition mock_status :: "int \<Rightarrow> PaymentStatus" where
  "mock_status x = (if x = 40001 then PaymentStatus.FAILED
     else if x = 40002 then PaymentStatus.AUTHORIZED else PaymentStatus.SUCCEEDED)"

lemma mock_outcome:
  "mock_authorize p s = (Inr a, t) \<Longrightarrow> resolved_status (ar_outcome a) = mock_status (pay_amount p)"
  by (auto simp: mock_authorize_def mock_status_def and_then_Inr_iff declined_def captured_def
      pending_result_def split: if_splits)

lemma create_Inr_constraints:
  assumes "create env psp k req s = (Inr x, t)"
  shows "constraints (db t)"
proof -
  from assms obtain y s1 where y: "transaction (create_hold env k req (uuid_source s (uuids_drawn s)))
      (s\<lparr>uuids_drawn := Suc (uuids_drawn s)\<rparr>) = (Inr y, s1)"
    and rest: "(case y of Inl replay \<Rightarrow> ret replay | Inr payment \<Rightarrow> and_then (psp payment) (\<lambda>a.
      transaction (create_settle env k req (uuid_source s (uuids_drawn s)) a))) s1 = (Inr x, t)"
    by (auto simp: create_def and_then_Inr_iff)
  from y have "constraints (db s1)" by (rule transaction_Inr)
  with rest show ?thesis by (cases y) (auto simp: and_then_Inr_iff elim: transaction_Inr)
qed

text \<open>The example request on the example state, with the mock provider.\<close>

lemma sample_create:
  obtains r t where "create sample_env mock_authorize ''k'' (sample_request 300) sample_world = (Inr (201, r), t)"
  using create_mock_succeeds[of sample_world sample_env "''k''" "sample_request 300"] sample_can_create[of 300]
  by auto

lemma sample_key: "key_state (db sample_world) (req_merchantId (sample_request x)) ''k'' = Unused"
  by (simp add: key_state_def sample_request_def sample_db_def upgrade_def empty_database_def)

text \<open>
  C16. A payment moves the money its answer reports. For every provider, a call of
  \<open>PaymentService.create\<close> with a new idempotency key that returns, returns 201 with the terms of the
  request and the status SUCCEEDED, FAILED or AUTHORIZED; over the whole call the amount has moved
  from payer to payee when it SUCCEEDED, from payer to suspense when it is AUTHORIZED, and no
  account has changed when it FAILED.
\<close>

theorem create_moves_funds:
  assumes "payment_provider psp" and "codec_ok env"
    and "key_state (db s) (req_merchantId req) k = Unused"
    and "create env psp k req s = (Inr (c, r), t)"
  shows "c = 201 \<and>
    pres_status r \<in> {PaymentStatus.SUCCEEDED, PaymentStatus.FAILED, PaymentStatus.AUTHORIZED} \<and>
    pres_amount r = req_amount req \<and> pres_payerAccountId r = req_payerAccountId req \<and>
    pres_payeeAccountId r = req_payeeAccountId req \<and>
    (\<forall>a. balance (db t) a = balance (db s) a +
       moved (pres_status r) (req_payerAccountId req) (req_payeeAccountId req) (req_amount req) a)"
proof -
  have *: "resolved_status x \<in> {PaymentStatus.SUCCEEDED, PaymentStatus.FAILED, PaymentStatus.AUTHORIZED}" for x
    by (cases x) simp_all
  from assms(4,1,2,3) show ?thesis by (rule create_Inr) (use * in auto)
qed

theorem create_moves_funds_witness:
  "\<exists>c r t. create sample_env mock_authorize ''k'' (sample_request 300) sample_world = (Inr (c, r), t) \<and>
     pres_amount r = 300 \<and>
     (\<forall>a. balance (db t) a = balance sample_db a + moved (pres_status r) (UUID 3) (UUID 4) 300 a)"
proof -
  obtain r t where "create sample_env mock_authorize ''k'' (sample_request 300) sample_world = (Inr (201, r), t)"
    by (rule sample_create)
  with create_moves_funds[OF mock.payment_provider_axioms sample_env_codec sample_key this] show ?thesis
    by (auto simp: sample_request_def)
qed

text \<open>
  C32. With the mock provider a payment that can be served is served: when the accounts exist, the
  payer has the funds, the key is new, and identifiers and counters have room, \<open>create\<close> returns 201,
  and the amount alone decides the status (40001 is declined, 40002 is pending, any other captured).
\<close>

theorem create_mock_returns:
  assumes "pending s = []" and "can_create env k req s" and "codec_ok env"
  shows "\<exists>r t. create env mock_authorize k req s = (Inr (201, r), t) \<and> pres_status r = mock_status (req_amount req)"
proof -
  from create_mock_succeeds[OF assms(1,2)] obtain r t
    where c: "create env mock_authorize k req s = (Inr (201, r), t)" by blast
  from c mock.payment_provider_axioms assms(3) obtain a p s1 s2
    where "pres_status r = resolved_status (ar_outcome a)" "mock_authorize p s1 = (Inr a, s2)"
      "pay_amount p = req_amount req"
    by (rule create_Inr) (use assms(2) in \<open>auto simp: can_create_def can_serve_def\<close>)
  with c mock_outcome show ?thesis by metis
qed

theorem create_mock_returns_witness:
  "\<exists>r t. create sample_env mock_authorize ''k'' (sample_request 300) sample_world = (Inr (201, r), t) \<and>
     pres_status r = PaymentStatus.SUCCEEDED"
  using create_mock_returns[OF _ sample_can_create sample_env_codec, of 300]
  by (simp add: mock_status_def sample_request_def)

lemma create_again:
  assumes "payment_provider psp" and "codec_ok env"
    and "key_state (db s) (req_merchantId req) k = Unused"
    and "create env psp k req s = (Inr (c, r), t)"
    and "key_state (db u) (req_merchantId req) k = key_state (db t) (req_merchantId req) k"
    and "constraints (db u)"
  shows "\<exists>u'. create env psp' k req u = (Inr (c, r), u') \<and> db u' = db u"
proof -
  from assms(4,1,2,3) have "key_state (db t) (req_merchantId req) k =
      Finished (request_hash env req) c (dump_payment env r)"
    by (rule create_Inr) simp
  with assms(5) have "key_state (db u) (req_merchantId req) k =
      Finished (request_hash env req) c (dump_payment env r)" by simp
  then show ?thesis using assms(6) by (rule create_replayed) (use assms(2) in \<open>simp add: codec_ok_def\<close>)
qed

text \<open>
  Exactly once: after a call of \<open>create\<close> returned, a repetition of the same request under the same
  idempotency key, at any later state in which the key's record is still there and with any
  provider, returns the same status code and body and changes no table.
\<close>

lemma create_exactly_once:
  assumes "payment_provider psp" and "codec_ok env"
    and "key_state (db s) (req_merchantId req) k = Unused"
    and "create env psp k req s = (Inr (c, r), t)"
    and "key_state (db u) (req_merchantId req) k = key_state (db t) (req_merchantId req) k"
    and "constraints (db u)"
  shows "\<exists>u'. create env psp' k req u = (Inr (c, r), u') \<and> db u' = db u"
  using assms by (rule create_again)

lemma create_exactly_once_witness:
  "\<exists>r t u. create sample_env mock_authorize ''k'' (sample_request 300) sample_world = (Inr (201, r), t) \<and>
     create sample_env mock_authorize ''k'' (sample_request 300) t = (Inr (201, r), u) \<and> db u = db t"
proof -
  obtain r t where c: "create sample_env mock_authorize ''k'' (sample_request 300) sample_world = (Inr (201, r), t)"
    by (rule sample_create)
  from create_exactly_once[OF mock.payment_provider_axioms sample_env_codec sample_key c refl
      create_Inr_constraints[OF c]] c show ?thesis by blast
qed

text \<open>
  What \<open>create\<close> answered is what \<open>get_payment\<close> shows for the identifier in the answer.
\<close>

lemma create_then_get:
  assumes "payment_provider psp" and "codec_ok env"
    and "key_state (db s) (req_merchantId req) k = Unused"
    and "create env psp k req s = (Inr (c, r), t)"
  shows "get_payment (pres_id r) t = (Inr r, t)"
proof -
  from assms(4,1,2,3) obtain q where "row_of pay_id (pres_id r) (payments (db t)) = Some q" "r = to_response q"
    by (rule create_Inr) blast
  then show ?thesis by (simp add: get_payment_def select_payment_def ret_def)
qed

lemma create_then_get_witness:
  "\<exists>c r t. create sample_env mock_authorize ''k'' (sample_request 300) sample_world = (Inr (c, r), t) \<and>
     get_payment (pres_id r) t = (Inr r, t)"
proof -
  obtain r t where c: "create sample_env mock_authorize ''k'' (sample_request 300) sample_world = (Inr (201, r), t)"
    by (rule sample_create)
  from create_then_get[OF mock.payment_provider_axioms sample_env_codec sample_key c] c show ?thesis by blast
qed

text \<open>
  An idempotency key binds its request: while a key is claimed or finished for one request, a
  request with another digest under it is refused with IdempotencyMismatchException, a repetition of
  a request still in progress with IdempotencyConflictException, and neither changes any table.
\<close>

lemma create_refuses_reused_key:
  assumes "key_state (db s) (req_merchantId req) k \<in> {Claimed h, Finished h c b}"
    and "h \<noteq> request_hash env req \<or> key_state (db s) (req_merchantId req) k = Claimed h"
  shows "\<exists>t. create env psp k req s =
    (Inl (if h = request_hash env req then IdempotencyConflictException k
          else IdempotencyMismatchException k), t) \<and> db t = db s"
  using assms by (auto intro!: create_rejected)

lemma create_refuses_reused_key_witness:
  "\<exists>t. create sample_env mock_authorize ''k'' (sample_request 300)
     (sample_world\<lparr>db := sample_db\<lparr>idempotency_keys := [\<lparr>idem_id = 1, idem_merchant_id = ''m'', idem_idem_key = ''k'',
        idem_request_hash = ''other'', idem_status = IN_PROGRESS, idem_resource_id = None, idem_response_code = None,
        idem_response_body = None, idem_created_at = 0\<rparr>]\<rparr>\<rparr>) = (Inl (IdempotencyMismatchException ''k''), t)"
  (is "\<exists>t. create _ _ _ _ ?s = _")
proof -
  have m: "req_merchantId (sample_request 300) = ''m''" by (simp add: sample_request_def)
  have k: "key_state (db ?s) (req_merchantId (sample_request 300)) ''k'' = Claimed ''other''"
    by (simp add: m key_state_def idem_scope_def record_state_def)
  have "length ''other'' \<noteq> length (request_hash sample_env (sample_request 300))"
    by (simp add: request_hash_def)
  then have "''other'' \<noteq> request_hash sample_env (sample_request 300)" by metis
  with create_refuses_reused_key[of ?s "sample_request 300" "''k''" "''other''" 0 JNull sample_env mock_authorize] k
  show ?thesis by auto
qed

text \<open>A payer without the funds is refused, and the call leaves no trace.\<close>

lemma create_insufficient_funds:
  assumes "pending s = []" and "can_serve env k req s"
    and "balance (db s) (req_payerAccountId req) < req_amount req"
  shows "\<exists>t. create env psp k req s = (Inl (InsufficientFundsException (req_payerAccountId req)
    (balance (db s) (req_payerAccountId req)) (req_amount req)), t) \<and> db t = db s"
proof -
  let ?s0 = "s\<lparr>uuids_drawn := Suc (uuids_drawn s)\<rparr>"
  let ?e = "InsufficientFundsException (req_payerAccountId req) (balance (db s) (req_payerAccountId req)) (req_amount req)"
  have "fst (transaction (create_hold env k req (uuid_source s (uuids_drawn s))) ?s0) = Inl ?e"
    using create_hold_insufficient[of ?s0 env k req] assms by simp
  then obtain t where t: "transaction (create_hold env k req (uuid_source s (uuids_drawn s))) ?s0 = (Inl ?e, t)"
    by (metis prod.collapse)
  with transaction_Inl_db[OF t] show ?thesis by (simp add: create_def and_then_def uuid4_def)
qed

text \<open>
  C23. A gateway error strands a payment: when Stripe answers with an error after the hold, \<open>create\<close>
  raises RuntimeError, the payment stays PROCESSING with its amount in the suspense account and the
  key stays claimed, so that every repetition of the request is refused with a conflict and no
  table changes.
\<close>

theorem create_gateway_error:
  assumes "api_key \<noteq> []"
    and "transaction (create_hold env k req (uuid_source s (uuids_drawn s)))
      (s\<lparr>uuids_drawn := Suc (uuids_drawn s)\<rparr>) = (Inr (Inr p), t)"
  shows "create env (stripe_authorize api_key (\<lambda>_. StripeError (Some m))) k req s =
      (Inl (RuntimeError (''Stripe gateway error: '' @ m)), t) \<and>
    row_of pay_id (pay_id p) (payments (db t)) = Some p \<and> pay_status p = PaymentStatus.PROCESSING \<and>
    (\<forall>a. balance (db t) a = balance (db s) a + moved PaymentStatus.PROCESSING (req_payerAccountId req)
      (req_payeeAccountId req) (req_amount req) a) \<and>
    (\<exists>u. create env psp k req t = (Inl (IdempotencyConflictException k), u) \<and> db u = db t)"
proof -
  note h = create_hold_row[OF assms(2)]
  have "\<exists>u. create env psp k req t = (Inl (IdempotencyConflictException k), u) \<and> db u = db t"
    by (rule create_rejected) (simp add: h(3))
  moreover have "create env (stripe_authorize api_key (\<lambda>_. StripeError (Some m))) k req s =
      (Inl (RuntimeError (''Stripe gateway error: '' @ m)), t)"
    using assms by (simp add: create_def and_then_def uuid4_def stripe_authorize_def raise_def)
  ultimately show ?thesis using h(1,4,5) h(10) by simp
qed

theorem create_gateway_error_witness:
  "\<exists>t p. create sample_env (stripe_authorize ''sk'' (\<lambda>_. StripeError (Some ''down''))) ''k'' (sample_request 300)
     sample_world = (Inl (RuntimeError ''Stripe gateway error: down''), t) \<and>
     pay_status p = PaymentStatus.PROCESSING \<and> p \<in> set (payments (db t)) \<and>
     fst (create sample_env mock_authorize ''k'' (sample_request 300) t) = Inl (IdempotencyConflictException ''k'')"
proof -
  let ?s0 = "sample_world\<lparr>uuids_drawn := Suc (uuids_drawn sample_world)\<rparr>"
  have same: "sample_world\<lparr>uuids_drawn := 0\<rparr> = sample_world" by (simp add: sample_world_def)
  obtain p t where "transaction (create_hold sample_env ''k'' (sample_request 300)
      (uuid_source sample_world (uuids_drawn sample_world))) ?s0 = (Inr (Inr p), t)"
    using create_hold_succeeds[of ?s0 sample_env "''k''" "sample_request 300" "UUID 100"] sample_can_create[of 300]
    by (auto simp: same)
  from create_gateway_error[OF _ this, of "''sk''" "''down''" mock_authorize] show ?thesis
    by (auto dest: row_of_SomeD)
qed

end
