(* ===== verification/Book.thy ===== *)
theory Book
  imports Payments
begin

text \<open>
  The abstract payment book: what the payment service, the refund service, the webhook service and
  the reconciliation service together may do to payments, balances and refunds. A book event is one
  hold, one resolution of a held payment or one refund; no other change is allowed. The invariants of
  the book are proved once here, for every system that refines it (\<open>book_refinement\<close>); the engine is
  shown to do so in \<open>System\<close>.
\<close>

section \<open>The book and its events\<close>

record book =
  bk_payments :: "Payment list"
  bk_balance :: "UUID \<Rightarrow> int"
  bk_refunds :: "Refund list"

definition book_of :: "database \<Rightarrow> book" where
  "book_of d = \<lparr>bk_payments = payments d, bk_balance = balance d, bk_refunds = refunds d\<rparr>"

abbreviation payment_in :: "book \<Rightarrow> UUID \<Rightarrow> Payment option" where
  "payment_in b i \<equiv> row_of pay_id i (bk_payments b)"

text \<open>
  A payment that is PROCESSING may be resolved only by the request that created it: \<open>F\<close> are the
  identifiers whose requests may act.
\<close>

inductive book_event :: "UUID set \<Rightarrow> book \<Rightarrow> book \<Rightarrow> bool" for F where
  held: "pay_status p = PaymentStatus.PROCESSING \<Longrightarrow> pay_refunded_amount p = 0 \<Longrightarrow> 0 < pay_amount p \<Longrightarrow>
    pay_id p \<notin> pay_id ` set (bk_payments b) \<Longrightarrow> pay_amount p \<le> bk_balance b (pay_payer_account p) \<Longrightarrow>
    book_event F b (b\<lparr>bk_payments := bk_payments b @ [p],
      bk_balance := (\<lambda>a. bk_balance b a + (if a = PSP_SUSPENSE_ACCOUNT_ID then pay_amount p else 0) -
        (if a = pay_payer_account p then pay_amount p else 0))\<rparr>)"
| resolved: "payment_in b i = Some p \<Longrightarrow>
    pay_status p = PaymentStatus.AUTHORIZED \<and> out \<noteq> AuthorizationOutcome.PENDING \<or>
      pay_status p = PaymentStatus.PROCESSING \<and> i \<in> F \<Longrightarrow>
    same_terms p q \<Longrightarrow> pay_refunded_amount q = pay_refunded_amount p \<Longrightarrow> pay_status q = resolved_status out \<Longrightarrow>
    book_event F b (b\<lparr>bk_payments := set_row pay_id i (\<lambda>_. q) (bk_payments b),
      bk_balance := (\<lambda>a. bk_balance b a + resolved_transfer out p a)\<rparr>)"
| refunded: "payment_in b i = Some p \<Longrightarrow>
    pay_status p \<in> {PaymentStatus.SUCCEEDED, PaymentStatus.REFUND_PENDING} \<Longrightarrow> 0 < x \<Longrightarrow>
    pay_refunded_amount p + x \<le> pay_amount p \<Longrightarrow> same_terms p q \<Longrightarrow>
    pay_refunded_amount q = pay_refunded_amount p + x \<Longrightarrow>
    pay_status q = (if pay_refunded_amount p + x = pay_amount p then PaymentStatus.REFUNDED else pay_status p) \<Longrightarrow>
    rfd_payment_id rf = i \<Longrightarrow> rfd_amount rf = x \<Longrightarrow>
    book_event F b (b\<lparr>bk_payments := set_row pay_id i (\<lambda>_. q) (bk_payments b),
      bk_balance := (\<lambda>a. bk_balance b a + (if a = pay_payer_account p then x else 0) -
        (if a = pay_payee_account p then x else 0)),
      bk_refunds := bk_refunds b @ [rf]\<rparr>)"

abbreviation book_run :: "UUID set \<Rightarrow> book \<Rightarrow> book \<Rightarrow> bool" where
  "book_run F \<equiv> (book_event F)\<^sup>*\<^sup>*"

lemma book_event_mono: "book_event F b b' \<Longrightarrow> F \<subseteq> G \<Longrightarrow> book_event G b b'"
  by (induction rule: book_event.induct) (blast intro: book_event.intros)+

lemma book_run_mono: "book_run F b b' \<Longrightarrow> F \<subseteq> G \<Longrightarrow> book_run G b b'"
  by (induction rule: rtranclp_induct) (auto intro: rtranclp.rtrancl_into_rtrancl book_event_mono)

section \<open>The life of a payment\<close>

fun leads_to :: "PaymentStatus \<Rightarrow> PaymentStatus \<Rightarrow> bool" where
  "leads_to PaymentStatus.PROCESSING st \<longleftrightarrow> st \<in> {PaymentStatus.PROCESSING, PaymentStatus.AUTHORIZED,
     PaymentStatus.SUCCEEDED, PaymentStatus.FAILED, PaymentStatus.REFUNDED}"
| "leads_to PaymentStatus.AUTHORIZED st \<longleftrightarrow> st \<in> {PaymentStatus.AUTHORIZED, PaymentStatus.SUCCEEDED,
     PaymentStatus.FAILED, PaymentStatus.REFUNDED}"
| "leads_to PaymentStatus.SUCCEEDED st \<longleftrightarrow> st \<in> {PaymentStatus.SUCCEEDED, PaymentStatus.REFUNDED}"
| "leads_to PaymentStatus.REFUND_PENDING st \<longleftrightarrow> st \<in> {PaymentStatus.REFUND_PENDING, PaymentStatus.REFUNDED}"
| "leads_to other st \<longleftrightarrow> st = other"

lemma leads_to_refl [simp]: "leads_to st st"
  by (cases st) simp_all

lemma leads_to_trans: "leads_to a b \<Longrightarrow> leads_to b c \<Longrightarrow> leads_to a c"
  by (cases a; cases b) auto

text \<open>What one payment may look like later.\<close>

definition later :: "Payment \<Rightarrow> Payment \<Rightarrow> bool" where
  "later p q \<longleftrightarrow> same_terms p q \<and> leads_to (pay_status p) (pay_status q) \<and>
     pay_refunded_amount p \<le> pay_refunded_amount q \<and>
     (pay_status p \<in> {PaymentStatus.FAILED, PaymentStatus.REFUNDED} \<longrightarrow> q = p)"

lemma later_refl [simp]: "later p p"
  by (simp add: later_def)

lemma later_trans: "later p q \<Longrightarrow> later q r \<Longrightarrow> later p r"
  unfolding later_def same_terms_def by (auto intro: leads_to_trans)

lemma resolved_later:
  assumes "pay_status p = PaymentStatus.AUTHORIZED \<and> out \<noteq> AuthorizationOutcome.PENDING \<or>
      pay_status p = PaymentStatus.PROCESSING"
    and "same_terms p q" and "pay_refunded_amount q = pay_refunded_amount p" and "pay_status q = resolved_status out"
  shows "later p q"
  using assms by (cases out) (auto simp: later_def)

lemma refunded_later:
  assumes "pay_status p \<in> {PaymentStatus.SUCCEEDED, PaymentStatus.REFUND_PENDING}" and "0 < x"
    and "same_terms p q" and "pay_refunded_amount q = pay_refunded_amount p + x"
    and "pay_status q = (if pay_refunded_amount p + x = pay_amount p then PaymentStatus.REFUNDED else pay_status p)"
  shows "later p q"
  using assms by (auto simp: later_def)

lemma row_of_replace_cases:
  assumes "row_of key i rows = Some p" and "key q = i" and "row_of key j rows = Some p'"
  shows "row_of key j (set_row key i (\<lambda>_. q) rows) = Some (if j = i then q else p')"
  using row_of_replaced[OF assms(1,2)] row_of_other[of j i key q rows] assms by auto

lemma same_terms_id: "row_of pay_id i rows = Some p \<Longrightarrow> same_terms p q \<Longrightarrow> pay_id q = i"
  by (auto simp: same_terms_def dest: row_of_SomeD)

lemma event_row:
  assumes "book_event F b b'" and "payment_in b j = Some p"
  obtains q where "payment_in b' j = Some q" and "later p q"
    and "q = p \<or> pay_status p \<noteq> PaymentStatus.PROCESSING \<or> j \<in> F"
  using assms(1)
proof cases
  case (held p')
  with assms(2) show thesis by (intro that[of p]) (simp_all add: row_of_append)
next
  case (resolved i p' out q)
  note row = row_of_replace_cases[OF resolved(2) same_terms_id[OF resolved(2,4)] assms(2)]
  from resolved(3) have l: "later p' q" using resolved(4-6) by (auto intro: resolved_later)
  show thesis
  proof (cases "j = i")
    case True
    with assms(2) resolved(2) have "p' = p" by simp
    with True row l resolved(1,3) show thesis by (intro that[of q]) auto
  next
    case False
    with row resolved(1) show thesis by (intro that[of p]) simp_all
  qed
next
  case (refunded i p' x q rf)
  note row = row_of_replace_cases[OF refunded(2) same_terms_id[OF refunded(2,6)] assms(2)]
  have l: "later p' q" using refunded(3,4,6-8) by (rule refunded_later)
  show thesis
  proof (cases "j = i")
    case True
    with assms(2) refunded(2) have "p' = p" by simp
    with True row l refunded(1,3) show thesis by (intro that[of q]) auto
  next
    case False
    with row refunded(1) show thesis by (intro that[of p]) simp_all
  qed
qed

lemma run_row:
  assumes "book_run F b b'" and "payment_in b j = Some p"
  obtains q where "payment_in b' j = Some q" and "later p q"
    and "q = p \<or> pay_status p \<noteq> PaymentStatus.PROCESSING \<or> j \<in> F"
  using assms(1)
proof (induction arbitrary: thesis rule: rtranclp_induct)
  case base
  with assms(2) show ?case by simp
next
  case (step b1 b2)
  obtain q where q: "payment_in b1 j = Some q" "later p q"
    "q = p \<or> pay_status p \<noteq> PaymentStatus.PROCESSING \<or> j \<in> F" by (rule step.IH)
  obtain r where r: "payment_in b2 j = Some r" "later q r"
    "r = q \<or> pay_status q \<noteq> PaymentStatus.PROCESSING \<or> j \<in> F" by (rule event_row[OF step.hyps(2) q(1)])
  from r(1) show ?case
  proof (rule step.prems)
    show "later p r" using q(2) r(2) by (rule later_trans)
    show "r = p \<or> pay_status p \<noteq> PaymentStatus.PROCESSING \<or> j \<in> F" using q(3) r(3) by auto
  qed
qed

section \<open>Refunds add up\<close>

definition refunds_of :: "book \<Rightarrow> UUID \<Rightarrow> int" where
  "refunds_of b i = sum_list (map rfd_amount (filter (\<lambda>r. rfd_payment_id r = i) (bk_refunds b)))"

definition payment_ok :: "book \<Rightarrow> Payment \<Rightarrow> bool" where
  "payment_ok b p \<longleftrightarrow> 0 < pay_amount p \<and> pay_refunded_amount p = refunds_of b (pay_id p) \<and>
     0 \<le> pay_refunded_amount p \<and> pay_refunded_amount p \<le> pay_amount p \<and>
     (pay_status p = PaymentStatus.REFUNDED \<longleftrightarrow> pay_refunded_amount p = pay_amount p) \<and>
     (0 < pay_refunded_amount p \<longrightarrow>
        pay_status p \<in> {PaymentStatus.SUCCEEDED, PaymentStatus.REFUND_PENDING, PaymentStatus.REFUNDED})"

definition book_ok :: "book \<Rightarrow> bool" where
  "book_ok b \<longleftrightarrow> distinct (map pay_id (bk_payments b)) \<and>
     rfd_payment_id ` set (bk_refunds b) \<subseteq> pay_id ` set (bk_payments b) \<and>
     (\<forall>p \<in> set (bk_payments b). payment_ok b p)"

lemma refunds_of_append:
  "bk_refunds b' = bk_refunds b @ [rf] \<Longrightarrow>
     refunds_of b' i = refunds_of b i + (if rfd_payment_id rf = i then rfd_amount rf else 0)"
  by (simp add: refunds_of_def)

lemma refunds_of_none: "i \<notin> rfd_payment_id ` set (bk_refunds b) \<Longrightarrow> refunds_of b i = 0"
proof -
  assume "i \<notin> rfd_payment_id ` set (bk_refunds b)"
  then have "filter (\<lambda>r. rfd_payment_id r = i) (bk_refunds b) = []" by (auto simp: filter_empty_conv)
  then show ?thesis by (simp add: refunds_of_def)
qed

lemma refunds_of_cong: "bk_refunds b' = bk_refunds b \<Longrightarrow> refunds_of b' i = refunds_of b i"
  by (simp add: refunds_of_def)

lemma book_ok_replace:
  assumes "book_ok b" and "payment_in b i = Some p" and "same_terms p q"
    and "bk_payments b' = set_row pay_id i (\<lambda>_. q) (bk_payments b)"
    and "rfd_payment_id ` set (bk_refunds b') \<subseteq> insert i (rfd_payment_id ` set (bk_refunds b))"
    and "\<And>j. j \<noteq> i \<Longrightarrow> refunds_of b' j = refunds_of b j" and "payment_ok b' q"
  shows "book_ok b'"
proof -
  have dist: "distinct (map pay_id (bk_payments b))" using assms(1) by (simp add: book_ok_def)
  have qi: "pay_id q = i" using assms(2,3) by (rule same_terms_id)
  have pi: "p \<in> set (bk_payments b)" "pay_id p = i" using assms(2) by (auto dest: row_of_SomeD)
  have set': "set (bk_payments b') = insert q {x \<in> set (bk_payments b). pay_id x \<noteq> i}"
    using set_set_row[OF dist assms(2)] assms(4) by simp
  have "map pay_id (bk_payments b') = map pay_id (bk_payments b)"
    unfolding assms(4) by (auto simp: set_row_def qi)
  then have "distinct (map pay_id (bk_payments b'))" and ids: "pay_id ` set (bk_payments b') = pay_id ` set (bk_payments b)"
    using dist by (simp, metis list.set_map)
  moreover have "rfd_payment_id ` set (bk_refunds b') \<subseteq> pay_id ` set (bk_payments b')"
  proof -
    have "rfd_payment_id ` set (bk_refunds b) \<subseteq> pay_id ` set (bk_payments b)" using assms(1) by (simp add: book_ok_def)
    moreover have "i \<in> pay_id ` set (bk_payments b)" using pi by blast
    ultimately show ?thesis using assms(5) unfolding ids by blast
  qed
  moreover have "payment_ok b' x" if "x \<in> set (bk_payments b)" "pay_id x \<noteq> i" for x
    using assms(1) that assms(6)[OF that(2)] by (auto simp: book_ok_def payment_ok_def)
  ultimately show ?thesis using assms(7) by (auto simp: book_ok_def set')
qed

lemma event_ok:
  assumes "book_event F b b'" and "book_ok b"
  shows "book_ok b'"
  using assms(1)
proof cases
  case (held p)
  have r: "refunds_of b' i = refunds_of b i" for i by (simp add: held(1) refunds_of_def)
  have "refunds_of b (pay_id p) = 0" using assms(2) held(5) by (intro refunds_of_none) (auto simp: book_ok_def)
  then have "payment_ok b' p" using held(2-4) by (simp add: payment_ok_def r)
  moreover have "payment_ok b' x" if "x \<in> set (bk_payments b)" for x
    using assms(2) that by (auto simp: book_ok_def payment_ok_def r)
  ultimately show ?thesis using assms(2) held(1,5) by (auto simp: book_ok_def)
next
  case (resolved i p out q)
  have "p \<in> set (bk_payments b)" using resolved(2) by (auto dest: row_of_SomeD)
  with assms(2) have "payment_ok b p" by (simp add: book_ok_def)
  then have "payment_ok b' q" using resolved(3-6)
    by (cases out) (auto simp: payment_ok_def same_terms_def resolved(1) refunds_of_def)
  then show ?thesis
    by (intro book_ok_replace[OF assms(2) resolved(2,4)]) (auto simp: resolved(1) refunds_of_def)
next
  case (refunded i p x q rf)
  have pi: "p \<in> set (bk_payments b)" "pay_id p = i" using refunded(2) by (auto dest: row_of_SomeD)
  with assms(2) have ok: "payment_ok b p" by (simp add: book_ok_def)
  have r: "refunds_of b' j = refunds_of b j + (if i = j then x else 0)" for j
    using refunds_of_append[of b' b rf] refunded(1,9,10) by simp
  have "payment_ok b' q" using ok refunded(3-8) pi
    by (auto simp: payment_ok_def same_terms_def r)
  then show ?thesis
    by (intro book_ok_replace[OF assms(2) refunded(2,6)]) (auto simp: refunded(1,9) r[unfolded refunded(1)])
qed

lemma run_ok: "book_run F b b' \<Longrightarrow> book_ok b \<Longrightarrow> book_ok b'"
  by (induction rule: rtranclp_induct) (auto intro: event_ok)

section \<open>The suspense account holds what is held\<close>

definition holding :: "Payment \<Rightarrow> bool" where
  "holding p \<longleftrightarrow> pay_status p \<in> {PaymentStatus.PROCESSING, PaymentStatus.AUTHORIZED}"

definition held_total :: "book \<Rightarrow> int" where
  "held_total b = sum_list (map (\<lambda>p. if holding p then pay_amount p else 0) (bk_payments b))"

text \<open>Money in suspense beyond what the holding payments account for.\<close>

definition unaccounted :: "book \<Rightarrow> int" where
  "unaccounted b = bk_balance b PSP_SUSPENSE_ACCOUNT_ID - held_total b"

definition suspense_apart :: "book \<Rightarrow> bool" where
  "suspense_apart b \<longleftrightarrow> (\<forall>p \<in> set (bk_payments b).
     pay_payer_account p \<noteq> PSP_SUSPENSE_ACCOUNT_ID \<and> pay_payee_account p \<noteq> PSP_SUSPENSE_ACCOUNT_ID)"

lemma event_apart_back:
  assumes "book_event F b b'" and "suspense_apart b'" and "book_ok b"
  shows "suspense_apart b"
  unfolding suspense_apart_def
proof
  fix p
  assume p: "p \<in> set (bk_payments b)"
  with assms(3) have "payment_in b (pay_id p) = Some p" by (intro row_of_in) (simp_all add: book_ok_def)
  with assms(1) obtain q where "payment_in b' (pay_id p) = Some q" "later p q" by (rule event_row)
  with assms(2) show "pay_payer_account p \<noteq> PSP_SUSPENSE_ACCOUNT_ID \<and> pay_payee_account p \<noteq> PSP_SUSPENSE_ACCOUNT_ID"
    by (auto simp: suspense_apart_def later_def same_terms_def dest!: row_of_SomeD)
qed

lemma held_total_replace:
  assumes "book_ok b" and "payment_in b i = Some p" and "bk_payments b' = set_row pay_id i (\<lambda>_. q) (bk_payments b)"
  shows "held_total b' = held_total b - (if holding p then pay_amount p else 0) + (if holding q then pay_amount q else 0)"
  unfolding held_total_def assms(3)
  using sum_set_row[OF _ assms(2), of "\<lambda>p. if holding p then pay_amount p else 0" "\<lambda>_. q"] assms(1)
  by (simp add: book_ok_def)

lemma event_unaccounted:
  assumes "book_event F b b'" and "book_ok b" and "suspense_apart b'"
  shows "unaccounted b' = unaccounted b"
proof -
  have ap: "suspense_apart b" using assms(1,3,2) by (rule event_apart_back)
  from assms(1) show ?thesis
  proof cases
    case (held p)
    with assms(3) have "pay_payer_account p \<noteq> PSP_SUSPENSE_ACCOUNT_ID" by (simp add: suspense_apart_def)
    with held show ?thesis by (simp add: unaccounted_def held_total_def holding_def)
  next
    case (resolved i p out q)
    have "p \<in> set (bk_payments b)" using resolved(2) by (auto dest: row_of_SomeD)
    with ap have "pay_payer_account p \<noteq> PSP_SUSPENSE_ACCOUNT_ID" "pay_payee_account p \<noteq> PSP_SUSPENSE_ACCOUNT_ID"
      by (simp_all add: suspense_apart_def)
    moreover have "held_total b' = held_total b - (if holding p then pay_amount p else 0) +
        (if holding q then pay_amount q else 0)"
      by (rule held_total_replace[OF assms(2) resolved(2)]) (simp add: resolved(1))
    ultimately show ?thesis using resolved(3-6)
      by (cases out) (auto simp: unaccounted_def holding_def same_terms_def resolved(1))
  next
    case (refunded i p x q rf)
    have "p \<in> set (bk_payments b)" using refunded(2) by (auto dest: row_of_SomeD)
    with ap have "pay_payer_account p \<noteq> PSP_SUSPENSE_ACCOUNT_ID" "pay_payee_account p \<noteq> PSP_SUSPENSE_ACCOUNT_ID"
      by (simp_all add: suspense_apart_def)
    moreover have "held_total b' = held_total b - (if holding p then pay_amount p else 0) +
        (if holding q then pay_amount q else 0)"
      by (rule held_total_replace[OF assms(2) refunded(2)]) (simp add: refunded(1))
    ultimately show ?thesis using refunded(3,8)
      by (auto simp: unaccounted_def holding_def refunded(1))
  qed
qed

lemma run_unaccounted:
  assumes "book_run F b b'" and "book_ok b" and "suspense_apart b'"
  shows "suspense_apart b \<and> unaccounted b' = unaccounted b"
  using assms
proof (induction rule: rtranclp_induct)
  case base
  then show ?case by simp
next
  case (step b1 b2)
  have ok: "book_ok b1" using step.hyps(1) step.prems(1) by (rule run_ok)
  have ap: "suspense_apart b1" using step.hyps(2) step.prems(2) ok by (rule event_apart_back)
  from step.IH[OF step.prems(1) ap] event_unaccounted[OF step.hyps(2) ok step.prems(2)] show ?case by simp
qed

lemma held_amount_le:
  assumes "book_ok b" and "p \<in> set (bk_payments b)" and "holding p"
  shows "pay_amount p \<le> held_total b"
proof -
  have "(\<lambda>p. if holding p then pay_amount p else 0) p \<le> held_total b"
    unfolding held_total_def using assms(1,2)
    by (intro member_le_sum_list) (auto simp: book_ok_def payment_ok_def)
  with assms(3) show ?thesis by simp
qed

section \<open>Systems that refine the book\<close>

locale book_refinement =
  fixes move :: "'s \<Rightarrow> 's \<Rightarrow> bool" and inv :: "'s \<Rightarrow> bool" and abs_book :: "'s \<Rightarrow> book"
  assumes inv_kept: "inv s \<Longrightarrow> move s t \<Longrightarrow> inv t"
    and refines: "inv s \<Longrightarrow> move s t \<Longrightarrow> book_run UNIV (abs_book s) (abs_book t)"
begin

lemma reaches: "move\<^sup>*\<^sup>* s t \<Longrightarrow> inv s \<Longrightarrow> inv t \<and> book_run UNIV (abs_book s) (abs_book t)"
  by (induction rule: rtranclp_induct) (auto intro: inv_kept refines rtranclp_trans)

lemma payment_lives:
  assumes "move\<^sup>*\<^sup>* s t" and "inv s" and "payment_in (abs_book s) i = Some p"
  obtains q where "payment_in (abs_book t) i = Some q" and "later p q"
  using reaches[OF assms(1,2)] assms(3) by (blast elim: run_row)

lemma refunds_add_up:
  assumes "move\<^sup>*\<^sup>* s t" and "inv s" and "book_ok (abs_book s)"
  shows "book_ok (abs_book t)"
  using reaches[OF assms(1,2)] assms(3) by (blast intro: run_ok)

lemma suspense_exact:
  assumes "move\<^sup>*\<^sup>* s t" and "inv s" and "book_ok (abs_book s)" and "suspense_apart (abs_book t)"
  shows "unaccounted (abs_book t) = unaccounted (abs_book s)"
  using reaches[OF assms(1,2)] assms(3,4) by (blast dest: run_unaccounted)

lemma holds_covered:
  assumes "move\<^sup>*\<^sup>* s t" and "inv s" and "book_ok (abs_book s)" and "suspense_apart (abs_book t)"
    and "0 \<le> unaccounted (abs_book s)" and "payment_in (abs_book t) i = Some p" and "holding p"
  shows "pay_amount p \<le> bk_balance (abs_book t) PSP_SUSPENSE_ACCOUNT_ID"
proof -
  have "p \<in> set (bk_payments (abs_book t))" using assms(6) by (auto dest: row_of_SomeD)
  with refunds_add_up[OF assms(1-3)] assms(7) have "pay_amount p \<le> held_total (abs_book t)"
    by (intro held_amount_le)
  with suspense_exact[OF assms(1-4)] assms(5) show ?thesis by (simp add: unaccounted_def)
qed

end

end
