(* ===== verification/Refunds.thy ===== *)
theory Refunds
  imports Payments
begin

text \<open>
  Refunds (\<open>app/application/refund_service.py\<close>) and their route (\<open>app/api/refunds.py\<close>). The refund
  row stays in the session until the flush inside \<open>LedgerService.post\<close>, and the outbox row until the
  flush of \<open>IdempotencyService.complete\<close>.
\<close>

section \<open>Operations\<close>

definition RefundRequest_valid :: "int \<Rightarrow> bool" where
  "RefundRequest_valid amount \<longleftrightarrow> amount > 0"

definition refund_claim_payload :: "UUID \<Rightarrow> int \<Rightarrow> json" where
  "refund_claim_payload payment_id amount =
     JObj [(''payment_id'', JStr (str_uuid payment_id)), (''amount'', JInt amount)]"

definition refund_event_payload :: "Refund \<Rightarrow> json" where
  "refund_event_payload r = JObj [(''refundId'', JStr (str_uuid (rfd_id r))),
     (''paymentId'', JStr (str_uuid (rfd_payment_id r))), (''amount'', JInt (rfd_amount r)),
     (''status'', JStr (RefundStatus_value (rfd_status r)))]"

definition refund_response :: "Refund \<Rightarrow> RefundResponse" where
  "refund_response r = \<lparr>rres_id = rfd_id r, rres_paymentId = rfd_payment_id r, rres_amount = rfd_amount r,
     rres_status = rfd_status r, rres_createdAt = rfd_created_at r\<rparr>"

text \<open>The changes of the payment row.\<close>

definition refunded_payment :: "Payment \<Rightarrow> int \<Rightarrow> int \<Rightarrow> Payment" where
  "refunded_payment p amount t = (let total = pay_refunded_amount p + amount in
     p\<lparr>pay_refunded_amount := total,
       pay_status := (if total = pay_amount p then PaymentStatus.REFUNDED else pay_status p),
       pay_version := pay_version p + 1, pay_updated_at := t\<rparr>)"

definition refund_guard :: "Payment \<Rightarrow> int \<Rightarrow> exn option" where
  "refund_guard payment amount =
     (if pay_status payment \<notin> {PaymentStatus.SUCCEEDED, PaymentStatus.REFUND_PENDING} then
        Some (RefundNotAllowedException
          (''Cannot refund payment with status: '' @ PaymentStatus_value (pay_status payment)))
      else if pay_refunded_amount payment + amount > pay_amount payment then
        Some (RefundNotAllowedException (''Refund amount '' @ str_int amount @
          '' exceeds capturable balance ('' @ str_int (pay_amount payment - pay_refunded_amount payment) @ '')''))
      else None)"

text \<open>Steps 3 to 6: the record, the payment, the posting, the event and the completed key.\<close>

definition book_refund :: "env \<Rightarrow> string \<Rightarrow> Payment \<Rightarrow> int \<Rightarrow> (int \<times> RefundResponse) M" where
  "book_refund env idempotency_key payment amount =
     and_then uuid4 (\<lambda>refund_id.
     and_then datetime_now (\<lambda>created.
     let refund_record = \<lparr>rfd_id = refund_id, rfd_payment_id = pay_id payment, rfd_amount = amount,
           rfd_status = RefundStatus.SUCCEEDED, rfd_created_at = created\<rparr> in
     and_then (session_add (New_Refund refund_record)) (\<lambda>_.
     and_then datetime_now (\<lambda>updated.
     and_then (put_payment (refunded_payment payment amount updated)) (\<lambda>_.
     and_then (post TransactionType.REFUND refund_id
       (transfer (pay_payee_account payment) (pay_payer_account payment) amount)) (\<lambda>_.
     and_then (add_outbox ''refund'' refund_id ''refund.completed'' (refund_event_payload refund_record)) (\<lambda>_.
     let response = refund_response refund_record in
     and_then (complete ''merchant_refund'' idempotency_key refund_id 201 (dump_refund env response)) (\<lambda>_.
     ret (201, response)))))))))"

definition refund :: "env \<Rightarrow> string \<Rightarrow> UUID \<Rightarrow> int \<Rightarrow> (int \<times> RefundResponse) M" where
  "refund env idempotency_key payment_id amount =
     and_then (claim_or_replay (redis_lock env) ''merchant_refund'' idempotency_key
       (refund_claim_payload payment_id amount)) (\<lambda>replay. case replay of
       Some (code, body) \<Rightarrow> and_then (of_result (load_refund env body)) (\<lambda>r. ret (code, r))
     | None \<Rightarrow> and_then (select_payment payment_id) (\<lambda>row. case row of
         None \<Rightarrow> raise (PaymentNotFoundException payment_id)
       | Some payment \<Rightarrow> (case refund_guard payment amount of
           Some e \<Rightarrow> raise e
         | None \<Rightarrow> book_refund env idempotency_key payment amount)))"

text \<open>The route \<open>POST /v1/payments/{payment_id}/refunds\<close>.\<close>

definition process_refund :: "env \<Rightarrow> string \<Rightarrow> UUID \<Rightarrow> int \<Rightarrow> (int \<times> RefundResponse) M" where
  "process_refund env idempotency_key payment_id amount =
     (if RefundRequest_valid amount then transaction (refund env idempotency_key payment_id amount)
      else raise ValidationError)"

section \<open>What a refund does\<close>

abbreviation refund_key :: "database \<Rightarrow> string \<Rightarrow> key_state" where
  "refund_key d k \<equiv> key_state d ''merchant_refund'' k"

definition refund_hash :: "UUID \<Rightarrow> int \<Rightarrow> string" where
  "refund_hash pid x = compute_hash (refund_claim_payload pid x)"

lemma book_refund_keeps: "keeps ledger_frame_rel (book_refund env k p x)"
  unfolding book_refund_def Let_def by (intro saga_keeps complete_keeps) simp

lemma refund_keeps: "keeps ledger_frame_rel (refund env k pid x)"
  unfolding refund_def
  by (intro saga_keeps claim_keeps book_refund_keeps) (auto split: prod.split intro: saga_keeps)

text \<open>The tables after step 5, with the key still claimed.\<close>

definition refund_booked :: "Payment \<Rightarrow> int \<Rightarrow> Refund \<Rightarrow> Payment \<Rightarrow> database \<Rightarrow> database \<Rightarrow> bool" where
  "refund_booked p x rf q d d' \<longleftrightarrow> (\<exists>txn d1 ev n.
     q = refunded_payment p x n \<and>
     rfd_payment_id rf = pay_id p \<and> rfd_amount rf = x \<and> rfd_status rf = RefundStatus.SUCCEEDED \<and>
     posted TransactionType.REFUND (rfd_id rf) (transfer (pay_payee_account p) (pay_payer_account p) x) txn
       (d\<lparr>payments := set_row pay_id (pay_id p) (\<lambda>_. q) (payments d), refunds := refunds d @ [rf]\<rparr>) d1 \<and>
     obx_aggregate_type ev = ''refund'' \<and> obx_aggregate_id ev = rfd_id rf \<and>
     obx_event_type ev = ''refund.completed'' \<and> obx_payload ev = refund_event_payload rf \<and>
     obx_published_at ev = None \<and> d' = d1\<lparr>outbox := outbox d1 @ [ev]\<rparr>)"

lemma book_refund_Inr:
  assumes "book_refund env k p x s = (Inr (c, r), t)" and "pending s = []" and "refund_key (db s) k = Claimed h"
    and "codec_ok env"
  obtains rf q d1 where "refund_booked p x rf q (db s) d1" and "c = 201" and "r = refund_response rf"
    and "db t = d1\<lparr>idempotency_keys := idempotency_keys (db t)\<rparr>"
    and "refund_key (db t) k = Finished h 201 (dump_refund env r)" and "pending t = []"
    and "constraints (db t)"
proof -
  let ?rid = "uuid_source s (uuids_drawn s)"
  let ?rf = "\<lparr>rfd_id = ?rid, rfd_payment_id = pay_id p, rfd_amount = x,
    rfd_status = RefundStatus.SUCCEEDED, rfd_created_at = clock s (clock_reads s)\<rparr>"
  let ?q = "refunded_payment p x (clock s (Suc (clock_reads s)))"
  let ?s1 = "s\<lparr>uuids_drawn := Suc (uuids_drawn s), pending := [New_Refund ?rf],
    clock_reads := Suc (Suc (clock_reads s)),
    db := (db s)\<lparr>payments := set_row pay_id (pay_id p) (\<lambda>_. ?q) (payments (db s))\<rparr>\<rparr>"
  have pid: "pay_id ?q = pay_id p" by (simp add: refunded_payment_def Let_def)
  from assms(1,2) pid obtain txn s2 s3 u where
    post: "post TransactionType.REFUND ?rid (transfer (pay_payee_account p) (pay_payer_account p) x) ?s1 = (Inr txn, s2)"
    and ob: "add_outbox ''refund'' ?rid ''refund.completed'' (refund_event_payload ?rf) s2 = (Inr (), s3)"
    and comp: "complete ''merchant_refund'' k ?rid 201 (dump_refund env (refund_response ?rf)) s3 = (Inr u, t)"
    and cr: "c = 201" "r = refund_response ?rf"
    unfolding book_refund_def Let_def by (auto simp: and_then_Inr_iff)
  from ob obtain ev where s3: "db s3 = db s2" "pending s3 = pending s2 @ [New_Outbox ev]"
    and ev: "obx_aggregate_type ev = ''refund''" "obx_aggregate_id ev = ?rid"
      "obx_event_type ev = ''refund.completed''" "obx_payload ev = refund_event_payload ?rf"
      "obx_published_at ev = None"
    by (auto simp: add_outbox_def and_then_Inr_iff)
  have fl: "db (flushed ?s1) = (db s)\<lparr>payments := set_row pay_id (pay_id p) (\<lambda>_. ?q) (payments (db s)),
      refunds := refunds (db s) @ [?rf]\<rparr>" by (simp add: flushed_def)
  from ledger.post_effect[OF post] fl have posted: "posted TransactionType.REFUND (rfd_id ?rf)
      (transfer (pay_payee_account p) (pay_payer_account p) x) txn ((db s)\<lparr>payments :=
        set_row pay_id (pay_id p) (\<lambda>_. ?q) (payments (db s)), refunds := refunds (db s) @ [?rf]\<rparr>) (db s2)"
    and p2: "pending s2 = []" by simp_all
  have pe: "pending s3 = map New_Outbox [ev]" using s3(2) p2 by simp
  have key: "refund_key (db s3) k = Claimed h"
    using assms(3) posted_frame(4)[OF posted] key_state_cong[of "db s2" "db s"] s3(1) by simp
  have tr: "truthy (dump_refund env (refund_response ?rf))" using assms(4) by (simp add: codec_ok_def)
  note c = complete_Inr[OF comp key _ tr pe]
  have "refund_booked p x ?rf ?q (db s) ((db s2)\<lparr>outbox := outbox (db s2) @ [ev]\<rparr>)"
    unfolding refund_booked_def using posted ev by (auto intro!: exI)
  moreover have "db t = (db s2)\<lparr>outbox := outbox (db s2) @ [ev], idempotency_keys := idempotency_keys (db t)\<rparr>"
    using c(2) s3(1) by (cases "db t", cases "db s2") simp
  ultimately show thesis using cr c(1)[of "''merchant_refund''" k] c(3,4) by (intro that[of ?rf ?q]) simp_all
qed

lemma refund_booked_effect:
  assumes "refund_booked p x rf q d d'" and "row_of pay_id pid (payments d) = Some p"
  shows "balance d' a = balance d a + (if a = pay_payer_account p then x else 0) - (if a = pay_payee_account p then x else 0)"
    and "0 < x" and "x \<le> balance d (pay_payee_account p)"
    and "row_of pay_id pid (payments d') = Some q" and "refunds d' = refunds d @ [rf]"
    and "payments d' = set_row pay_id pid (\<lambda>_. q) (payments d)"
    and "accounts d' = accounts d" and "webhook_events d' = webhook_events d"
    and "pay_id p = pid" and "same_terms p q"
    and "pay_refunded_amount q = pay_refunded_amount p + x" 
    and "pay_status q = (if pay_refunded_amount p + x = pay_amount p then PaymentStatus.REFUNDED else pay_status p)"
proof -
  from assms(2) show pid: "pay_id p = pid" by (auto dest: row_of_SomeD)
  from assms(1) obtain txn d1 ev n where q: "q = refunded_payment p x n"
    and posted: "posted TransactionType.REFUND (rfd_id rf)
      (transfer (pay_payee_account p) (pay_payer_account p) x) txn
      (d\<lparr>payments := set_row pay_id (pay_id p) (\<lambda>_. q) (payments d), refunds := refunds d @ [rf]\<rparr>) d1"
    and d': "d' = d1\<lparr>outbox := outbox d1 @ [ev]\<rparr>"
    unfolding refund_booked_def by blast
  let ?d = "d\<lparr>payments := set_row pay_id (pay_id p) (\<lambda>_. q) (payments d), refunds := refunds d @ [rf]\<rparr>"
  have b: "balance ?d = balance d" by (simp add: balance_def fun_eq_iff)
  show st: "same_terms p q" and "pay_refunded_amount q = pay_refunded_amount p + x"
    and "pay_status q = (if pay_refunded_amount p + x = pay_amount p then PaymentStatus.REFUNDED else pay_status p)"
    by (simp_all add: q refunded_payment_def same_terms_def Let_def)
  show "balance d' a = balance d a + (if a = pay_payer_account p then x else 0) - (if a = pay_payee_account p then x else 0)"
    using posted_balance[OF posted, of a] unfolding transfer_delta b d' by simp
  from posted have v: "validate_balanced (transfer (pay_payee_account p) (pay_payer_account p) x) = Inr ()"
    and run: "run_postings (balance ?d) (transfer (pay_payee_account p) (pay_payer_account p) x) = Inr (balance d1)"
    by (simp_all only: posted_def)
  from v show "0 < x" by (simp only: validate_transfer)
  from run show "x \<le> balance d (pay_payee_account p)" unfolding run_transfer b by (simp split: if_splits)
  show "payments d' = set_row pay_id pid (\<lambda>_. q) (payments d)" and "refunds d' = refunds d @ [rf]"
    and "accounts d' = accounts d" and "webhook_events d' = webhook_events d"
    using posted_frame[OF posted] d' pid by simp_all
  then show "row_of pay_id pid (payments d') = Some q"
    using row_of_replaced[OF assms(2), of q] st pid by (simp add: same_terms_def)
qed

text \<open>A refund under a new key, as the transaction of the route leaves it.\<close>

lemma refund_Inr:
  assumes "transaction (refund env k pid x) s = (Inr (c, r), t)" and "refund_key (db s) k = Unused"
    and "codec_ok env"
  obtains p rf q d0 d1 where "row_of pay_id pid (payments (db s)) = Some p" and "refund_guard p x = None"
    and "refund_booked p x rf q d0 d1" and "db t = d1\<lparr>idempotency_keys := idempotency_keys (db t)\<rparr>"
    and "d0 = (db s)\<lparr>idempotency_keys := idempotency_keys d0\<rparr>" and "c = 201" and "r = refund_response rf"
    and "refund_key (db t) k = Finished (refund_hash pid x) 201 (dump_refund env r)"
    and "constraints (db t)"
proof -
  let ?s0 = "s\<lparr>pending := []\<rparr>"
  from assms(1) obtain s1 where run: "refund env k pid x ?s0 = (Inr (c, r), s1)" and t: "t = flushed s1"
    by (rule transaction_Inr)
  from run obtain y s2 where claim: "claim_or_replay (redis_lock env) ''merchant_refund'' k
      (refund_claim_payload pid x) ?s0 = (Inr y, s2)"
    and rest: "(case y of Some (code, body) \<Rightarrow> and_then (of_result (load_refund env body)) (\<lambda>r. ret (code, r))
      | None \<Rightarrow> and_then (select_payment pid) (\<lambda>row. case row of
          None \<Rightarrow> raise (PaymentNotFoundException pid)
        | Some payment \<Rightarrow> (case refund_guard payment x of Some e \<Rightarrow> raise e
          | None \<Rightarrow> book_refund env k payment x))) s2 = (Inr (c, r), s1)"
    unfolding refund_def by (rule and_then_InrE)
  from claim_unused[OF _ claim] assms(2) obtain r0 where y: "y = None"
    and d2: "db s2 = (db s)\<lparr>idempotency_keys := idempotency_keys (db s) @ [r0]\<rparr>"
    and r0: "idem_scope r0 = (''merchant_refund'', k)" "record_state r0 = Claimed (refund_hash pid x)"
    and p2: "pending s2 = []" by (auto simp: refund_hash_def)
  from rest y d2 obtain p where p: "row_of pay_id pid (payments (db s)) = Some p" "refund_guard p x = None"
    and book: "book_refund env k p x s2 = (Inr (c, r), s1)"
    by (auto simp: select_payment_def split: option.splits)
  have "refund_key (db s2) k = Claimed (refund_hash pid x)"
    using key_state_append[OF assms(2) r0(1)] r0(2) d2 by simp
  from book p2 this assms(3) obtain rf q d1 where "refund_booked p x rf q (db s2) d1" "c = 201"
    "r = refund_response rf" "db s1 = d1\<lparr>idempotency_keys := idempotency_keys (db s1)\<rparr>"
    "refund_key (db s1) k = Finished (refund_hash pid x) 201 (dump_refund env r)"
    "pending s1 = []" "constraints (db s1)" by (rule book_refund_Inr)
  with p show thesis by (intro that[of p rf q "db s2" d1]) (simp_all add: t d2)
qed

lemma refund_guard_None:
  "refund_guard p x = None \<longleftrightarrow> pay_status p \<in> {PaymentStatus.SUCCEEDED, PaymentStatus.REFUND_PENDING} \<and>
     pay_refunded_amount p + x \<le> pay_amount p"
  by (auto simp: refund_guard_def)

lemma refund_effect:
  assumes "transaction (refund env k pid x) s = (Inr (c, r), t)" and "refund_key (db s) k = Unused"
    and "codec_ok env"
  obtains p q rf where "row_of pay_id pid (payments (db s)) = Some p" and "refund_guard p x = None"
    and "row_of pay_id pid (payments (db t)) = Some q" and "same_terms p q"
    and "payments (db t) = set_row pay_id pid (\<lambda>_. q) (payments (db s))"
    and "pay_refunded_amount q = pay_refunded_amount p + x"
    and "pay_status q = (if pay_refunded_amount p + x = pay_amount p then PaymentStatus.REFUNDED else pay_status p)"
    and "refunds (db t) = refunds (db s) @ [rf]" and "rfd_payment_id rf = pid" and "rfd_amount rf = x"
    and "r = refund_response rf" and "c = 201" and "0 < x"
    and "\<And>a. balance (db t) a = balance (db s) a + (if a = pay_payer_account p then x else 0) -
      (if a = pay_payee_account p then x else 0)"
    and "refund_key (db t) k = Finished (refund_hash pid x) 201 (dump_refund env r)"
    and "constraints (db t)"
proof -
  from assms obtain p rf q d0 d1 where p: "row_of pay_id pid (payments (db s)) = Some p" "refund_guard p x = None"
    and rb: "refund_booked p x rf q d0 d1" and dt: "db t = d1\<lparr>idempotency_keys := idempotency_keys (db t)\<rparr>"
    and d0: "d0 = (db s)\<lparr>idempotency_keys := idempotency_keys d0\<rparr>" and cr: "c = 201" "r = refund_response rf"
    and key: "refund_key (db t) k = Finished (refund_hash pid x) 201 (dump_refund env r)"
    and con: "constraints (db t)" by (rule refund_Inr)
  have f0: "payments d0 = payments (db s)" "refunds d0 = refunds (db s)" "balance d0 = balance (db s)"
    by (subst d0, simp add: balance_def fun_eq_iff)+
  have ft: "payments (db t) = payments d1" "refunds (db t) = refunds d1" "balance (db t) = balance d1"
    by (subst dt, simp add: balance_def fun_eq_iff)+
  from p(1) have "row_of pay_id pid (payments d0) = Some p" by (simp add: f0)
  note e = refund_booked_effect[OF rb this]
  have "rfd_payment_id rf = pid" "rfd_amount rf = x" using rb e(9) by (auto simp: refund_booked_def)
  with e p cr key con show thesis
    by (intro that[of p q rf]) (simp_all add: f0 ft)
qed

section \<open>When a refund returns\<close>

definition can_refund :: "env \<Rightarrow> string \<Rightarrow> UUID \<Rightarrow> int \<Rightarrow> Payment \<Rightarrow> world \<Rightarrow> bool" where
  "can_refund env k pid x p s \<longleftrightarrow> constraints (db s) \<and> ledger_balanced (db s) \<and> key_room s \<and>
     refund_key (db s) k = Unused \<and> length k \<le> 255 \<and>
     row_of pay_id pid (payments (db s)) = Some p \<and> refund_guard p x = None \<and> 0 < x \<and>
     x \<le> balance (db s) (pay_payee_account p) \<and> balance (db s) (pay_payer_account p) + x < 2 ^ 63 \<and>
     0 \<le> pay_refunded_amount p \<and> int64 (pay_version p + 1) \<and> counters_ok 2 s \<and> fresh_uuids 3 s \<and>
     uuid_source s (uuids_drawn s) \<notin> rfd_id ` set (refunds (db s))"

lemma constraints_add_refund:
  "constraints d \<Longrightarrow> rfd_id r \<notin> rfd_id ` set (refunds d) \<Longrightarrow> rfd_payment_id r \<in> pay_id ` set (payments d) \<Longrightarrow>
     int64 (rfd_amount r) \<Longrightarrow> 0 < rfd_amount r \<Longrightarrow> constraints (d\<lparr>refunds := refunds d @ [r]\<rparr>)"
  by (auto simp: constraint_defs)

lemma book_refund_succeeds:
  assumes pe: "pending s = []" and con: "constraints (db s)" and p: "row_of pay_id pid (payments (db s)) = Some p"
    and x: "0 < x" "x \<le> balance (db s) (pay_payee_account p)"
    and fits: "balance (db s) (pay_payer_account p) + x < 2 ^ 63"
    and ref: "0 \<le> pay_refunded_amount p" "pay_refunded_amount p + x \<le> pay_amount p"
    and ver: "int64 (pay_version p + 1)" and cnt: "counters_ok 2 s" and fresh: "fresh_uuids 3 s"
    and rid: "uuid_source s (uuids_drawn s) \<notin> rfd_id ` set (refunds (db s))"
  shows "\<exists>c r t. book_refund env k p x s = (Inr (c, r), t) \<and> constraints (db (flushed t))"
proof -
  note acc = payment_accounts[OF con p]
  let ?rid = "uuid_source s (uuids_drawn s)"
  let ?rf = "\<lparr>rfd_id = ?rid, rfd_payment_id = pay_id p, rfd_amount = x,
    rfd_status = RefundStatus.SUCCEEDED, rfd_created_at = clock s (clock_reads s)\<rparr>"
  let ?q = "refunded_payment p x (clock s (Suc (clock_reads s)))"
  let ?ps = "transfer (pay_payee_account p) (pay_payer_account p) x"
  let ?d1 = "(db s)\<lparr>payments := set_row pay_id pid (\<lambda>_. ?q) (payments (db s))\<rparr>"
  let ?d2 = "?d1\<lparr>refunds := refunds (db s) @ [?rf]\<rparr>"
  let ?s1 = "s\<lparr>uuids_drawn := Suc (uuids_drawn s), pending := [New_Refund ?rf],
    clock_reads := Suc (Suc (clock_reads s)), db := ?d1\<rparr>"
  have q: "pay_id ?q = pid" by (simp add: refunded_payment_def Let_def acc(3))
  have c1: "constraints ?d1"
    using acc ver ref x by (intro constraints_put_payment[OF con p]) (simp_all add: refunded_payment_def Let_def int64_def)
  have "pid \<in> pay_id ` set (payments ?d1)"
    using row_of_SomeD[OF row_of_replaced[OF p q]] by (auto simp: image_iff)
  then have c2: "constraints ?d2"
    using constraints_add_refund[OF c1, of ?rf] rid acc x ref by (auto simp: int64_def)
  have fl: "db (flushed ?s1) = ?d2" "entry_seq (flushed ?s1) = entry_seq s" by (simp_all add: flushed_def)
  have b: "balance ?d2 = balance (db s)" by (simp add: balance_def fun_eq_iff)
  have "\<exists>txn t. post TransactionType.REFUND ?rid ?ps ?s1 = (Inr txn, t)"
  proof (rule ledger.transfer_total)
    show "counters_ok 2 (flushed ?s1)" using cnt fl by (simp add: counters_ok_def)
    show "uuid_source ?s1 (uuids_drawn ?s1) \<notin> txn_id ` set (ledger_transactions (db (flushed ?s1)))"
      using fresh_uuidsD(1)[OF fresh, of 1] fl by simp
  qed (use x b fl c2 acc fits in \<open>simp_all add: account_ids_def\<close>)
  then obtain txn s2 where s2: "post TransactionType.REFUND ?rid ?ps ?s1 = (Inr txn, s2)" by blast
  from ledger.post_effect[OF s2] fl have posted: "posted TransactionType.REFUND ?rid ?ps txn ?d2 (db s2)"
    and p2: "pending s2 = []" by simp_all
  have draws: "uuid_source s2 = uuid_source s" "uuids_drawn s2 = Suc (Suc (uuids_drawn s))"
    using post_draws[OF s2] by simp_all
  let ?ev = "\<lparr>obx_id = uuid_source s (uuids_drawn s + 2), obx_aggregate_type = ''refund'', obx_aggregate_id = ?rid,
    obx_event_type = ''refund.completed'', obx_payload = refund_event_payload ?rf,
    obx_created_at = clock s2 (clock_reads s2), obx_published_at = None\<rparr>"
  let ?s3 = "s2\<lparr>uuids_drawn := Suc (uuids_drawn s2), clock_reads := Suc (clock_reads s2), pending := [New_Outbox ?ev]\<rparr>"
  have "obx_id ?ev \<notin> obx_id ` set (outbox (db s2))"
    using fresh_uuidsD(2)[OF fresh, of 2] posted_frame(5)[OF posted] by simp
  then have "constraints (db (flushed ?s3))"
    using constraints_add_outbox[OF posted_constraints[OF posted], of ?ev] by (simp add: flushed_def)
  from complete_succeeds[OF this, of 201 "[?ev]" "''merchant_refund''" k ?rid "dump_refund env (refund_response ?rf)"]
  obtain t where t: "complete ''merchant_refund'' k ?rid 201 (dump_refund env (refund_response ?rf)) ?s3 = (Inr (), t)"
    and pt: "constraints (db (flushed t))" by (auto simp: int32_def)
  have "add_outbox ''refund'' ?rid ''refund.completed'' (refund_event_payload ?rf) s2 = (Inr (), ?s3)"
    using p2 draws by (simp add: add_outbox_def session_defs)
  then have "book_refund env k p x s = (Inr (201, refund_response ?rf), t)"
    using pe s2 t q acc(3) by (simp add: book_refund_def Let_def session_defs put_payment_def)
  with pt show ?thesis by blast
qed

lemma refund_succeeds:
  assumes "can_refund env k pid x p s"
  shows "\<exists>c r t. transaction (refund env k pid x) s = (Inr (c, r), t)"
proof -
  note cc = assms[unfolded can_refund_def]
  let ?s0 = "s\<lparr>pending := []\<rparr>"
  obtain s1 where claim: "claim_or_replay (redis_lock env) ''merchant_refund'' k
      (refund_claim_payload pid x) ?s0 = (Inr None, s1)"
    using claim_succeeds[of ?s0 "''merchant_refund''" k "redis_lock env" "refund_claim_payload pid x"] cc
    by (auto simp: refund_hash_def key_room_def)
  from claim_unused[OF _ claim] cc obtain r0 where
    d1: "db s1 = (db s)\<lparr>idempotency_keys := idempotency_keys (db s) @ [r0]\<rparr>"
    and s1: "pending s1 = []" "constraints (db s1)" and dr: "same_draws s s1" "entry_seq s1 = entry_seq s"
    by (auto simp: same_draws_def)
  have b: "balance (db s1) = balance (db s)" by (simp add: d1 balance_def fun_eq_iff)
  have "counters_ok 2 s1" "fresh_uuids 3 s1"
    using cc counters_ok_cong[of s1 s 2] fresh_uuids_cong[of s1 s 3] d1 dr by simp_all
  then obtain c r t where book: "book_refund env k p x s1 = (Inr (c, r), t)" "constraints (db (flushed t))"
    using book_refund_succeeds[of s1 pid p x env k] s1 cc b dr(1)
    by (auto simp: d1 refund_guard_None same_draws_def)
  have "refund env k pid x ?s0 = (Inr (c, r), t)"
    using cc book by (simp add: refund_def and_then_def claim select_payment_def gets_def d1)
  then have "transaction (refund env k pid x) s = (Inr (c, r), flushed t)"
    by (rule transaction_succeeds[OF refund_keeps]) (use book cc in simp_all)
  then show ?thesis by blast
qed

lemma refund_rejected:
  assumes "constraints (db s)" and "key_room s" and "refund_key (db s) k = Unused" and "length k \<le> 255"
    and "case row_of pay_id pid (payments (db s)) of None \<Rightarrow> e = PaymentNotFoundException pid
         | Some p \<Rightarrow> refund_guard p x = Some e"
  shows "\<exists>t. transaction (refund env k pid x) s = (Inl e, t) \<and> db t = db s"
proof -
  let ?s0 = "s\<lparr>pending := []\<rparr>"
  obtain s1 where claim: "claim_or_replay (redis_lock env) ''merchant_refund'' k
      (refund_claim_payload pid x) ?s0 = (Inr None, s1)"
    using claim_succeeds[of ?s0 "''merchant_refund''" k "redis_lock env" "refund_claim_payload pid x"] assms
    by (auto simp: refund_hash_def key_room_def)
  from assms(3) have un: "refund_key (db ?s0) k = Unused" by simp
  have "payments (db s1) = payments (db s)" by (rule claim_unused[OF un claim]) simp_all
  then have "refund env k pid x ?s0 = (Inl e, s1)"
    using assms(5) by (cases "row_of pay_id pid (payments (db s))")
      (simp_all add: refund_def and_then_def claim select_payment_def gets_def raise_def)
  from transaction_InlI[of "refund env k pid x", OF this] show ?thesis by (simp add: rollback_def)
qed

lemma refund_replayed:
  assumes "refund_key (db s) k = Finished (refund_hash pid x) c b" and "constraints (db s)"
    and "load_refund env b = Inr r"
  shows "\<exists>t. transaction (refund env k pid x) s = (Inr (c, r), t) \<and> db t = db s"
proof -
  let ?s0 = "s\<lparr>pending := []\<rparr>"
  have "refund_key (db ?s0) k \<noteq> Unused" using assms(1) by simp
  from claim_used[OF this] assms(1,3) have run: "refund env k pid x ?s0 = (Inr (c, r), ?s0)"
    by (simp add: refund_def and_then_def refund_hash_def of_result_def ret_def)
  have "trg_ledger_balanced (db s) (db ?s0)" by (simp add: trg_ledger_balanced_def)
  with transaction_InrI[of "refund env k pid x", OF run] show ?thesis using assms(2) by simp
qed

section \<open>A concrete payment\<close>

definition sample_payment :: "PaymentStatus \<Rightarrow> Payment" where
  "sample_payment st = \<lparr>pay_id = UUID 50, pay_merchant_id = ''m'', pay_payer_account = UUID 3,
     pay_payee_account = UUID 4, pay_amount = 40, pay_currency = ''INR'', pay_status = st,
     pay_psp_reference = Some ''ref'', pay_refunded_amount = 0, pay_version = 0, pay_created_at = 0,
     pay_updated_at = 0\<rparr>"

text \<open>The example state with this payment and a suspense account that holds its amount.\<close>

definition sample_paid :: "PaymentStatus \<Rightarrow> world" where
  "sample_paid st = sample_world\<lparr>db := sample_db\<lparr>payments := [sample_payment st],
     account_balances := set_row bal_account_id (UUID 1) (\<lambda>b. b\<lparr>bal_balance := 40\<rparr>) (account_balances sample_db)\<rparr>\<rparr>"

lemma sample_paid_constraints: "constraints (db (sample_paid st))"
proof -
  have "account_balances_ok (sample_db\<lparr>account_balances :=
      set_row bal_account_id (UUID 1) (\<lambda>b. b\<lparr>bal_balance := 40\<rparr>) (account_balances sample_db)\<rparr>)"
    by code_simp
  moreover have "payments_ok (sample_db\<lparr>payments := [sample_payment st]\<rparr>)"
    by (simp add: payments_ok_def sample_payment_def sample_db_def upgrade_def account_ids_def int64_def)
  moreover have "refunds sample_db = []" by (simp add: sample_db_def upgrade_def empty_database_def)
  ultimately show ?thesis using sample_db_constraints
    by (simp add: sample_paid_def constraint_defs)
qed

lemma sample_paid_facts [simp]:
  "payments (db (sample_paid st)) = [sample_payment st]" "pending (sample_paid st) = []"
  "refunds (db (sample_paid st)) = []" "webhook_events (db (sample_paid st)) = []"
  "balance (db (sample_paid st)) (UUID 3) = 1000" "balance (db (sample_paid st)) (UUID 4) = 50"
  "balance (db (sample_paid st)) (UUID 1) = 40"
  "key_state (db (sample_paid st)) m k = Unused" "key_room (sample_paid st)"
  "ledger_balanced (db (sample_paid st))" "fresh_uuids 6 (sample_paid st)" "counters_ok 4 (sample_paid st)"
  using sample_fresh
  by (simp_all add: sample_paid_def sample_db_def upgrade_def empty_database_def balance_def key_state_def
      key_room_def sample_world_def ledger_balanced_def transaction_net_def int64_def fresh_uuids_def counters_ok_def)

lemma sample_can_refund:
  "0 < x \<Longrightarrow> x \<le> 40 \<Longrightarrow>
     can_refund sample_env ''r'' (UUID 50) x (sample_payment PaymentStatus.SUCCEEDED) (sample_paid PaymentStatus.SUCCEEDED)"
proof -
  assume x: "0 < x" "x \<le> 40"
  let ?s = "sample_paid PaymentStatus.SUCCEEDED"
  have "fresh_uuids 3 ?s" using fresh_uuids_less[OF sample_paid_facts(11), of 3] by simp
  moreover have "counters_ok 2 ?s"
    using sample_paid_facts(12)[of PaymentStatus.SUCCEEDED] by (auto simp: counters_ok_def)
  ultimately show ?thesis using x sample_paid_constraints[of PaymentStatus.SUCCEEDED]
    by (simp add: can_refund_def sample_payment_def refund_guard_None int64_def)
qed

section \<open>Properties\<close>

text \<open>
  C18. A refund returns money that was captured and not yet returned. A call under a new idempotency key
  that returns, was for a payment in status SUCCEEDED or REFUND_PENDING; it moves exactly the amount
  from payee to payer, adds it to \<open>refunded_amount\<close>, which stays within the amount of the payment,
  records one refund, and makes the payment REFUNDED exactly when nothing is left to refund.
\<close>

theorem refund_moves_funds:
  assumes "codec_ok env" and "key_state (db s) ''merchant_refund'' k = Unused"
    and "process_refund env k pid x s = (Inr (c, r), t)"
  shows "\<exists>p q rf. row_of pay_id pid (payments (db s)) = Some p \<and> row_of pay_id pid (payments (db t)) = Some q \<and>
    pay_status p \<in> {PaymentStatus.SUCCEEDED, PaymentStatus.REFUND_PENDING} \<and> 0 < x \<and>
    pay_refunded_amount q = pay_refunded_amount p + x \<and> pay_refunded_amount q \<le> pay_amount q \<and>
    pay_status q = (if pay_refunded_amount q = pay_amount q then PaymentStatus.REFUNDED else pay_status p) \<and>
    refunds (db t) = refunds (db s) @ [rf] \<and> r = refund_response rf \<and> c = 201 \<and>
    (\<forall>a. balance (db t) a = balance (db s) a + (if a = pay_payer_account p then x else 0) -
      (if a = pay_payee_account p then x else 0))"
proof -
  from assms(3) have "transaction (refund env k pid x) s = (Inr (c, r), t)"
    by (simp add: process_refund_def split: if_splits)
  then show ?thesis using assms(2,1)
    by (rule refund_effect) (auto simp: refund_guard_None same_terms_def)
qed

theorem refund_moves_funds_witness:
  "\<exists>c r t q. process_refund sample_env ''r'' (UUID 50) 40 (sample_paid PaymentStatus.SUCCEEDED) = (Inr (c, r), t) \<and>
     row_of pay_id (UUID 50) (payments (db t)) = Some q \<and> pay_refunded_amount q = 40"
proof -
  obtain c r t where "process_refund sample_env ''r'' (UUID 50) 40 (sample_paid PaymentStatus.SUCCEEDED) = (Inr (c, r), t)"
    using refund_succeeds[OF sample_can_refund[of 40]] by (auto simp: process_refund_def RefundRequest_valid_def)
  with refund_moves_funds[OF sample_env_codec _ this] show ?thesis by (auto simp: sample_payment_def)
qed

text \<open>
  A refund that can be served is served: the call returns under \<open>can_refund\<close>, which asks for a
  refundable payment, an amount that is left, a payee that still has it, and room in the columns.
\<close>

lemma refund_returns:
  assumes "can_refund env k pid x p s" and "codec_ok env"
  shows "\<exists>r t. process_refund env k pid x s = (Inr (201, r), t)"
proof -
  from refund_succeeds[OF assms(1)] obtain c r t where run: "transaction (refund env k pid x) s = (Inr (c, r), t)"
    by blast
  moreover have "c = 201"
    using run _ assms(2) by (rule refund_effect) (use assms(1) in \<open>simp_all add: can_refund_def\<close>)
  ultimately show ?thesis
    using assms(1) by (simp add: process_refund_def RefundRequest_valid_def can_refund_def)
qed

lemma refund_returns_witness:
  "\<exists>r t. process_refund sample_env ''r'' (UUID 50) 15 (sample_paid PaymentStatus.SUCCEEDED) = (Inr (201, r), t)"
  using refund_returns[OF sample_can_refund sample_env_codec, of 15] by simp

text \<open>
  C33. A refund that is not allowed is refused for the right reason and leaves no trace. An amount that is
  not positive is a ValidationError, an unknown payment a PaymentNotFoundException; a payment that is neither
  SUCCEEDED nor REFUND_PENDING is refused with RefundNotAllowedException and its status, and an amount that
  with the earlier refunds exceeds the amount of the payment with RefundNotAllowedException and what is left.
  No table changes: the key that the transaction claimed is rolled back with everything else.
\<close>

theorem refund_refused:
  assumes "constraints (db s)" and "key_room s" and "key_state (db s) ''merchant_refund'' k = Unused"
    and "length k \<le> 255"
    and "x \<le> 0 \<or> row_of pay_id pid (payments (db s)) = None \<or>
      (\<exists>p. row_of pay_id pid (payments (db s)) = Some p \<and>
         (pay_status p \<notin> {PaymentStatus.SUCCEEDED, PaymentStatus.REFUND_PENDING} \<or>
          pay_amount p < pay_refunded_amount p + x))"
  shows "\<exists>t. db t = db s \<and> process_refund env k pid x s =
    (Inl (if x \<le> 0 then ValidationError
          else case row_of pay_id pid (payments (db s)) of
            None \<Rightarrow> PaymentNotFoundException pid
          | Some p \<Rightarrow> RefundNotAllowedException
              (if pay_status p \<notin> {PaymentStatus.SUCCEEDED, PaymentStatus.REFUND_PENDING}
               then ''Cannot refund payment with status: '' @ PaymentStatus_value (pay_status p)
               else ''Refund amount '' @ str_int x @ '' exceeds capturable balance ('' @
                 str_int (pay_amount p - pay_refunded_amount p) @ '')'')), t)"
proof (cases "x \<le> 0")
  case True
  then show ?thesis by (auto simp: process_refund_def RefundRequest_valid_def raise_def)
next
  case pos: False
  note rejected = refund_rejected[OF assms(1-4), where pid = pid and x = x and env = env]
  have route: "process_refund env k pid x s = transaction (refund env k pid x) s"
    using pos by (simp add: process_refund_def RefundRequest_valid_def)
  show ?thesis
  proof (cases "row_of pay_id pid (payments (db s))")
    case None
    with rejected[of "PaymentNotFoundException pid"] pos show ?thesis by (auto simp: route)
  next
    case (Some p)
    with assms(5) pos obtain e where "refund_guard p x = Some e" by (cases "refund_guard p x") (auto simp: refund_guard_None)
    moreover from this have "e = RefundNotAllowedException
        (if pay_status p \<notin> {PaymentStatus.SUCCEEDED, PaymentStatus.REFUND_PENDING}
         then ''Cannot refund payment with status: '' @ PaymentStatus_value (pay_status p)
         else ''Refund amount '' @ str_int x @ '' exceeds capturable balance ('' @
           str_int (pay_amount p - pay_refunded_amount p) @ '')'')"
      unfolding refund_guard_def by (auto split: if_splits)
    ultimately show ?thesis using rejected[of e] Some pos by (auto simp: route)
  qed
qed

theorem refund_refused_witness:
  "(\<exists>t. process_refund sample_env ''r'' (UUID 50) 41 (sample_paid PaymentStatus.SUCCEEDED) =
     (Inl (RefundNotAllowedException ''Refund amount 41 exceeds capturable balance (40)''), t) \<and>
     db t = db (sample_paid PaymentStatus.SUCCEEDED)) \<and>
   (\<exists>t. process_refund sample_env ''r'' (UUID 50) 10 (sample_paid PaymentStatus.AUTHORIZED) =
     (Inl (RefundNotAllowedException ''Cannot refund payment with status: AUTHORIZED''), t) \<and>
     db t = db (sample_paid PaymentStatus.AUTHORIZED))"
proof -
  have message: "''Refund amount '' @ str_int 41 @ '' exceeds capturable balance ('' @ str_int 40 @ '')'' =
      ''Refund amount 41 exceeds capturable balance (40)''" by code_simp
  note refused = refund_refused[OF sample_paid_constraints, where k = "''r''" and env = sample_env and pid = "UUID 50"]
  show ?thesis
    using refused[of PaymentStatus.SUCCEEDED 41] refused[of PaymentStatus.AUTHORIZED 10] message
    by (auto simp: sample_payment_def)
qed

end
