(* ===== verification/KeyFrame.thy ===== *)
theory KeyFrame
  imports Refunds
begin

text \<open>
  Which idempotency keys an operation may touch. \<open>other_keys m k\<close> is the frame of the operations that
  leave the record of every key but \<open>(m, k)\<close> alone; postings, phases of the saga, claims,
  completions, and so the second transaction of a payment and a whole refund are inside it.
\<close>

definition scope_pending :: "string \<Rightarrow> string \<Rightarrow> world \<Rightarrow> bool" where
  "scope_pending m k s \<longleftrightarrow> (\<forall>r. New_IdempotencyRecord r \<in> set (pending s) \<longrightarrow> idem_scope r = (m, k))"

definition records_except :: "string \<Rightarrow> string \<Rightarrow> database \<Rightarrow> IdempotencyRecord list" where
  "records_except m k d = filter (\<lambda>r. idem_scope r \<noteq> (m, k)) (idempotency_keys d)"

definition other_keys :: "string \<Rightarrow> string \<Rightarrow> world \<Rightarrow> world \<Rightarrow> bool" where
  "other_keys m k s t \<longleftrightarrow> (scope_pending m k s \<longrightarrow>
     scope_pending m k t \<and> records_except m k (db t) = records_except m k (db s))"

interpretation key_frame: frame_relation "other_keys m k"
  for m k
  by standard (auto simp: other_keys_def)

lemma row_of_filter_other:
  "k' \<noteq> k \<Longrightarrow> row_of key k' (filter (\<lambda>r. key r \<noteq> k) rows) = row_of key k' rows"
  by (induction rows) auto

lemma records_except_key_state:
  assumes "records_except m k d' = records_except m k d" and "(m', k') \<noteq> (m, k)"
  shows "key_state d' m' k' = key_state d m' k'"
proof -
  have "row_of idem_scope (m', k') (records_except m k x) = row_of idem_scope (m', k') (idempotency_keys x)" for x
    unfolding records_except_def by (rule row_of_filter_other[OF assms(2)])
  from this[of d] this[of d'] assms(1) show ?thesis by (simp add: key_state_def)
qed

lemma fold_insert_records:
  assumes "\<forall>r. New_IdempotencyRecord r \<in> set rs \<longrightarrow> idem_scope r = (m, k)"
  shows "records_except m k (db (fold insert_row rs s)) = records_except m k (db s)"
  using assms
proof (induction rs arbitrary: s)
  case Nil
  then show ?case by simp
next
  case (Cons r rs)
  have "records_except m k (db (insert_row r s)) = records_except m k (db s)"
  proof (cases r)
    case (New_IdempotencyRecord x)
    then have "idem_scope x = (m, k)" using Cons.prems by simp
    then have "idem_scope (x\<lparr>idem_id := idem_seq s\<rparr>) = (m, k)" by (simp add: idem_scope_def)
    then show ?thesis by (simp add: New_IdempotencyRecord records_except_def)
  qed (simp_all add: records_except_def)
  moreover have "records_except m k (db (fold insert_row rs (insert_row r s))) =
      records_except m k (db (insert_row r s))"
    by (rule Cons.IH) (use Cons.prems in simp)
  ultimately show ?case by simp
qed

lemma records_except_flushed:
  "scope_pending m k s \<Longrightarrow> records_except m k (db (flushed s)) = records_except m k (db s)"
  using fold_insert_records[of "pending s" m k "s\<lparr>pending := []\<rparr>"] by (simp add: flushed_def scope_pending_def)

lemma key_flush: "keeps (other_keys m k) session_flush"
  by (rule keepsI) (auto simp: other_keys_def records_except_flushed, simp add: scope_pending_def)

lemma key_add:
  "(\<And>x. r = New_IdempotencyRecord x \<Longrightarrow> idem_scope x = (m, k)) \<Longrightarrow> keeps (other_keys m k) (session_add r)"
  by (rule keepsI) (auto simp: other_keys_def scope_pending_def)

lemma key_db:
  "(\<And>d. records_except m k (f d) = records_except m k d) \<Longrightarrow>
     keeps (other_keys m k) (change (\<lambda>s. s\<lparr>db := f (db s)\<rparr>))"
  by (rule keepsI) (auto simp: other_keys_def scope_pending_def)

lemma key_uuid4: "keeps (other_keys m k) uuid4"
  by (rule keepsI) (auto simp: other_keys_def scope_pending_def)

lemma key_now: "keeps (other_keys m k) datetime_now"
  by (rule keepsI) (auto simp: other_keys_def scope_pending_def)

lemmas key_keeps = key_frame.keeps_rules key_flush key_uuid4 key_now

lemma lock_balance_keys: "keeps (other_keys m k) (lock_balance a)"
  unfolding lock_balance_def select_balance_def by (intro key_keeps key_add) simp

lemma apply_posting_keys: "keeps (other_keys m k) (apply_posting tid p)"
  unfolding apply_posting_def select_balance_def
  by (intro key_keeps key_add key_db) (simp_all add: store_balance_def records_except_def)

lemma post_keys: "keeps (other_keys m k) (post ty r ps)"
  unfolding post_def Let_def by (intro key_keeps key_add lock_balance_keys apply_posting_keys) simp

lemma put_payment_keys: "keeps (other_keys m k) (put_payment p)"
  unfolding put_payment_def by (intro key_db) (simp add: records_except_def)

lemma add_outbox_keys: "keeps (other_keys m k) (add_outbox ty i e payload)"
  unfolding add_outbox_def by (intro key_keeps key_add) simp

lemmas saga_keys = key_keeps post_keys put_payment_keys add_outbox_keys

lemma settle_keys: "keeps (other_keys m k) (settle pid ref)"
  unfolding settle_def select_payment_def Let_def by (intro saga_keys)

lemma reverse_keys: "keeps (other_keys m k) (reverse pid)"
  unfolding reverse_def select_payment_def Let_def by (intro saga_keys)

lemma resolve_keys: "keeps (other_keys m k) (resolve pid a)"
  unfolding resolve_def await_webhook_def select_payment_def Let_def
  by (cases "ar_outcome a") (simp_all add: settle_keys reverse_keys, intro saga_keys)

lemma claim_keys: "keeps (other_keys m k) (claim_or_replay lock m k payload)"
  unfolding claim_or_replay_def select_idempotency_def Let_def
  by (intro key_keeps key_add) (auto simp: idem_scope_def split: IdempotencyStatus.split intro: key_keeps)

lemma complete_keys: "keeps (other_keys m k) (complete m k rid c b)"
  unfolding complete_def select_idempotency_def
proof (intro key_keeps key_db)
  fix d
  show "records_except m k (d\<lparr>idempotency_keys := set_row idem_scope (m, k)
      (\<lambda>r. r\<lparr>idem_status := COMPLETED, idem_resource_id := Some rid, idem_response_code := Some c,
        idem_response_body := Some b\<rparr>) (idempotency_keys d)\<rparr>) = records_except m k d"
    by (induction "idempotency_keys d" arbitrary: d rule: list.induct)
      (auto simp: records_except_def set_row_def idem_scope_def filter_map comp_def intro!: map_idI)
qed

lemma create_settle_keys: "keeps (other_keys (req_merchantId req) k) (create_settle env k req pid a)"
  unfolding create_settle_def Let_def by (intro saga_keys resolve_keys complete_keys)

lemma refund_keys: "keeps (other_keys ''merchant_refund'' k) (refund env k pid x)"
  unfolding refund_def book_refund_def select_payment_def Let_def
  by (intro saga_keys claim_keys complete_keys key_add)
    (auto split: prod.split intro: saga_keys)

text \<open>What a transaction around such an operation does to the other keys.\<close>

lemma transaction_keys:
  assumes "keeps (other_keys m k) body" and "transaction body s = (r, t)" and "(m', k') \<noteq> (m, k)"
  shows "key_state (db t) m' k' = key_state (db s) m' k'"
proof (cases r)
  case (Inl e)
  with assms(2) have "db t = db s" by (simp add: transaction_Inl_db)
  then show ?thesis by simp
next
  case (Inr x)
  with assms(2) obtain s1 where "body (s\<lparr>pending := []\<rparr>) = (Inr x, s1)" and t: "t = flushed s1"
    by (auto elim: transaction_Inr)
  with assms(1) have "other_keys m k (s\<lparr>pending := []\<rparr>) s1" by (blast dest: keepsD)
  then have "scope_pending m k s1" "records_except m k (db s1) = records_except m k (db s)"
    by (simp_all add: other_keys_def scope_pending_def)
  then have "records_except m k (db t) = records_except m k (db s)" by (simp add: t records_except_flushed)
  then show ?thesis using assms(3) by (rule records_except_key_state)
qed

end
