(* ===== verification/Digest.thy ===== *)
theory Digest
  imports Refunds
begin

text \<open>
  What the digest of an idempotency key binds. \<open>json.dumps(payload, sort_keys=True)\<close> is read back uniquely:
  characters, numerals, strings, lists and objects are printed by prefix codes, so the text determines the
  value up to the order of its fields. Hexadecimal digits and UTF-8 are prefix codes too, hence two requests
  with one digest are the same request or a collision of SHA-256.
\<close>

section \<open>Prefix codes\<close>

locale prefix_code =
  fixes enc :: "'a \<Rightarrow> 'b list"
  assumes enc_split: "enc x @ r = enc y @ r' \<Longrightarrow> x = y \<and> r = r'"
    and enc_nonempty: "enc x \<noteq> []"
begin

lemma concat_terminated:
  assumes "concat (map enc xs) @ t # r = concat (map enc ys) @ t # r'" and "\<And>x. hd (enc x) \<noteq> t"
  shows "xs = ys \<and> r = r'"
  using assms(1)
proof (induction xs arbitrary: ys)
  case Nil
  then show ?case using assms(2) enc_nonempty by (cases ys) (auto, metis append_eq_Cons_conv list.sel(1))
next
  case (Cons x xs)
  show ?case
  proof (cases ys)
    case Nil
    with Cons.prems assms(2)[of x] enc_nonempty[of x] show ?thesis by (cases "enc x") auto
  next
    case (Cons y zs)
    with Cons.prems enc_split[of x "concat (map enc xs) @ t # r" y "concat (map enc zs) @ t # r'"] Cons.IH[of zs]
    show ?thesis by simp
  qed
qed

lemma concat_inj: "concat (map enc xs) = concat (map enc ys) \<Longrightarrow> xs = ys"
proof (induction xs arbitrary: ys)
  case Nil
  then show ?case using enc_nonempty by (cases ys) auto
next
  case (Cons x xs)
  show ?case
  proof (cases ys)
    case Nil
    with Cons.prems enc_nonempty show ?thesis by simp
  next
    case (Cons y zs)
    with Cons.prems enc_split[of x "concat (map enc xs)" y "concat (map enc zs)"] Cons.IH[of zs]
    show ?thesis by simp
  qed
qed

end

section \<open>Hexadecimal digits\<close>

lemma of_hex_char: "0 \<le> d \<Longrightarrow> d < 16 \<Longrightarrow> (of_char (hex_char d) :: int) = (if d < 10 then 48 + d else 87 + d)"
  by (simp add: hex_char_def of_char_of)

lemma hex_char_inj:
  assumes "hex_char d = hex_char e" and "0 \<le> d" "d < 16" "0 \<le> e" "e < 16"
  shows "d = e"
proof -
  have "(if d < 10 then 48 + d else 87 + d) = (if e < 10 then 48 + e else 87 + e)"
    using assms of_hex_char by metis
  with assms(2,4) show ?thesis by (simp split: if_splits)
qed

lemma hex_digits_Suc: "hex_digits (Suc w) n = hex_char (n div 16 ^ w mod 16) # hex_digits w n"
  by (simp add: hex_digits_def)

lemma hex_digits_mod: "hex_digits w n = hex_digits w m \<Longrightarrow> n mod 16 ^ w = m mod 16 ^ w"
proof (induction w)
  case (Suc w)
  then have "n div 16 ^ w mod 16 = m div 16 ^ w mod 16" and "n mod 16 ^ w = m mod 16 ^ w"
    by (auto simp: hex_digits_Suc intro: hex_char_inj)
  moreover have "k mod 16 ^ Suc w = 16 ^ w * (k div 16 ^ w mod 16) + k mod 16 ^ w" for k :: int
    using zmod_zmult2_eq[of 16 k "16 ^ w"] by (simp add: mult.commute)
  ultimately show ?case by simp
qed simp

lemma hex_digits_inj:
  assumes "hex_digits w n = hex_digits w m" and "0 \<le> n" "n < 16 ^ w" "0 \<le> m" "m < 16 ^ w"
  shows "n = m"
  using hex_digits_mod[OF assms(1)] assms(2-5) by simp

interpretation hex_byte: prefix_code "\<lambda>b :: byte. hex_digits 2 (uint b)"
proof
  fix x y :: byte and r r'
  assume "hex_digits 2 (uint x) @ r = hex_digits 2 (uint y) @ r'"
  then have "hex_digits 2 (uint x) = hex_digits 2 (uint y)" "r = r'" by (simp_all add: append_eq_append_conv)
  moreover have "uint b < 16 ^ 2" for b :: byte using uint_bounded[of b] by simp
  ultimately show "x = y \<and> r = r'" using hex_digits_inj[of 2 "uint x" "uint y"] by (simp add: word_uint_eq_iff)
next
  show "hex_digits 2 (uint x) \<noteq> []" for x :: byte using length_hex_digits[of 2 "uint x"] by fastforce
qed

lemma hex_inj: "hex xs = hex ys \<longleftrightarrow> xs = ys"
  using hex_byte.concat_inj by (auto simp: hex_def)

lemma str_uuid_inj [simp]: "str_uuid u = str_uuid v \<longleftrightarrow> u = v"
proof
  let ?h = "\<lambda>u. hex_digits 32 (uint (uuid_int u))"
  have split: "h = take 8 h @ take 4 (drop 8 h) @ take 4 (drop 12 h) @ take 4 (drop 16 h) @ drop 20 h" for h :: string
  proof -
    have "take j (drop i h) @ drop (i + j) h = drop i h" for i j by (metis append_take_drop_id drop_drop add.commute)
    from this[of 4 8] this[of 4 12] this[of 4 16] this[of 8 0] show ?thesis by simp
  qed
  assume "str_uuid u = str_uuid v"
  then have "?h u = ?h v"
    using split[of "?h u"] split[of "?h v"] by (simp add: str_uuid_def Let_def append_eq_append_conv)
  moreover have "uint (uuid_int w) < 16 ^ 32" for w using uint_bounded[of "uuid_int w"] by simp
  ultimately show "u = v"
    using hex_digits_inj[of 32 "uint (uuid_int u)" "uint (uuid_int v)"] by (simp add: UUID.expand word_uint_eq_iff)
qed simp

section \<open>UTF-8\<close>

lemma of_char_range: "(of_char c :: nat) < 256"
  by (simp add: nat_of_char_less_256)

lemma of_char_int_range: "0 \<le> (of_char c :: int) \<and> (of_char c :: int) < 256"
proof -
  have "int (of_char c) = (of_char c :: int)" by (rule of_nat_of_char)
  then show ?thesis using of_char_range[of c] by linarith
qed

lemma byte_of_nat_inj: "n < 256 \<Longrightarrow> m < 256 \<Longrightarrow> (of_nat n :: byte) = of_nat m \<longleftrightarrow> n = m"
proof -
  assume "n < 256" "m < 256"
  then have "unat (of_nat n :: byte) = n" "unat (of_nat m :: byte) = m" by (simp_all add: unat_of_nat)
  then show ?thesis by metis
qed

lemma utf8_code:
  assumes "n < 256" and "m < 256"
    and "(if n < 128 then [of_nat n] else [of_nat (192 + n div 64), of_nat (128 + n mod 64)]) @ r =
      (if m < 128 then [of_nat m] else [of_nat (192 + m div 64), of_nat (128 + m mod 64) :: byte]) @ r'"
  shows "n = m \<and> r = r'"
proof -
  have small: "192 + k div 64 < 256" "128 + k mod 64 < 256" if "k < 256" for k :: nat using that by auto
  note inj = byte_of_nat_inj[OF small(1)[OF assms(1)] small(1)[OF assms(2)]]
    byte_of_nat_inj[OF small(2)[OF assms(1)] small(2)[OF assms(2)]] byte_of_nat_inj[OF assms(1,2)]
    byte_of_nat_inj[OF assms(1) small(1)[OF assms(2)]] byte_of_nat_inj[OF small(1)[OF assms(1)] assms(2)]
  have "n div 64 = m div 64 \<Longrightarrow> n mod 64 = m mod 64 \<Longrightarrow> n = m" by (metis div_mult_mod_eq)
  with assms(3) show ?thesis
    by (cases "n < 128"; cases "m < 128") (auto simp only: if_True if_False append_Cons append_Nil list.inject inj)
qed

interpretation utf8: prefix_code utf8_char
proof
  show "x = y \<and> r = r'" if "utf8_char x @ r = utf8_char y @ r'" for x y r r'
    using utf8_code[of "of_char x" "of_char y" r r'] that by (simp add: utf8_char_def Let_def of_char_range)
  show "utf8_char x \<noteq> []" for x by (simp add: utf8_char_def Let_def)
qed

lemma encode_inj: "encode s = encode t \<longleftrightarrow> s = t"
  using utf8.concat_inj by (auto simp: encode_def)


section \<open>Numerals\<close>

definition is_digit :: "char \<Rightarrow> bool" where
  "is_digit c \<longleftrightarrow> (48 :: int) \<le> of_char c \<and> (of_char c :: int) \<le> 57"

text \<open>A text a numeral may stand before: it does not go on with a digit.\<close>

definition no_digit :: "string \<Rightarrow> bool" where
  "no_digit r \<longleftrightarrow> (case r of [] \<Rightarrow> True | c # _ \<Rightarrow> \<not> is_digit c)"

definition dec_value :: "string \<Rightarrow> int" where
  "dec_value s = foldl (\<lambda>a c. 10 * a + (of_char c - 48)) 0 s"

lemma of_digit_char: "0 \<le> d \<Longrightarrow> d < 10 \<Longrightarrow> (of_char (digit_char d) :: int) = 48 + d"
  by (simp add: digit_char_def of_char_of)

lemma dec_value_str_nat: "0 \<le> n \<Longrightarrow> dec_value (str_nat n) = n"
proof (induction n rule: str_nat.induct)
  case (1 n)
  then show ?case
    by (subst str_nat.simps) (simp add: dec_value_def of_digit_char)
qed

lemma digit_char_digit: "0 \<le> d \<Longrightarrow> d < 10 \<Longrightarrow> is_digit (digit_char d)"
  by (simp add: is_digit_def of_digit_char)

lemma str_nat_digits: "0 \<le> n \<Longrightarrow> (\<forall>c\<in>set (str_nat n). is_digit c) \<and> str_nat n \<noteq> []"
proof (induction n rule: str_nat.induct)
  case (1 n)
  then show ?case by (cases "n < 10") (auto simp: str_nat.simps[of n] intro: digit_char_digit)
qed

lemma str_nat_span:
  assumes "0 \<le> n" and "no_digit r"
  shows "takeWhile is_digit (str_nat n @ r) = str_nat n" "dropWhile is_digit (str_nat n @ r) = r"
  using str_nat_digits[OF assms(1)] assms(2) by (cases r; simp add: no_digit_def takeWhile_append2 dropWhile_append2)+

lemma str_nat_split:
  assumes "str_nat n @ r = str_nat m @ r'" and "0 \<le> n" "0 \<le> m" and "no_digit r" "no_digit r'"
  shows "n = m \<and> r = r'"
proof -
  from assms have "str_nat n = str_nat m" "r = r'" using str_nat_span[of n r] str_nat_span[of m r'] by simp_all
  with dec_value_str_nat[of n] dec_value_str_nat[of m] assms(2,3) show ?thesis by metis
qed

lemma hd_str_nat: "0 \<le> n \<Longrightarrow> is_digit (hd (str_nat n @ r))"
  using str_nat_digits[of n] by (cases "str_nat n") auto

lemma minus_no_digit: "\<not> is_digit (CHR ''-'')"
  by (simp add: is_digit_def)

lemma str_int_split:
  assumes "str_int i @ r = str_int j @ r'" and "no_digit r" "no_digit r'"
  shows "i = j \<and> r = r'"
proof -
  have minus: "''-'' @ u \<noteq> str_nat k @ v" if "0 \<le> k" for u v k
    using hd_str_nat[OF that, of v] by (metis append_Cons list.sel(1) minus_no_digit)
  show ?thesis
    using assms str_nat_split[of "- i" r "- j" r'] str_nat_split[of i r j r'] minus[of i] minus[of j]
    by (auto simp: str_int_def split: if_splits) metis+
qed

section \<open>Strings\<close>

definition short_escapes :: "(char \<times> char) list" where
  "short_escapes = [(CHR 0x22, CHR 0x22), (CHR 0x5C, CHR 0x5C), (CHR 0x0A, CHR ''n''), (CHR 0x0D, CHR ''r''),
     (CHR 0x09, CHR ''t''), (CHR 0x0C, CHR ''f''), (CHR 0x08, CHR ''b'')]"

lemma of_char_numeral:
  "(of_char c :: int) = 10 \<longleftrightarrow> c = CHR 0x0A" "(of_char c :: int) = 13 \<longleftrightarrow> c = CHR 0x0D"
  "(of_char c :: int) = 9 \<longleftrightarrow> c = CHR 0x09" "(of_char c :: int) = 12 \<longleftrightarrow> c = CHR 0x0C"
  "(of_char c :: int) = 8 \<longleftrightarrow> c = CHR 0x08"
proof -
  have of: "(of_char c :: int) = of_char d \<longleftrightarrow> c = d" for d by simp
  show "(of_char c :: int) = 10 \<longleftrightarrow> c = CHR 0x0A" using of[of "CHR 0x0A"] by (simp only: of_char_Char) simp
  show "(of_char c :: int) = 13 \<longleftrightarrow> c = CHR 0x0D" using of[of "CHR 0x0D"] by (simp only: of_char_Char) simp
  show "(of_char c :: int) = 9 \<longleftrightarrow> c = CHR 0x09" using of[of "CHR 0x09"] by (simp only: of_char_Char) simp
  show "(of_char c :: int) = 12 \<longleftrightarrow> c = CHR 0x0C" using of[of "CHR 0x0C"] by (simp only: of_char_Char) simp
  show "(of_char c :: int) = 8 \<longleftrightarrow> c = CHR 0x08" using of[of "CHR 0x08"] by (simp only: of_char_Char) simp
qed

lemma json_escape_char_cases:
  "json_escape_char c = (case map_of short_escapes c of Some e \<Rightarrow> [CHR 0x5C, e]
     | None \<Rightarrow> if (of_char c :: int) < 32 \<or> (of_char c :: int) > 126 then CHR 0x5C # CHR ''u'' # hex_digits 4 (of_char c)
         else [c])"
  unfolding json_escape_char_def Let_def short_escapes_def of_char_numeral by simp

lemma short_escapes_Some:
  "map_of short_escapes c = Some e \<Longrightarrow> e \<noteq> CHR ''u'' \<and> (map_of short_escapes d = Some e \<longrightarrow> d = c)"
  by (auto simp: short_escapes_def split: if_splits)

lemma short_escapes_None: "map_of short_escapes c = None \<Longrightarrow> c \<noteq> CHR 0x5C \<and> c \<noteq> CHR 0x22"
  by (auto simp: short_escapes_def)

lemma hex4_split: "hex_digits 4 (of_char x) @ r = hex_digits 4 (of_char y) @ r' \<Longrightarrow> x = y \<and> r = r'"
  using hex_digits_inj[of 4 "of_char x" "of_char y"] of_char_int_range[of x] of_char_int_range[of y]
  by (auto simp: append_eq_append_conv)

interpretation escape: prefix_code json_escape_char
proof
  show "c = d \<and> r = r'" if "json_escape_char c @ r = json_escape_char d @ r'" for c d r r'
    using that hex4_split[of c r d r'] short_escapes_Some[of c _ d] short_escapes_Some[of d _ c]
      short_escapes_None[of c] short_escapes_None[of d]
    by (auto simp: json_escape_char_cases split: option.splits if_splits)
  show "json_escape_char c \<noteq> []" for c by (simp add: json_escape_char_def Let_def)
qed

lemma hd_escape: "hd (json_escape_char c) \<noteq> CHR 0x22"
  using short_escapes_None[of c] by (simp add: json_escape_char_cases split: option.splits)

lemma json_quote_split: "json_quote s @ r = json_quote t @ r' \<Longrightarrow> s = t \<and> r = r'"
  using escape.concat_terminated[OF _ hd_escape, of s r t r'] by (simp add: json_quote_def)

section \<open>Values\<close>

text \<open>The canonical form of a value: the fields of every object in the order of their names.\<close>

fun sort_fields :: "json \<Rightarrow> json" where
  "sort_fields (JList xs) = JList (map sort_fields xs)"
| "sort_fields (JObj kvs) = JObj (sort_key fst (map (\<lambda>(k, v). (k, sort_fields v)) kvs))"
| "sort_fields j = j"

text \<open>Printing without sorting.\<close>

fun print_json :: "json \<Rightarrow> string" where
  "print_json JNull = ''null''"
| "print_json (JBool b) = (if b then ''true'' else ''false'')"
| "print_json (JInt i) = str_int i"
| "print_json (JStr s) = json_quote s"
| "print_json (JList xs) = ''['' @ comma_join (map print_json xs) @ '']''"
| "print_json (JObj kvs) = ''{'' @ comma_join (map (\<lambda>(k, v). json_quote k @ '': '' @ print_json v) kvs) @ ''}''"

lemma insort_map_fst:
  "insort_key fst (k, g v) (map (\<lambda>(k, v). (k, g v)) xs) = map (\<lambda>(k, v). (k, g v)) (insort_key fst (k, v) xs)"
  by (induction xs) auto

lemma sort_map_fst:
  "sort_key fst (map (\<lambda>(k, v). (k, g v)) xs) = map (\<lambda>(k, v). (k, g v)) (sort_key fst xs)"
  by (induction xs) (auto simp: insort_map_fst)

lemma json_dumps_print: "json_dumps j = print_json (sort_fields j)"
proof (induction j rule: sort_fields.induct)
  case (2 kvs)
  let ?p = "\<lambda>(k :: string, v). (k, print_json v)"
  have "map (\<lambda>(k, v). (k, json_dumps v)) kvs = map (\<lambda>(k, v). (k, print_json v)) (map (\<lambda>(k, v). (k, sort_fields v)) kvs)"
    using 2 by auto
  then have "sort_key fst (map (\<lambda>(k, v). (k, json_dumps v)) kvs) =
      map (\<lambda>(k, v). (k, print_json v)) (sort_key fst (map (\<lambda>(k, v). (k, sort_fields v)) kvs))"
    by (simp only: sort_map_fst)
  then show ?case by (simp add: comp_def case_prod_unfold)
qed (simp_all cong: map_cong)

text \<open>The first character tells the kind of a value.\<close>

definition head_kind :: "char \<Rightarrow> nat" where
  "head_kind c = (if c = CHR ''n'' then 0 else if c = CHR ''t'' then 1 else if c = CHR ''f'' then 2
     else if c = CHR 0x22 then 3 else if c = CHR ''['' then 4 else if c = CHR ''{'' then 5 
     else if is_digit c \<or> c = CHR ''-'' then 6 else 7)"

fun json_kind :: "json \<Rightarrow> nat" where
  "json_kind JNull = 0"
| "json_kind (JBool b) = (if b then 1 else 2)"
| "json_kind (JStr _) = 3"
| "json_kind (JList _) = 4"
| "json_kind (JObj _) = 5"
| "json_kind (JInt _) = 6"

lemma hd_str_int: "is_digit (hd (str_int i @ r)) \<or> hd (str_int i @ r) = CHR ''-''"
  using hd_str_nat[of i r] by (auto simp: str_int_def)

lemma digit_kind: "is_digit c \<or> c = CHR ''-'' \<Longrightarrow> head_kind c = 6"
  by (auto simp: head_kind_def is_digit_def)

lemma head_kind: "head_kind (hd (print_json j @ r)) = json_kind j"
proof (cases j)
  case (JInt i)
  with digit_kind[OF hd_str_int[of i r]] show ?thesis by simp
qed (auto simp: head_kind_def json_quote_def)

lemma print_nonempty: "print_json j \<noteq> []"
proof (cases j)
  case (JInt i)
  with str_nat_digits[of i] str_nat_digits[of "- i"] show ?thesis by (simp add: str_int_def)
qed (auto simp: json_quote_def)

text \<open>Lists of values, separated by commas and closed by a bracket.\<close>

lemma no_digit_tail: "\<not> is_digit t \<Longrightarrow> no_digit (concat (map (\<lambda>z. '', '' @ enc z) xs) @ t # r)"
  by (cases xs) (auto simp: no_digit_def is_digit_def)

lemma tail_split:
  assumes "concat (map (\<lambda>z. '', '' @ enc z) xs) @ t # r = concat (map (\<lambda>z. '', '' @ enc z) ys) @ t # r'"
    and "\<And>x y u u'. x \<in> set xs \<Longrightarrow> enc x @ u = enc y @ u' \<Longrightarrow> no_digit u \<Longrightarrow> no_digit u' \<Longrightarrow> x = y \<and> u = u'"
    and "t \<noteq> CHR '',''" and "\<not> is_digit t"
  shows "xs = ys \<and> r = r'"
  using assms(1,2)
proof (induction xs arbitrary: ys)
  case Nil
  then show ?case using assms(3) by (cases ys) auto
next
  case (Cons x xs)
  show ?case
  proof (cases ys)
    case Nil
    with Cons.prems assms(3) show ?thesis by auto
  next
    case (Cons y zs)
    let ?tail = "\<lambda>xs r. concat (map (\<lambda>z. '', '' @ enc z) xs) @ t # r"
    have "enc x @ ?tail xs r = enc y @ ?tail zs r'" using Cons.prems(1) by (simp add: Cons)
    with Cons.prems(2)[of x "?tail xs r" y "?tail zs r'"] no_digit_tail[OF assms(4)]
    have "x = y" "?tail xs r = ?tail zs r'" by auto
    moreover have "xs = zs \<and> r = r'"
      by (rule Cons.IH[OF \<open>?tail xs r = ?tail zs r'\<close>]) (rule Cons.prems(2), simp_all)
    ultimately show ?thesis by (simp add: Cons)
  qed
qed

lemma join_split:
  assumes "comma_join (map enc xs) @ t # r = comma_join (map enc ys) @ t # r'"
    and "\<And>x y u u'. x \<in> set xs \<Longrightarrow> enc x @ u = enc y @ u' \<Longrightarrow> no_digit u \<Longrightarrow> no_digit u' \<Longrightarrow> x = y \<and> u = u'"
    and "t \<noteq> CHR '',''" and "\<not> is_digit t" and hd: "\<And>x u. hd (enc x @ u) \<noteq> t"
  shows "xs = ys \<and> r = r'"
proof -
  have join: "comma_join (map enc (z # zs)) @ t # u = enc z @ concat (map (\<lambda>z. '', '' @ enc z) zs) @ t # u" for z zs u
    by (simp add: comma_join_def comp_def)
  show ?thesis
  proof (cases xs; cases ys)
    fix x xs' y ys' assume xy: "xs = x # xs'" "ys = y # ys'"
    let ?tail = "\<lambda>xs r. concat (map (\<lambda>z. '', '' @ enc z) xs) @ t # r"
    from assms(1) have "enc x @ ?tail xs' r = enc y @ ?tail ys' r'" by (simp only: xy join)
    with assms(2)[of x "?tail xs' r" y "?tail ys' r'"] no_digit_tail[OF assms(4)] xy
    have "x = y" "?tail xs' r = ?tail ys' r'" by auto
    moreover have "xs' = ys' \<and> r = r'"
      by (rule tail_split[OF \<open>?tail xs' r = ?tail ys' r'\<close> _ assms(3,4)]) (rule assms(2), simp_all add: xy)
    ultimately show ?thesis by (simp add: xy)
  next
    fix y ys' assume "xs = []" "ys = y # ys'"
    with assms(1) hd[of y] show ?thesis by (metis join append_Nil comma_join_def list.case(1) list.map(1) list.sel(1))
  next
    fix x xs' assume "ys = []" "xs = x # xs'"
    with assms(1) hd[of x] show ?thesis by (metis join append_Nil comma_join_def list.case(1) list.map(1) list.sel(1))
  qed (use assms(1) in \<open>simp add: comma_join_def\<close>)
qed

lemma print_split:
  "print_json j @ r = print_json j' @ r' \<Longrightarrow> no_digit r \<Longrightarrow> no_digit r' \<Longrightarrow> j = j' \<and> r = r'"
proof (induction j arbitrary: j' r r')
  case JNull
  from JNull.prems(1) head_kind[of JNull r] head_kind[of j' r'] have "json_kind j' = 0" by simp
  with JNull.prems show ?case by (cases j') (auto split: if_splits)
next
  case (JBool b)
  from JBool.prems(1) head_kind[of "JBool b" r] head_kind[of j' r'] have "json_kind j' = (if b then 1 else 2)" by simp
  with JBool.prems show ?case by (cases j') (auto split: if_splits)
next
  case (JInt i)
  from JInt.prems(1) head_kind[of "JInt i" r] head_kind[of j' r'] have "json_kind j' = 6" by simp
  with JInt.prems str_int_split[of i r _ r'] show ?case by (cases j') (auto split: if_splits)
next
  case (JStr s)
  from JStr.prems(1) head_kind[of "JStr s" r] head_kind[of j' r'] have "json_kind j' = 3" by simp
  with JStr.prems json_quote_split[of s r _ r'] show ?case by (cases j') (auto split: if_splits)
next
  case (JList xs)
  from JList.prems(1) head_kind[of "JList xs" r] head_kind[of j' r'] have "json_kind j' = 4" by simp
  then obtain ys where j': "j' = JList ys" by (cases j') (auto split: if_splits)
  have "hd (print_json x @ u) \<noteq> CHR '']''" for x u
    using head_kind[of x u] by (cases x) (auto simp: head_kind_def is_digit_def)
  moreover have "comma_join (map print_json xs) @ CHR '']'' # r = comma_join (map print_json ys) @ CHR '']'' # r'"
    using JList.prems(1) by (simp add: j')
  ultimately show ?case using join_split[of print_json xs "CHR '']''" r ys r'] JList.IH by (auto simp: j' is_digit_def)
next
  case (JObj kvs)
  let ?enc = "\<lambda>(k, v). json_quote k @ '': '' @ print_json v"
  from JObj.prems(1) head_kind[of "JObj kvs" r] head_kind[of j' r'] have "json_kind j' = 5" by simp
  then obtain kvs' where j': "j' = JObj kvs'" by (cases j') (auto split: if_splits)
  have "hd (?enc x @ u) \<noteq> CHR ''}''" for x u by (auto simp: json_quote_def split: prod.split)
  moreover have "comma_join (map ?enc kvs) @ CHR ''}'' # r = comma_join (map ?enc kvs') @ CHR ''}'' # r'"
    using JObj.prems(1) by (simp add: j')
  moreover have "x = y \<and> u = u'" if "x \<in> set kvs" "?enc x @ u = ?enc y @ u'" "no_digit u" "no_digit u'" for x y u u'
  proof -
    obtain k v k' v' where xy: "x = (k, v)" "y = (k', v')" by (cases x; cases y) auto
    with that(2) json_quote_split[of k "'': '' @ print_json v @ u" k' "'': '' @ print_json v' @ u'"]
    have "k = k'" "print_json v @ u = print_json v' @ u'" by auto
    with JObj.IH[of x v u v' u'] that xy show ?thesis by (auto simp: snds.simps)
  qed
  ultimately show ?case using join_split[of ?enc kvs "CHR ''}''" r kvs' r'] by (auto simp: j' is_digit_def)
qed

lemma json_dumps_inj: "json_dumps p = json_dumps q \<longleftrightarrow> sort_fields p = sort_fields q"
proof
  assume "json_dumps p = json_dumps q"
  with print_split[of "sort_fields p" "[]" "sort_fields q" "[]"] show "sort_fields p = sort_fields q"
    by (simp add: json_dumps_print no_digit_def)
qed (simp add: json_dumps_print)

text \<open>Objects with the same canonical form have the same values in their fields.\<close>

lemma sort_fields_member:
  assumes "sort_fields (JObj kvs) = sort_fields (JObj kvs')" and "(k, v) \<in> set kvs"
  shows "\<exists>v'. (k, v') \<in> set kvs' \<and> sort_fields v' = sort_fields v"
proof -
  let ?f = "\<lambda>(k :: string, v). (k, sort_fields v)"
  from assms(1) have "set (sort_key fst (map ?f kvs)) = set (sort_key fst (map ?f kvs'))" by simp
  moreover have "(k, sort_fields v) \<in> ?f ` set kvs" using assms(2) by force
  ultimately show ?thesis by force
qed

section \<open>What a digest binds\<close>

definition sha256_collision :: "string \<Rightarrow> string \<Rightarrow> bool" where
  "sha256_collision s t \<longleftrightarrow> encode s \<noteq> encode t \<and> sha256_digest (encode s) = sha256_digest (encode t)"

lemma compute_hash_eq:
  "compute_hash p = compute_hash q \<longleftrightarrow>
     sort_fields p = sort_fields q \<or> sha256_collision (json_dumps p) (json_dumps q)"
  by (auto simp: compute_hash_def sha256_hexdigest_def sha256_collision_def hex_inj encode_inj simp flip: json_dumps_inj)

text \<open>
  The digest of an idempotency key binds the request body: two bodies have the same digest exactly
  if they are the same value up to the order of fields, or if their texts are a collision of SHA-256.
  Printing loses nothing: escapes, numerals, lists and nested objects are read back uniquely.
\<close>

lemma digest_binds_body:
  "compute_hash p = compute_hash q \<longleftrightarrow>
     sort_fields p = sort_fields q \<or> sha256_collision (json_dumps p) (json_dumps q)"
  by (rule compute_hash_eq)

lemma refund_payload_inj:
  "sort_fields (refund_claim_payload i x) = sort_fields (refund_claim_payload j y) \<longleftrightarrow> i = j \<and> x = y"
proof
  let ?p = "\<lambda>i x. [(''payment_id'', JStr (str_uuid i)), (''amount'', JInt x)]"
  assume "sort_fields (refund_claim_payload i x) = sort_fields (refund_claim_payload j y)"
  then have eq: "sort_fields (JObj (?p i x)) = sort_fields (JObj (?p j y))" by (simp only: refund_claim_payload_def)
  show "i = j \<and> x = y"
    using sort_fields_member[OF eq, of "''payment_id''" "JStr (str_uuid i)"]
      sort_fields_member[OF eq, of "''amount''" "JInt x"] by auto
qed simp

text \<open>The fields of a request, as \<open>model_dump(mode="json")\<close> of pydantic documents them.\<close>

lemma model_dump_inj: "sort_fields (model_dump a) = sort_fields (model_dump b) \<longleftrightarrow> a = b"
proof
  let ?p = "\<lambda>r. [(''merchantId'', JStr (req_merchantId r)), (''payerAccountId'', JStr (str_uuid (req_payerAccountId r))),
    (''payeeAccountId'', JStr (str_uuid (req_payeeAccountId r))), (''amount'', JInt (req_amount r)),
    (''currency'', JStr (req_currency r))]"
  assume "sort_fields (model_dump a) = sort_fields (model_dump b)"
  then have eq: "sort_fields (JObj (?p a)) = sort_fields (JObj (?p b))" by (simp only: model_dump_def)
  show "a = b"
    using sort_fields_member[OF eq, of "''merchantId''" "JStr (req_merchantId a)"]
      sort_fields_member[OF eq, of "''payerAccountId''" "JStr (str_uuid (req_payerAccountId a))"]
      sort_fields_member[OF eq, of "''payeeAccountId''" "JStr (str_uuid (req_payeeAccountId a))"]
      sort_fields_member[OF eq, of "''amount''" "JInt (req_amount a)"]
      sort_fields_member[OF eq, of "''currency''" "JStr (req_currency a)"]
    by (cases a; cases b) auto
qed simp

text \<open>
  C17. A stored response is never given to another request. After a payment request returned under a key,
  a second request of the same merchant under that key returns only if it is the same request, with the
  first answer and no change to any table; unless the two texts are a collision of SHA-256.
\<close>

theorem create_key_binds:
  assumes "payment_provider psp" and "codec_ok env" and "dump_request env = model_dump"
    and "key_state (db s) (req_merchantId req) k = Unused"
    and "create env psp k req s = (Inr (c, r), t)"
    and "create env psp k req' t = (Inr (c', r'), u)" and "req_merchantId req' = req_merchantId req"
  shows "req' = req \<and> c' = c \<and> r' = r \<and> db u = db t \<or>
    sha256_collision (json_dumps (model_dump req)) (json_dumps (model_dump req'))"
proof -
  have fin: "key_state (db t) (req_merchantId req') k = Finished (request_hash env req) 201 (dump_payment env r)"
    and c: "c = 201" by (rule create_Inr[OF assms(5,1,2,4)], simp add: assms(7))+
  have "request_hash env req = request_hash env req'"
  proof (rule ccontr)
    assume "request_hash env req \<noteq> request_hash env req'"
    then have "claim_outcome (key_state (db t) (req_merchantId req') k) k (request_hash env req') =
        Inl (IdempotencyMismatchException k)" by (simp add: fin)
    from create_rejected[OF this, of psp] assms(6) show False by auto
  qed
  then consider "req' = req" | "sha256_collision (json_dumps (model_dump req)) (json_dumps (model_dump req'))"
    using compute_hash_eq[of "model_dump req" "model_dump req'"]
    by (auto simp: request_hash_def assms(3) model_dump_inj)
  then show ?thesis
  proof cases
    case 1
    have "load_payment env (dump_payment env r) = Inr r" using assms(2) by (simp add: codec_ok_def)
    from create_replayed[OF _ create_Inr_constraints[OF assms(5)] this, of req k 201 psp] fin assms(6)
    show ?thesis by (auto simp: 1 c)
  qed simp
qed

theorem create_key_binds_witness:
  "\<exists>r t u. create sample_env mock_authorize ''k'' (sample_request 300) sample_world = (Inr (201, r), t) \<and>
     create sample_env mock_authorize ''k'' (sample_request 300) t = (Inr (201, r), u) \<and> db u = db t"
proof -
  obtain r t where c: "create sample_env mock_authorize ''k'' (sample_request 300) sample_world = (Inr (201, r), t)"
    by (rule sample_create)
  from create_again[OF mock.payment_provider_axioms sample_env_codec sample_key c refl create_Inr_constraints[OF c]]
  obtain u where u: "create sample_env mock_authorize ''k'' (sample_request 300) t = (Inr (201, r), u)" by blast
  have "\<not> sha256_collision s s" for s by (simp add: sha256_collision_def)
  with create_key_binds[OF mock.payment_provider_axioms sample_env_codec _ sample_key c u refl] c u show ?thesis
    by (auto simp: sample_env_def)
qed

lemma refund_claim_rejected:
  assumes "claim_outcome (refund_key (db s) k) k (refund_hash pid x) = Inl e"
  shows "\<exists>t. transaction (refund env k pid x) s = (Inl e, t) \<and> db t = db s"
proof -
  let ?s0 = "s\<lparr>pending := []\<rparr>"
  have "refund_key (db ?s0) k \<noteq> Unused" using assms by auto
  from claim_used[OF this] assms have "refund env k pid x ?s0 = (Inl e, ?s0)"
    by (simp add: refund_def and_then_def refund_hash_def)
  from transaction_InlI[of "refund env k pid x", OF this] show ?thesis by (simp add: rollback_def)
qed

text \<open>
  The refund keys of all merchants share one namespace: after a refund returned under a key, a refund
  of any other payment, or of another amount, under the same key is refused with
  IdempotencyMismatchException and changes no table, whoever asks; unless the two texts are a collision
  of SHA-256.
\<close>

lemma refund_keys_shared:
  assumes "codec_ok env" and "key_state (db s) ''merchant_refund'' k = Unused"
    and "process_refund env k i x s = (Inr (c, r), t)" and "0 < y" and "j \<noteq> i \<or> y \<noteq> x"
  shows "(\<exists>u. process_refund env k j y t = (Inl (IdempotencyMismatchException k), u) \<and> db u = db t) \<or>
    sha256_collision (json_dumps (refund_claim_payload i x)) (json_dumps (refund_claim_payload j y))"
proof -
  from assms(3) have run: "transaction (refund env k i x) s = (Inr (c, r), t)"
    by (simp add: process_refund_def split: if_splits)
  have fin: "refund_key (db t) k = Finished (refund_hash i x) c (dump_refund env r)"
    using run assms(2,1) by (rule refund_effect; simp)
  show ?thesis
  proof (cases "refund_hash i x = refund_hash j y")
    case True
    with compute_hash_eq[of "refund_claim_payload i x" "refund_claim_payload j y"] assms(5) show ?thesis
      by (auto simp: refund_hash_def refund_payload_inj)
  next
    case False
    then have "claim_outcome (refund_key (db t) k) k (refund_hash j y) = Inl (IdempotencyMismatchException k)"
      by (simp add: fin)
    from refund_claim_rejected[OF this, of env] assms(4) show ?thesis
      by (simp add: process_refund_def RefundRequest_valid_def)
  qed
qed

lemma refund_keys_shared_witness:
  "\<exists>c r t. process_refund sample_env ''r'' (UUID 50) 15 (sample_paid PaymentStatus.SUCCEEDED) = (Inr (c, r), t) \<and>
     ((\<exists>u. process_refund sample_env ''r'' (UUID 51) 15 t = (Inl (IdempotencyMismatchException ''r''), u) \<and> db u = db t) \<or>
      sha256_collision (json_dumps (refund_claim_payload (UUID 50) 15)) (json_dumps (refund_claim_payload (UUID 51) 15)))"
proof -
  obtain c r t where "process_refund sample_env ''r'' (UUID 50) 15 (sample_paid PaymentStatus.SUCCEEDED) = (Inr (c, r), t)"
    using refund_succeeds[OF sample_can_refund[of 15]] by (auto simp: process_refund_def RefundRequest_valid_def)
  with refund_keys_shared[OF sample_env_codec _ this, of 15 "UUID 51"] show ?thesis by auto
qed

end
