(* ===== verification/Loads.thy ===== *)
theory Loads
  imports Digest "HOL-Library.AList" "HOL-Library.Sublist"
begin

text \<open>
  \<open>json.loads\<close>, as the webhook handler applies it to the body of a request: the scanner of Python's
  \<open>json\<close> package with its default settings. Values outside the model end in \<open>Outside\<close>: numbers with
  a fraction or an exponent, \<open>NaN\<close> and the infinities, and escapes of characters above U+00FF. The
  theorems say that what \<open>json.dumps\<close> prints is read back.
\<close>

section \<open>Scanner\<close>

text \<open>The value and the text behind it, a \<open>JSONDecodeError\<close>, or a value that is not modelled.\<close>

datatype 'a scan = Got 'a string | Bad | Outside

definition json_space :: "char \<Rightarrow> bool" where
  "json_space c \<longleftrightarrow> c \<in> {CHR '' '', CHR 0x09, CHR 0x0A, CHR 0x0D}"

definition skip_space :: "string \<Rightarrow> string" where
  "skip_space s = dropWhile json_space s"

definition hex_value :: "char \<Rightarrow> int option" where
  "hex_value c = (let n = of_char c :: int in
     if 48 \<le> n \<and> n \<le> 57 then Some (n - 48)
     else if 97 \<le> n \<and> n \<le> 102 then Some (n - 87)
     else if 65 \<le> n \<and> n \<le> 70 then Some (n - 55) else None)"

definition hex4_value :: "string \<Rightarrow> int option" where
  "hex4_value s = foldl (\<lambda>a c. case (a, hex_value c) of
     (Some v, Some d) \<Rightarrow> Some (16 * v + d) | _ \<Rightarrow> None) (Some 0) s"

text \<open>What may follow a backslash, beside \<open>u\<close>.\<close>

definition unescape :: "char \<Rightarrow> char option" where
  "unescape e = map_of ([(b, a). (a, b) \<leftarrow> short_escapes] @ [(CHR ''/'', CHR ''/'')]) e"

fun got_char :: "char \<Rightarrow> string scan \<Rightarrow> string scan" where
  "got_char c (Got s r) = Got (c # s) r"
| "got_char c Bad = Bad"
| "got_char c Outside = Outside"

text \<open>A string, behind its opening quote.\<close>

fun scan_string :: "string \<Rightarrow> string scan" where
  "scan_string [] = Bad"
| "scan_string (c # cs) =
     (if c = CHR 0x22 then Got [] cs
      else if c = CHR 0x5C then (case cs of
          [] \<Rightarrow> Bad
        | e # r \<Rightarrow> if e = CHR ''u'' then (case r of
              h1 # h2 # h3 # h4 # r' \<Rightarrow> (case hex4_value [h1, h2, h3, h4] of
                  None \<Rightarrow> Bad
                | Some n \<Rightarrow> if n < 256 then got_char (char_of n) (scan_string r') else Outside)
            | _ \<Rightarrow> Bad)
          else (case unescape e of None \<Rightarrow> Bad | Some d \<Rightarrow> got_char d (scan_string r)))
      else if (of_char c :: int) < 32 then Bad
      else got_char c (scan_string cs))"

text \<open>A numeral goes on with a fraction or an exponent.\<close>

definition starts_digit :: "string \<Rightarrow> bool" where
  "starts_digit s \<longleftrightarrow> s \<noteq> [] \<and> is_digit (hd s)"

definition not_integer :: "string \<Rightarrow> bool" where
  "not_integer s = (case s of
     [] \<Rightarrow> False
   | c # r \<Rightarrow> c = CHR ''.'' \<and> starts_digit r \<or>
       c \<in> {CHR ''e'', CHR ''E''} \<and> (starts_digit r \<or>
         r \<noteq> [] \<and> hd r \<in> {CHR ''+'', CHR ''-''} \<and> starts_digit (tl r)))"

text \<open>The digits of an integer: a single zero or no leading zero; \<open>int\<close> refuses more than 4300 digits.\<close>

definition scan_digits :: "string \<Rightarrow> int scan" where
  "scan_digits s = (if \<not> starts_digit s then Bad
     else let ds = (if hd s = CHR ''0'' then [CHR ''0''] else takeWhile is_digit s);
              r = drop (length ds) s in
       if not_integer r then Outside
       else if length ds > 4300 then Bad
       else Got (dec_value ds) r)"

fun map_scan :: "('a \<Rightarrow> 'b) \<Rightarrow> 'a scan \<Rightarrow> 'b scan" where
  "map_scan f (Got x r) = Got (f x) r"
| "map_scan f Bad = Bad"
| "map_scan f Outside = Outside"

definition scan_number :: "string \<Rightarrow> json scan" where
  "scan_number s = (case s of
     [] \<Rightarrow> Bad
   | c # r \<Rightarrow> if c = CHR ''-'' then map_scan (\<lambda>n. JInt (- n)) (scan_digits r) else map_scan JInt (scan_digits s))"

definition scan_word :: "string \<Rightarrow> json scan" where
  "scan_word s = (if prefix ''null'' s then Got JNull (drop 4 s)
     else if prefix ''true'' s then Got (JBool True) (drop 4 s)
     else if prefix ''false'' s then Got (JBool False) (drop 5 s)
     else if prefix ''NaN'' s \<or> prefix ''Infinity'' s \<or> prefix ''-Infinity'' s then Outside
     else scan_number s)"

text \<open>A key of an object up to its value: the string, a colon and the space around it.\<close>

definition scan_key :: "string \<Rightarrow> string scan" where
  "scan_key s = (case s of
     [] \<Rightarrow> Bad
   | c # cs \<Rightarrow> if c \<noteq> CHR 0x22 then Bad else (case scan_string cs of
         Got k r \<Rightarrow> (case skip_space r of
            [] \<Rightarrow> Bad
          | d # r' \<Rightarrow> if d = CHR '':'' then Got k (skip_space r') else Bad)
       | Bad \<Rightarrow> Bad | Outside \<Rightarrow> Outside))"

text \<open>What is left is shorter.\<close>

lemma skip_space_length: "length (skip_space s) \<le> length s"
  by (simp add: skip_space_def length_dropWhile_le)

lemma got_char_Got: "got_char c m = Got s r \<longleftrightarrow> (\<exists>u. m = Got u r \<and> s = c # u)"
  by (cases m) auto

lemma map_scan_Got: "map_scan f m = Got y r \<longleftrightarrow> (\<exists>x. m = Got x r \<and> y = f x)"
  by (cases m) auto

lemma scan_string_shorter: "scan_string s = Got x r \<Longrightarrow> length r < length s"
proof (induction s arbitrary: x rule: scan_string.induct)
  case (2 c cs)
  then show ?case
    by (fastforce simp: got_char_Got split: if_splits list.splits option.splits)
qed simp

lemma scan_digits_shorter: "scan_digits s = Got n r \<Longrightarrow> length r < length s"
  by (cases s) (auto simp: scan_digits_def starts_digit_def Let_def split: if_splits)

lemma scan_word_shorter: "scan_word s = Got x r \<Longrightarrow> length r < length s"
  by (auto simp: scan_word_def scan_number_def map_scan_Got prefix_def less_Suc_eq
      split: if_splits list.splits dest!: scan_digits_shorter)

lemma scan_key_shorter: "scan_key s = Got k r \<Longrightarrow> length r < length s"
proof -
  assume "scan_key s = Got k r"
  then obtain cs u r' where "s = CHR 0x22 # cs" "scan_string cs = Got k u" "skip_space u = CHR '':'' # r'"
    "r = skip_space r'" by (auto simp: scan_key_def split: list.splits if_splits scan.splits)
  with scan_string_shorter[of cs k u] skip_space_length[of u] skip_space_length[of r'] show ?thesis by simp
qed

text \<open>
  Values, elements and members. \<open>scan_elements xs\<close> has read the elements \<open>xs\<close>, and stands before the
  next; \<open>scan_members kvs\<close> likewise. A key that comes again keeps its place and gets the new value, as
  in the dictionary Python builds.
\<close>

function (domintros) scan_value :: "string \<Rightarrow> json scan"
  and scan_elements :: "json list \<Rightarrow> string \<Rightarrow> json scan"
  and scan_members :: "(string \<times> json) list \<Rightarrow> string \<Rightarrow> json scan" where
  "scan_value s = (case s of
     [] \<Rightarrow> Bad
   | c # cs \<Rightarrow>
       if c = CHR 0x22 then map_scan JStr (scan_string cs)
       else if c = CHR ''['' then
         (if prefix '']'' (skip_space cs) then Got (JList []) (tl (skip_space cs))
          else scan_elements [] (skip_space cs))
       else if c = CHR ''{'' then
         (if prefix ''}'' (skip_space cs) then Got (JObj []) (tl (skip_space cs))
          else scan_members [] (skip_space cs))
       else scan_word s)"
| "scan_elements xs s = (case scan_value s of
     Got x r \<Rightarrow> (case skip_space r of
        [] \<Rightarrow> Bad
      | c # r' \<Rightarrow>
          if c = CHR '']'' then Got (JList (xs @ [x])) r'
          else if c = CHR '','' then scan_elements (xs @ [x]) (skip_space r')
          else Bad)
   | Bad \<Rightarrow> Bad | Outside \<Rightarrow> Outside)"
| "scan_members kvs s = (case scan_key s of
     Got k r \<Rightarrow> (case scan_value r of
        Got v r1 \<Rightarrow> (case skip_space r1 of
           [] \<Rightarrow> Bad
         | c # r2 \<Rightarrow>
             if c = CHR ''}'' then Got (JObj (AList.update k v kvs)) r2
             else if c = CHR '','' then scan_members (AList.update k v kvs) (skip_space r2)
             else Bad)
      | Bad \<Rightarrow> Bad | Outside \<Rightarrow> Outside)
   | Bad \<Rightarrow> Bad | Outside \<Rightarrow> Outside)"
  by pat_completeness auto

text \<open>Every call leaves a shorter text, by partial induction; so every call of the recursion has less to read.\<close>

lemma scan_value_shorter_partial:
  "scan_value_scan_elements_scan_members_dom (Inl s) \<Longrightarrow> scan_value s = Got x r \<Longrightarrow> length r < length s"
  "scan_value_scan_elements_scan_members_dom (Inr (Inl (xs, s))) \<Longrightarrow>
     scan_elements xs s = Got x r \<Longrightarrow> length r < length s"
  "scan_value_scan_elements_scan_members_dom (Inr (Inr (kvs, s))) \<Longrightarrow>
     scan_members kvs s = Got x r \<Longrightarrow> length r < length s"
proof (induction s and xs s and kvs s arbitrary: x r and x r and x r rule: scan_value_scan_elements_scan_members.pinduct)
  case (1 s)
  note skip = skip_space_length[of "tl s"]
  show ?case
  proof (cases s)
    case Nil
    with 1 show ?thesis by (simp add: scan_value.psimps)
  next
    case (Cons c cs)
    with 1 skip scan_string_shorter[of cs] scan_word_shorter[of s x r] show ?thesis
      by (fastforce simp: scan_value.psimps map_scan_Got prefix_def split: if_splits)
  qed
next
  case (2 xs s)
  from 2(1,4) obtain y u c u' where u: "scan_value s = Got y u" "skip_space u = c # u'"
    "(c = CHR '']'' \<and> r = u') \<or> (c \<noteq> CHR '']'' \<and> c = CHR '','' \<and> scan_elements (xs @ [y]) (skip_space u') = Got x r)"
    by (auto simp: scan_elements.psimps split: scan.splits list.splits if_splits)
  from 2(2)[OF u(1)] u(2) skip_space_length[of u] skip_space_length[of u'] have "length (c # u') < length s" by simp
  with u(3) 2(3)[OF u(1,2), of x r] skip_space_length[of u'] show ?case by auto
next
  case (3 kvs s)
  from 3(1,4) obtain k r0 v u c u' where u: "scan_key s = Got k r0" "scan_value r0 = Got v u" "skip_space u = c # u'"
    "(c = CHR ''}'' \<and> r = u') \<or>
     (c \<noteq> CHR ''}'' \<and> c = CHR '','' \<and> scan_members (AList.update k v kvs) (skip_space u') = Got x r)"
    by (auto simp: scan_members.psimps split: scan.splits list.splits if_splits)
  from 3(2)[OF u(1,2)] u(3) skip_space_length[of u] scan_key_shorter[OF u(1)] have "length (c # u') < length s" by simp
  with u(4) 3(3)[OF u(1,2,3), of x r] skip_space_length[of u'] show ?case by auto
qed

termination scan_value
proof (relation "measure (\<lambda>a. case a of Inl s \<Rightarrow> 2 * length s
    | Inr (Inl (xs, s)) \<Rightarrow> 2 * length s + 1 | Inr (Inr (kvs, s)) \<Rightarrow> 2 * length s + 1)", goal_cases)
  case 1
  then show ?case by simp
next
  case (2 s c cs)
  with skip_space_length[of cs] show ?case by simp
next
  case (3 s c cs)
  with skip_space_length[of cs] show ?case by simp
next
  case (4 xs s)
  then show ?case by simp
next
  case (5 xs s x r c r')
  with scan_value_shorter_partial(1)[of s x r] skip_space_length[of r] skip_space_length[of r'] show ?case by simp
next
  case (6 kvs s k r)
  with scan_key_shorter[of s k r] show ?case by simp
next
  case (7 kvs s k r v r1 c r2)
  with scan_value_shorter_partial(1)[of r v r1] scan_key_shorter[of s k r] skip_space_length[of r1]
    skip_space_length[of r2] show ?case by simp
qed

declare scan_value.simps [simp del] scan_elements.simps [simp del] scan_members.simps [simp del]

text \<open>
  \<open>json.loads(s)\<close>. The text of the \<open>JSONDecodeError\<close>, a kind of \<open>ValueError\<close>, is not modelled;
  \<open>beyond\<close> stands for the reading of a text with values outside the model.
\<close>

definition loads :: "(string \<Rightarrow> exn + json) \<Rightarrow> string \<Rightarrow> exn + json" where
  "loads beyond s = (case scan_value (skip_space s) of
     Got v r \<Rightarrow> if skip_space r = [] then Inr v else Inl (ValueError [])
   | Bad \<Rightarrow> Inl (ValueError [])
   | Outside \<Rightarrow> beyond s)"

section \<open>Reading what was printed\<close>

subsection \<open>Strings\<close>

lemma hex_value_hex_char:
  assumes "0 \<le> d" and "d < 16"
  shows "hex_value (hex_char d) = Some d"
  using of_hex_char[OF assms] assms by (simp add: hex_value_def Let_def)

lemma digit16: "(k :: int) mod 16 ^ Suc w = 16 ^ w * (k div 16 ^ w mod 16) + k mod 16 ^ w"
  using zmod_zmult2_eq[of 16 k "16 ^ w"] by (simp add: mult.commute)

lemma hex4_value_hex_digits:
  assumes "0 \<le> n" and "n < 16 ^ 4"
  shows "hex4_value (hex_digits 4 n) = Some n"
proof -
  have h: "hex_value (hex_char (k mod 16)) = Some (k mod 16)" for k by (rule hex_value_hex_char) simp_all
  have join: "16 * (16 * (16 * a + b) + c) + d = x"
    if "x = 4096 * a + y" "y = 256 * b + z" "z = 16 * c + w" "w = d" for a b c d w x y z :: int
    using that by simp
  have ds: "hex_digits 4 n = map (\<lambda>i. hex_char (n div 16 ^ i mod 16)) [3, 2, 1, 0]"
    by (simp add: hex_digits_def upt_rec numeral_eq_Suc)
  have "hex4_value (hex_digits 4 n) = Some (16 * (16 * (16 * (n div 16 ^ 3 mod 16) + n div 16 ^ 2 mod 16) +
      n div 16 ^ 1 mod 16) + n div 16 ^ 0 mod 16)"
    unfolding ds hex4_value_def list.map foldl.simps h by simp
  also have "16 * (16 * (16 * (n div 16 ^ 3 mod 16) + n div 16 ^ 2 mod 16) + n div 16 ^ 1 mod 16) + n div 16 ^ 0 mod 16 =
      n mod 16 ^ 4"
  proof (rule join)
    show "n mod 16 ^ 4 = 4096 * (n div 16 ^ 3 mod 16) + n mod 16 ^ 3" using digit16[of n 3] by simp
    show "n mod 16 ^ 3 = 256 * (n div 16 ^ 2 mod 16) + n mod 16 ^ 2" using digit16[of n 2] by simp
    show "n mod 16 ^ 2 = 16 * (n div 16 ^ 1 mod 16) + n mod 16 ^ 1" using digit16[of n 1] by simp
    show "n mod 16 ^ 1 = n div 16 ^ 0 mod 16" by simp
  qed
  also have "n mod 16 ^ 4 = n" using assms by simp
  finally show ?thesis .
qed

lemma hex_digits_4: "\<exists>h1 h2 h3 h4. hex_digits 4 n = [h1, h2, h3, h4]"
proof -
  have "\<exists>h1 h2 h3 h4. xs = [h1, h2, h3, h4]" if "length xs = 4" for xs :: string
    using that by (auto simp: length_Suc_conv numeral_eq_Suc)
  then show ?thesis by simp
qed

lemma scan_escape: "scan_string (json_escape_char c @ t) = got_char c (scan_string t)"
proof (cases "map_of short_escapes c")
  case (Some e)
  then show ?thesis
    by (auto simp: json_escape_char_cases short_escapes_def unescape_def split: if_splits)
next
  case None
  note plain = short_escapes_None[OF None]
  show ?thesis
  proof (cases "(of_char c :: int) < 32 \<or> (of_char c :: int) > 126")
    case True
    obtain h1 h2 h3 h4 where h: "hex_digits 4 (of_char c) = [h1, h2, h3, h4]" using hex_digits_4 by blast
    have r: "0 \<le> (of_char c :: int)" "(of_char c :: int) < 256" using of_char_int_range by auto
    with hex4_value_hex_digits[of "of_char c"] have "hex4_value [h1, h2, h3, h4] = Some (of_char c)" unfolding h by simp
    moreover have "json_escape_char c @ t = CHR 0x5C # CHR ''u'' # h1 # h2 # h3 # h4 # t"
      using None True by (simp add: json_escape_char_cases h)
    ultimately show ?thesis using r(2) by simp
  next
    case False
    with None plain show ?thesis by (auto simp: json_escape_char_cases)
  qed
qed

lemma scan_quoted: "scan_string (concat (map json_escape_char s) @ CHR 0x22 # r) = Got s r"
  by (induction s) (simp_all add: scan_escape)

subsection \<open>Numbers\<close>

text \<open>A text a number may stand before.\<close>

definition number_end :: "string \<Rightarrow> bool" where
  "number_end r \<longleftrightarrow> no_digit r \<and> \<not> not_integer r"

lemma number_end_simps [simp]: "number_end []" "number_end (CHR '','' # r)" "number_end (CHR '']'' # r)"
  "number_end (CHR ''}'' # r)"
  by (simp_all add: number_end_def no_digit_def not_integer_def is_digit_def)

definition digits_of :: "int \<Rightarrow> nat" where
  "digits_of i = length (str_nat \<bar>i\<bar>)"

lemma hd_str_nat_pos: "0 < n \<Longrightarrow> hd (str_nat n) \<noteq> CHR ''0''"
proof (induction n rule: str_nat.induct)
  case (1 n)
  show ?case
  proof (cases "n < 10")
    case True
    have "(of_char (digit_char n) :: int) \<noteq> of_char (CHR ''0'')"
      using True 1(2) by (simp only: of_digit_char) simp
    then show ?thesis using True 1(2) by (metis str_nat.simps list.sel(1))
  next
    case False
    with 1 str_nat_digits[of "n div 10"] show ?thesis by (subst str_nat.simps) simp
  qed
qed

lemma scan_digits_str_nat:
  assumes "0 \<le> n" and "number_end r" and "length (str_nat n) \<le> 4300"
  shows "scan_digits (str_nat n @ r) = Got n r"
proof -
  have ne: "str_nat n \<noteq> []" and d: "is_digit (hd (str_nat n))"
    using str_nat_digits[OF assms(1)] by auto
  have zero: "str_nat n = [CHR ''0'']" if "hd (str_nat n) = CHR ''0''"
  proof -
    from that hd_str_nat_pos[of n] assms(1) have "n = 0" by fastforce
    moreover have "digit_char 0 = CHR ''0''" by code_simp
    ultimately show ?thesis by (simp add: str_nat.simps[of 0])
  qed
  have "(if hd (str_nat n @ r) = CHR ''0'' then [CHR ''0''] else takeWhile is_digit (str_nat n @ r)) = str_nat n"
    using ne zero str_nat_span(1)[OF assms(1), of r] assms(2) by (auto simp: number_end_def)
  moreover have "starts_digit (str_nat n @ r)" using ne d by (simp add: starts_digit_def)
  ultimately show ?thesis
    using assms(2,3) dec_value_str_nat[OF assms(1)] by (simp only: scan_digits_def Let_def) (simp add: number_end_def)
qed

lemma scan_number_str_int:
  assumes "number_end r" and "digits_of i \<le> 4300"
  shows "scan_number (str_int i @ r) = Got (JInt i) r"
proof (cases "i < 0")
  case True
  with assms scan_digits_str_nat[of "- i" r] show ?thesis
    by (simp add: scan_number_def str_int_def digits_of_def)
next
  case False
  then obtain c cs where c: "str_nat i = c # cs" "is_digit c" using str_nat_digits[of i] by (cases "str_nat i") auto
  with False assms scan_digits_str_nat[of i r] minus_no_digit show ?thesis
    by (auto simp: scan_number_def str_int_def digits_of_def)
qed

subsection \<open>Values\<close>

text \<open>What \<open>json.dumps\<close> can print and read back: keys once, integers that \<open>int\<close> accepts.\<close>

fun readable :: "json \<Rightarrow> bool" where
  "readable (JInt i) = (digits_of i \<le> 4300)"
| "readable (JList xs) = (\<forall>x \<in> set xs. readable x)"
| "readable (JObj kvs) = (distinct (map fst kvs) \<and> (\<forall>kv \<in> set kvs. readable (snd kv)))"
| "readable j = True"

lemma json_kind_less: "json_kind j < 7"
  by (cases j) simp_all

lemma print_cons: "\<exists>c cs. print_json j @ r = c # cs \<and> \<not> json_space c \<and> head_kind c = json_kind j"
proof -
  obtain c cs where c: "print_json j @ r = c # cs" using print_nonempty[of j] by (cases "print_json j") auto
  with head_kind[of j r] have k: "head_kind c = json_kind j" by simp
  then have "\<not> json_space c" using json_kind_less[of j] by (auto simp: json_space_def head_kind_def is_digit_def)
  with c k show ?thesis by blast
qed

lemma print_not_bracket: "\<not> prefix '']'' (print_json j @ r)"
proof
  assume "prefix '']'' (print_json j @ r)"
  with print_cons[of j r] have "head_kind (CHR '']'') = json_kind j" by auto
  with json_kind_less[of j] show False by (simp add: head_kind_def is_digit_def)
qed

lemma skip_print [simp]: "skip_space (print_json j @ r) = print_json j @ r"
  using print_cons[of j r] by (auto simp: skip_space_def)

lemma skip_space_cons [simp]: "skip_space (CHR '' '' # r) = skip_space r"
  "\<not> json_space c \<Longrightarrow> skip_space (c # r) = c # r"
  by (simp_all add: skip_space_def json_space_def)

lemma quote_cons: "json_quote k @ r = CHR 0x22 # concat (map json_escape_char k) @ CHR 0x22 # r"
  by (simp add: json_quote_def)

lemma skip_quote [simp]: "skip_space (json_quote k @ r) = json_quote k @ r"
  by (simp add: quote_cons json_space_def)

lemma scan_key_print: "scan_key (json_quote k @ '': '' @ print_json v @ r) = Got k (print_json v @ r)"
  unfolding quote_cons by (simp add: scan_key_def scan_quoted json_space_def)

text \<open>The elements and members behind the first, closed by a bracket, stop a number.\<close>

lemma number_end_tail: "t = CHR '']'' \<or> t = CHR ''}'' \<Longrightarrow> number_end (concat (map (\<lambda>z. '', '' @ f z) xs) @ t # r)"
  by (cases xs) auto

lemma scan_elements_print:
  assumes "\<And>x r. x \<in> set (y # ys) \<Longrightarrow> number_end r \<Longrightarrow> scan_value (print_json x @ r) = Got x r"
  shows "scan_elements xs (print_json y @ concat (map (\<lambda>z. '', '' @ print_json z) ys) @ CHR '']'' # r) =
    Got (JList (xs @ y # ys)) r"
  using assms
proof (induction ys arbitrary: xs y)
  case Nil
  then have "scan_value (print_json y @ CHR '']'' # r) = Got y (CHR '']'' # r)" by simp
  then show ?case by (simp add: scan_elements.simps json_space_def)
next
  case (Cons z zs)
  let ?tail = "concat (map (\<lambda>z. '', '' @ print_json z) zs) @ CHR '']'' # r"
  have "scan_value (print_json y @ '', '' @ print_json z @ ?tail) = Got y ('', '' @ print_json z @ ?tail)"
    by (rule Cons.prems) simp_all
  moreover have "scan_elements (xs @ [y]) (print_json z @ ?tail) = Got (JList ((xs @ [y]) @ z # zs)) r"
    by (rule Cons.IH) (rule Cons.prems, simp_all)
  ultimately show ?case by (simp add: scan_elements.simps[of xs] json_space_def)
qed

lemma update_new: "k \<notin> fst ` set kvs \<Longrightarrow> AList.update k v kvs = kvs @ [(k, v)]"
  by (induction kvs) auto

abbreviation print_member :: "string \<times> json \<Rightarrow> string" where
  "print_member kv \<equiv> (case kv of (k, v) \<Rightarrow> json_quote k @ '': '' @ print_json v)"

lemma scan_members_print:
  assumes "\<And>kv r. kv \<in> set (m # ms) \<Longrightarrow> number_end r \<Longrightarrow> scan_value (print_json (snd kv) @ r) = Got (snd kv) r"
    and "distinct (map fst (kvs @ m # ms))"
  shows "scan_members kvs (print_member m @ concat (map (\<lambda>z. '', '' @ print_member z) ms) @ CHR ''}'' # r) =
    Got (JObj (kvs @ m # ms)) r"
  using assms
proof (induction ms arbitrary: kvs m)
  case Nil
  obtain k v where m: "m = (k, v)" by fastforce
  have "scan_value (print_json v @ CHR ''}'' # r) = Got v (CHR ''}'' # r)" using Nil.prems(1)[of m] by (simp add: m)
  with Nil.prems(2) scan_key_print[of k v "CHR ''}'' # r"] show ?case
    by (simp add: scan_members.simps m json_space_def update_new)
next
  case (Cons n ms)
  obtain k v where m: "m = (k, v)" by fastforce
  obtain k' v' where n: "n = (k', v')" by fastforce
  let ?tail = "concat (map (\<lambda>z. '', '' @ print_member z) ms) @ CHR ''}'' # r"
  have "scan_value (print_json v @ '', '' @ print_member n @ ?tail) = Got v ('', '' @ print_member n @ ?tail)"
    using Cons.prems(1)[of m "'', '' @ print_member n @ ?tail"] by (simp add: m)
  moreover have "scan_members (kvs @ [m]) (print_member n @ ?tail) = Got (JObj ((kvs @ [m]) @ n # ms)) r"
    by (rule Cons.IH) (use Cons.prems in auto)
  moreover have "AList.update k v kvs = kvs @ [m]" using Cons.prems(2) by (simp add: m update_new)
  ultimately show ?case
    using scan_key_print[of k v "'', '' @ print_member n @ ?tail"]
    by (simp add: scan_members.simps[of kvs] m n json_space_def)
qed

lemma scan_print: "readable j \<Longrightarrow> number_end r \<Longrightarrow> scan_value (print_json j @ r) = Got j r"
proof (induction j arbitrary: r)
  case JNull
  then show ?case by (simp add: scan_value.simps scan_word_def)
next
  case (JBool b)
  then show ?case by (simp add: scan_value.simps scan_word_def)
next
  case (JInt i)
  obtain c cs where c: "str_int i @ r = c # cs" "head_kind c = 6" using print_cons[of "JInt i" r] by auto
  have "\<not> prefix ''-Infinity'' (str_int i @ r)"
  proof
    assume "prefix ''-Infinity'' (str_int i @ r)"
    then obtain u where u: "str_int i @ r = ''-Infinity'' @ u" by (auto simp: prefix_def)
    show False
    proof (cases "i < 0")
      case True
      with u have "hd (str_nat (- i) @ r) = CHR ''I''" by (simp add: str_int_def)
      with hd_str_nat[of "- i" r] True show False by (simp add: is_digit_def)
    next
      case False
      with u hd_str_nat[of i r] show False by (simp add: str_int_def is_digit_def)
    qed
  qed
  moreover have "head_kind x \<noteq> 6" if "x \<in> {CHR 0x22, CHR ''['', CHR ''{'', CHR ''n'', CHR ''t'', CHR ''f'', CHR ''N'', CHR ''I''}" for x
    using that by (elim insertE emptyE; hypsubst) (simp_all add: head_kind_def is_digit_def)
  with c(2) have "\<forall>x \<in> {CHR 0x22, CHR ''['', CHR ''{'', CHR ''n'', CHR ''t'', CHR ''f'', CHR ''N'', CHR ''I''}. x \<noteq> c \<and> c \<noteq> x" by blast
  ultimately have "scan_value (str_int i @ r) = scan_number (str_int i @ r)"
    unfolding c(1) by (simp add: scan_value.simps scan_word_def) blast
  with JInt scan_number_str_int[of r i] show ?case by simp
next
  case (JStr s)
  then show ?case by (simp add: scan_value.simps quote_cons scan_quoted)
next
  case (JList xs)
  show ?case
  proof (cases xs)
    case Nil
    then show ?thesis by (simp add: scan_value.simps comma_join_def json_space_def)
  next
    case (Cons y ys)
    have "scan_elements [] (print_json y @ concat (map (\<lambda>z. '', '' @ print_json z) ys) @ CHR '']'' # r) = Got (JList xs) r"
      using scan_elements_print[of y ys "[]" r] JList Cons by fastforce
    then show ?thesis using Cons print_not_bracket[of y] by (simp add: scan_value.simps comma_join_def comp_def)
  qed
next
  case (JObj kvs)
  show ?case
  proof (cases kvs)
    case Nil
    then show ?thesis by (simp add: scan_value.simps comma_join_def json_space_def)
  next
    case (Cons m ms)
    obtain k v where m: "m = (k, v)" by fastforce
    have "scan_members [] (print_member m @ concat (map (\<lambda>z. '', '' @ print_member z) ms) @ CHR ''}'' # r) = Got (JObj kvs) r"
      using scan_members_print[of m ms "[]" r] JObj Cons by fastforce
    then show ?thesis using Cons
      by (simp add: scan_value.simps comma_join_def comp_def m quote_cons json_space_def)
  qed
qed

section \<open>Round trips\<close>

lemma loads_print:
  assumes "readable j" and "list_all json_space u" and "list_all json_space v"
  shows "loads beyond (u @ print_json j @ v) = Inr j"
proof -
  have v: "dropWhile json_space v = []" using assms(3) by (simp add: list_all_iff)
  have "skip_space (u @ print_json j @ v) = print_json j @ v"
    using assms(2) skip_print[of j v] by (simp add: skip_space_def list_all_iff dropWhile_append2)
  moreover have "number_end v"
    using assms(3) by (cases v)
      (auto simp: number_end_def no_digit_def not_integer_def json_space_def is_digit_def)
  ultimately show ?thesis using scan_print[OF assms(1), of v] v by (simp add: loads_def skip_space_def)
qed

lemma distinct_sort_fst: "distinct (map fst (sort_key fst xs)) = distinct (map fst xs)"
  for xs :: "('k :: linorder \<times> 'v) list"
  by (simp add: distinct_map)

lemma readable_sort_fields: "readable j \<Longrightarrow> readable (sort_fields j)"
proof (induction j rule: sort_fields.induct)
  case (2 kvs)
  have "fst \<circ> (\<lambda>(k, v). (k, sort_fields v)) = (fst :: string \<times> json \<Rightarrow> string)" by auto
  with 2 distinct_sort_fst[of "map (\<lambda>(k, v). (k, sort_fields v)) kvs"] show ?case by auto
qed auto

text \<open>
  What \<open>json.dumps\<close> prints is what \<open>json.loads\<close> reads. For every value whose objects have each key
  once and whose integers have at most 4300 digits, reading the canonical text, with any white space
  before and after it, gives the value back with the fields of its objects in order.
\<close>

lemma loads_dumps:
  assumes "readable j" and "list_all json_space u" and "list_all json_space v"
  shows "loads beyond (u @ json_dumps j @ v) = Inr (sort_fields j)"
  unfolding json_dumps_print by (rule loads_print[OF readable_sort_fields[OF assms(1)] assms(2,3)])

lemma loads_dumps_witness:
  "loads (\<lambda>_. Inl KeyError) ('' '' @ json_dumps (JObj [(''b'', JList [JInt (- 12), JNull]), (''a'', JStr [CHR 0x22, CHR 0xE9])]) @ [CHR 0x0A]) =
     Inr (JObj [(''a'', JStr [CHR 0x22, CHR 0xE9]), (''b'', JList [JInt (- 12), JNull])])"
proof -
  let ?j = "JObj [(''b'', JList [JInt (- 12), JNull]), (''a'', JStr [CHR 0x22, CHR 0xE9])]"
  have "readable ?j \<and> list_all json_space '' '' \<and> list_all json_space [CHR 0x0A]" by code_simp
  moreover have "sort_fields ?j = JObj [(''a'', JStr [CHR 0x22, CHR 0xE9]), (''b'', JList [JInt (- 12), JNull])]" by code_simp
  ultimately show ?thesis using loads_dumps[of ?j "'' ''" "[CHR 0x0A]" "\<lambda>_. Inl KeyError"] by (simp only:)
qed

text \<open>Texts that are not JSON, and texts with values outside the model, are told apart.\<close>

lemma loads_examples:
  "loads beyond ''[1, 2'' = Inl (ValueError [])" "loads beyond ''[1,]'' = Inl (ValueError [])"
  "loads beyond ''01'' = Inl (ValueError [])" "loads beyond ''-0'' = Inr (JInt 0)"
  "loads beyond [] = Inl (ValueError [])" "loads beyond ''[1.5]'' = beyond ''[1.5]''"
  "loads beyond ''{} x'' = Inl (ValueError [])"
  by code_simp+

end
