(* ===== verification/Webhooks.thy ===== *)
theory Webhooks
  imports Loads "HOL-Library.Sublist"
begin

text \<open>
  Webhooks of the payment service provider: the verifiers of
  \<open>app/infrastructure/psp/signature.py\<close>, \<open>WebhookService.handle\<close>
  (\<open>app/application/webhook_service.py\<close>) and the route of \<open>app/api/webhooks.py\<close>. The record
  \<open>webhook_env\<close> holds the two secrets of the settings and what the model does not define:
  \<open>stripe.Webhook.construct_event\<close> of the Stripe library, and what \<open>json.loads\<close> makes of a text with values
  beyond those of the type \<open>json\<close>; nothing is assumed about them.
  The event is any JSON value, so the Python errors of indexing the wrong kind of value are results.
\<close>

section \<open>Signatures\<close>

record webhook_env =
  PSP_WEBHOOK_SECRET :: string
  STRIPE_WEBHOOK_SECRET :: string
  construct_event :: "string \<Rightarrow> string \<Rightarrow> string \<Rightarrow> int \<Rightarrow> exn + unit"
  loads_beyond :: "string \<Rightarrow> exn + json"

definition json_loads :: "webhook_env \<Rightarrow> string \<Rightarrow> exn + json" where
  "json_loads we raw_body = loads (loads_beyond we) raw_body"

text \<open>\<open>hmac.compare_digest\<close> on strings refuses characters outside ASCII.\<close>

definition compare_digest :: "string \<Rightarrow> string \<Rightarrow> exn + bool" where
  "compare_digest a b = (if list_all (\<lambda>c. (of_char c :: int) < 128) (a @ b) then Inr (a = b) else Inl TypeError)"

definition psp_signature_valid :: "webhook_env \<Rightarrow> string \<Rightarrow> string \<Rightarrow> exn + bool" where
  "psp_signature_valid we raw_payload signature_header =
     (if raw_payload = [] \<or> signature_header = [] then Inr False
      else if PSP_WEBHOOK_SECRET we = [] then Inr False
      else compare_digest (hmac_sha256_hexdigest (PSP_WEBHOOK_SECRET we) raw_payload) signature_header)"

definition stripe_signature_valid :: "webhook_env \<Rightarrow> string \<Rightarrow> string \<Rightarrow> bool" where
  "stripe_signature_valid we raw_payload signature_header =
     (if raw_payload = [] \<or> signature_header = [] then False
      else if STRIPE_WEBHOOK_SECRET we = [] then False
      else case construct_event we raw_payload signature_header (STRIPE_WEBHOOK_SECRET we) 300 of
             Inr _ \<Rightarrow> True | Inl _ \<Rightarrow> False)"

text \<open>The test of step 1: the generic verifier or else the Stripe one.\<close>

definition signature_valid :: "webhook_env \<Rightarrow> string \<Rightarrow> string \<Rightarrow> exn + bool" where
  "signature_valid we raw_body signature = (case psp_signature_valid we raw_body signature of
     Inl e \<Rightarrow> Inl e
   | Inr True \<Rightarrow> Inr True
   | Inr False \<Rightarrow> Inr (stripe_signature_valid we raw_body signature))"

section \<open>Events\<close>

text \<open>\<open>key in value\<close>: keys of a dict, elements of a list, substrings of a string.\<close>

fun py_in :: "string \<Rightarrow> json \<Rightarrow> exn + bool" where
  "py_in k (JObj kvs) = Inr (k \<in> fst ` set kvs)"
| "py_in k (JList xs) = Inr (JStr k \<in> set xs)"
| "py_in k (JStr s) = Inr (sublist k s)"
| "py_in k _ = Inl TypeError"

text \<open>\<open>value[key]\<close> with a string key.\<close>

fun py_index :: "json \<Rightarrow> string \<Rightarrow> exn + json" where
  "py_index (JObj kvs) k = (case map_of kvs k of Some v \<Rightarrow> Inr v | None \<Rightarrow> Inl KeyError)"
| "py_index _ k = Inl TypeError"

text \<open>\<open>value.get(key, default)\<close>\<close>

fun py_get :: "json \<Rightarrow> string \<Rightarrow> json \<Rightarrow> exn + json" where
  "py_get (JObj kvs) k d = Inr (case map_of kvs k of Some v \<Rightarrow> v | None \<Rightarrow> d)"
| "py_get _ k d = Inl AttributeError"

text \<open>The condition \<open>"data" in data and "object" in data["data"]\<close>.\<close>

definition is_stripe_format :: "json \<Rightarrow> bool M" where
  "is_stripe_format data = and_then (of_result (py_in ''data'' data)) (\<lambda>b.
     if \<not> b then ret False
     else and_then (of_result (py_index data ''data'')) (\<lambda>inner. of_result (py_in ''object'' inner)))"

text \<open>
  Step 2: event id, event type and reference, as JSON values. The first look-up of the second branch
  stands for the attribute \<open>data.get\<close>, which is evaluated before its arguments.
\<close>

definition parse_event :: "json \<Rightarrow> (json \<times> json \<times> json) M" where
  "parse_event data = and_then (is_stripe_format data) (\<lambda>stripe_format.
     if stripe_format then
       and_then uuid4 (\<lambda>u.
       and_then (of_result (py_get data ''id'' (JStr (str_uuid u)))) (\<lambda>event_id.
       and_then (of_result (py_get data ''type'' (JStr []))) (\<lambda>event_type.
       and_then (of_result (py_index data ''data'')) (\<lambda>inner.
       and_then (of_result (py_index inner ''object'')) (\<lambda>obj.
       and_then (of_result (py_get obj ''id'' (JStr []))) (\<lambda>psp_reference.
       ret (event_id, event_type, psp_reference)))))))
     else
       and_then (of_result (py_get data ''pspEventId'' JNull)) (\<lambda>_.
       and_then uuid4 (\<lambda>u.
       and_then (of_result (py_get data ''eventId'' (JStr (str_uuid u)))) (\<lambda>alt_id.
       and_then (of_result (py_get data ''pspEventId'' alt_id)) (\<lambda>event_id.
       and_then (of_result (py_get data ''eventType'' (JStr []))) (\<lambda>alt_type.
       and_then (of_result (py_get data ''type'' alt_type)) (\<lambda>event_type.
       and_then (of_result (py_get data ''pspReference'' (JStr []))) (\<lambda>psp_reference.
       ret (event_id, event_type, psp_reference)))))))))"

definition capture_events :: "string list" where
  "capture_events = [''payment.captured'', ''payment_intent.succeeded'',
     ''payment_intent.amount_capturable_updated'', ''charge.captured'']"

definition fail_events :: "string list" where
  "fail_events = [''payment.failed'', ''payment_intent.payment_failed'', ''payment_intent.canceled'']"

text \<open>\<open>event_type in {...}\<close>: a value that cannot be hashed raises.\<close>

fun in_event_set :: "json \<Rightarrow> string list \<Rightarrow> exn + bool" where
  "in_event_set (JStr s) evs = Inr (s \<in> set evs)"
| "in_event_set (JList _) evs = Inl TypeError"
| "in_event_set (JObj _) evs = Inl TypeError"
| "in_event_set _ evs = Inr False"

text \<open>A string column compared with a JSON value: the driver refuses what is not a string.\<close>

fun bind_string :: "json \<Rightarrow> exn + string" where
  "bind_string (JStr s) = Inr s"
| "bind_string _ = Inl DBAPIError"

section \<open>The handler\<close>

definition select_webhook :: "string \<Rightarrow> WebhookEvent option M" where
  "select_webhook event_id = gets (\<lambda>s. row_of whk_psp_event_id event_id (webhook_events (db s)))"

definition select_by_reference :: "string \<Rightarrow> Payment option M" where
  "select_by_reference r = and_then (gets (\<lambda>s. filter (\<lambda>p. pay_psp_reference p = Some r) (payments (db s))))
     (\<lambda>rows. of_result (scalar_one_or_none rows))"

text \<open>Step 5.\<close>

definition transition_payment :: "json \<Rightarrow> json \<Rightarrow> unit M" where
  "transition_payment event_type psp_reference =
     (if \<not> truthy psp_reference then ret ()
      else
        and_then (of_result (bind_string psp_reference)) (\<lambda>reference.
        and_then (select_by_reference reference) (\<lambda>row. case row of
          None \<Rightarrow> ret ()
        | Some payment \<Rightarrow>
            if pay_status payment \<noteq> PaymentStatus.AUTHORIZED then ret ()
            else
              and_then (of_result (in_event_set event_type capture_events)) (\<lambda>capture.
              if capture then and_then (settle (pay_id payment) reference) (\<lambda>_. ret ())
              else
                and_then (of_result (in_event_set event_type fail_events)) (\<lambda>fail.
                if fail then and_then (reverse (pay_id payment)) (\<lambda>_. ret ())
                else ret ())))))"

text \<open>
  Steps 3 to 5, for the parsed event. An identifier that is not a string is refused by the driver; null
  is refused by the insert, with the same class of error.
\<close>

definition handle_event :: "string \<Rightarrow> json \<times> json \<times> json \<Rightarrow> unit M" where
  "handle_event raw_body event = (case event of (event_id, event_type, psp_reference) \<Rightarrow>
     and_then (of_result (bind_string event_id)) (\<lambda>eid.
     and_then (select_webhook eid) (\<lambda>row. case row of
       Some _ \<Rightarrow> ret ()
     | None \<Rightarrow>
         and_then datetime_now (\<lambda>t.
         and_then (session_add (New_WebhookEvent \<lparr>whk_psp_event_id = eid, whk_payload = raw_body,
           whk_status = WebhookStatus.PROCESSED, whk_received_at = t\<rparr>)) (\<lambda>_.
         and_then session_flush (\<lambda>_.
         transition_payment event_type psp_reference))))))"

definition handle :: "webhook_env \<Rightarrow> string \<Rightarrow> string \<Rightarrow> unit M" where
  "handle we raw_body signature =
     (if signature = [] then raise InvalidSignatureException
      else and_then (of_result (signature_valid we raw_body signature)) (\<lambda>is_valid.
        if \<not> is_valid then raise InvalidSignatureException
        else case json_loads we raw_body of
               Inl _ \<Rightarrow> raise (ValueError ''Invalid JSON payload'')
             | Inr data \<Rightarrow> and_then (parse_event data) (handle_event raw_body)))"

text \<open>\<open>stripe_signature or x_psp_signature or ""\<close>\<close>

definition chosen_signature :: "string option \<Rightarrow> string option \<Rightarrow> string" where
  "chosen_signature x_psp_signature stripe_signature =
     (case stripe_signature of
        Some (c # cs) \<Rightarrow> c # cs
      | _ \<Rightarrow> (case x_psp_signature of Some s \<Rightarrow> s | None \<Rightarrow> []))"

text \<open>The routes \<open>POST /v1/webhooks/psp\<close> and \<open>/stripe\<close>, with the two optional headers.\<close>

definition handle_webhook :: "webhook_env \<Rightarrow> string \<Rightarrow> string option \<Rightarrow> string option \<Rightarrow> unit M" where
  "handle_webhook we raw_body x_psp_signature stripe_signature =
     transaction (handle we raw_body (chosen_signature x_psp_signature stripe_signature))"

section \<open>Frames\<close>

lemma parse_event_same_data: "keeps same_data (parse_event data)"
  unfolding parse_event_def is_stripe_format_def by (intro data_frame.keeps_rules uuid4_same_data)

lemma transition_payment_keeps: "keeps ledger_frame_rel (transition_payment ty ref)"
  unfolding transition_payment_def select_by_reference_def by (intro saga_keeps)

lemma same_data_ledger: "same_data s t \<Longrightarrow> ledger_frame_rel s t"
proof -
  assume "same_data s t"
  then have "ledger_part (db (flushed t)) = ledger_part (db (flushed s))"
    using fold_insert_row_ledger_cong[of "t\<lparr>pending := []\<rparr>" "s\<lparr>pending := []\<rparr>" "pending s"]
    by (simp add: same_data_def flushed_def)
  then show ?thesis by (simp add: ledger_frame_rel_def ledger_kept_same_part)
qed

lemma handle_event_keeps: "keeps ledger_frame_rel (handle_event raw ev)"
  unfolding handle_event_def select_webhook_def
  by (cases ev) (simp, intro saga_keeps transition_payment_keeps, simp)

lemma parse_event_keeps: "keeps ledger_frame_rel (parse_event data)"
  using parse_event_same_data[of data] by (auto simp: keeps_def intro: same_data_ledger)

lemma handle_keeps: "keeps ledger_frame_rel (handle we raw sig)"
  unfolding handle_def
  by (intro saga_keeps) (auto split: sum.split intro!: saga_keeps parse_event_keeps handle_event_keeps)

section \<open>What an event does\<close>

fun event_outcome :: "json \<Rightarrow> AuthorizationOutcome option" where
  "event_outcome (JStr e) = (if e \<in> set capture_events then Some CAPTURED
     else if e \<in> set fail_events then Some DECLINED else None)"
| "event_outcome _ = None"

text \<open>The payments a transition may touch: the one that waits under the reference.\<close>

definition awaiting :: "database \<Rightarrow> string \<Rightarrow> Payment \<Rightarrow> bool" where
  "awaiting d r p \<longleftrightarrow> filter (\<lambda>p. pay_psp_reference p = Some r) (payments d) = [p] \<and>
     pay_status p = PaymentStatus.AUTHORIZED"

lemma scalar_one_or_none_Inr:
  "scalar_one_or_none rows = Inr x \<longleftrightarrow> rows = [] \<and> x = None \<or> (\<exists>r. rows = [r] \<and> x = Some r)"
  by (cases rows rule: scalar_one_or_none.cases) auto

lemma in_event_set_Inr:
  "in_event_set ty evs = Inr b \<Longrightarrow> b \<longleftrightarrow> (\<exists>e. ty = JStr e \<and> e \<in> set evs)"
  by (cases ty) auto

lemma event_outcome_eq:
  "event_outcome ty = Some o' \<longleftrightarrow> (\<exists>e. ty = JStr e \<and>
     (o' = CAPTURED \<and> e \<in> set capture_events \<or> o' = DECLINED \<and> e \<notin> set capture_events \<and> e \<in> set fail_events))"
  by (cases ty) auto

lemma transition_payment_Inr:
  assumes "transition_payment ty ref s = (Inr u, t)"
  obtains "t = s" and "\<And>r p. ref = JStr r \<Longrightarrow> r \<noteq> [] \<Longrightarrow> awaiting (db s) r p \<Longrightarrow> event_outcome ty = None"
  | r p a q where "ref = JStr r" and "r \<noteq> []" and "awaiting (db s) r p"
    and "event_outcome ty = Some (ar_outcome a)" and "resolve (pay_id p) a s = (Inr q, t)"
    and "case ar_psp_reference a of None \<Rightarrow> True | Some r' \<Rightarrow> r' = r"
proof (cases "truthy ref")
  case False
  with assms have "t = s" by (simp add: transition_payment_def)
  with False show thesis by (intro that(1)) auto
next
  case True
  with assms obtain r row s1 where r: "ref = JStr r" "r \<noteq> []"
    and row: "scalar_one_or_none (filter (\<lambda>p. pay_psp_reference p = Some r) (payments (db s))) = Inr row"
    and rest: "(case row of None \<Rightarrow> ret () | Some payment \<Rightarrow>
            if pay_status payment \<noteq> PaymentStatus.AUTHORIZED then ret ()
            else and_then (of_result (in_event_set ty capture_events)) (\<lambda>capture.
              if capture then and_then (settle (pay_id payment) r) (\<lambda>_. ret ())
              else and_then (of_result (in_event_set ty fail_events)) (\<lambda>fail.
                if fail then and_then (reverse (pay_id payment)) (\<lambda>_. ret ()) else ret ()))) s = (Inr u, t)"
    by (cases ref) (auto simp: transition_payment_def select_by_reference_def and_then_Inr_iff)
  note row' = row[unfolded scalar_one_or_none_Inr]
  show thesis
  proof (cases "\<exists>p. row = Some p \<and> pay_status p = PaymentStatus.AUTHORIZED")
    case False
    with rest have "t = s" by (auto split: option.splits if_splits)
    with False row' r show thesis by (intro that(1)) (auto simp: awaiting_def)
  next
    case True
    then obtain p where p: "row = Some p" "pay_status p = PaymentStatus.AUTHORIZED" by blast
    with row' have aw: "awaiting (db s) r p" by (auto simp: awaiting_def)
    from rest p obtain c where c: "in_event_set ty capture_events = Inr c"
      and rest': "(if c then and_then (settle (pay_id p) r) (\<lambda>_. ret ())
        else and_then (of_result (in_event_set ty fail_events)) (\<lambda>fail.
          if fail then and_then (reverse (pay_id p)) (\<lambda>_. ret ()) else ret ())) s = (Inr u, t)"
      by (auto simp: and_then_Inr_iff)
    show thesis
    proof (cases c)
      case True
      with rest' obtain q where "settle (pay_id p) r s = (Inr q, t)" by (auto simp: and_then_Inr_iff)
      with True c r aw in_event_set_Inr[OF c] show thesis
        by (intro that(2)[where a = "captured r"]) (auto simp: resolve_def captured_def)
    next
      case False
      with rest' obtain f where f: "in_event_set ty fail_events = Inr f"
        and rest'': "(if f then and_then (reverse (pay_id p)) (\<lambda>_. ret ()) else ret ()) s = (Inr u, t)"
        by (auto simp: and_then_Inr_iff)
      have no_cap: "\<nexists>e. ty = JStr e \<and> e \<in> set capture_events" using False in_event_set_Inr[OF c] by simp
      show thesis
      proof (cases f)
        case True
        with rest'' obtain q where "reverse (pay_id p) s = (Inr q, t)" by (auto simp: and_then_Inr_iff)
        with True no_cap r aw in_event_set_Inr[OF f] show thesis
          by (intro that(2)[where a = "declined []"]) (auto simp: resolve_def declined_def)
      next
        case False
        with rest'' have "t = s" by simp
        with False no_cap in_event_set_Inr[OF f] show thesis
          by (intro that(1)) (auto simp: event_outcome_eq not_Some_eq[symmetric] simp del: not_Some_eq)
      qed
    qed
  qed
qed

text \<open>The two formats of an event that carries all the fields that are read, beside others, in any order.\<close>

definition psp_event :: "string \<Rightarrow> string \<Rightarrow> string \<Rightarrow> json" where
  "psp_event e ty r = JObj [(''pspEventId'', JStr e), (''type'', JStr ty), (''pspReference'', JStr r)]"

definition stripe_event :: "string \<Rightarrow> string \<Rightarrow> string \<Rightarrow> json" where
  "stripe_event e ty r = JObj [(''id'', JStr e), (''type'', JStr ty),
     (''data'', JObj [(''object'', JObj [(''id'', JStr r)])])]"

definition well_formed_event :: "json \<Rightarrow> string \<Rightarrow> string \<Rightarrow> string \<Rightarrow> bool" where
  "well_formed_event data e ty r \<longleftrightarrow>
     (\<exists>kvs. data = JObj kvs \<and> map_of kvs ''type'' = Some (JStr ty) \<and>
       (map_of kvs ''data'' = None \<and> map_of kvs ''pspEventId'' = Some (JStr e) \<and>
          map_of kvs ''pspReference'' = Some (JStr r) \<or>
        map_of kvs ''id'' = Some (JStr e) \<and> (\<exists>inner obj. map_of kvs ''data'' = Some (JObj inner) \<and>
          map_of inner ''object'' = Some (JObj obj) \<and> map_of obj ''id'' = Some (JStr r))))"

lemma well_formed_examples: "well_formed_event (psp_event e ty r) e ty r" "well_formed_event (stripe_event e ty r) e ty r"
  by (simp_all add: well_formed_event_def psp_event_def stripe_event_def)

lemma map_of_key: "map_of kvs k = Some v \<Longrightarrow> k \<in> fst ` set kvs" "map_of kvs k = None \<Longrightarrow> k \<notin> fst ` set kvs"
  by (metis map_of_eq_None_iff option.distinct(1)) (simp add: map_of_eq_None_iff)

lemma parse_well_formed:
  "well_formed_event data e ty r \<Longrightarrow>
     parse_event data s = (Inr (JStr e, JStr ty, JStr r), s\<lparr>uuids_drawn := Suc (uuids_drawn s)\<rparr>)"
  by (auto simp: well_formed_event_def parse_event_def is_stripe_format_def map_of_key session_defs)

text \<open>A request whose signature is accepted and whose body is such an event.\<close>

definition delivers :: "webhook_env \<Rightarrow> string \<Rightarrow> string \<Rightarrow> string \<Rightarrow> string \<Rightarrow> string \<Rightarrow> bool" where
  "delivers we raw sig e ty r \<longleftrightarrow> sig \<noteq> [] \<and> signature_valid we raw sig = Inr True \<and>
     (\<exists>data. json_loads we raw = Inr data \<and> well_formed_event data e ty r)"

text \<open>The canonical text of an event, with white space around it, is the event to the handler.\<close>

lemma map_of_sort_fields:
  assumes "readable (JObj kvs)" and "sort_fields (JObj kvs) = JObj kvs'"
  shows "map_of kvs' k = map_option sort_fields (map_of kvs k)"
proof -
  let ?f = "map (\<lambda>(k, v). (k, sort_fields v)) kvs"
  have "fst \<circ> (\<lambda>(k, v). (k, sort_fields v)) = (fst :: string \<times> json \<Rightarrow> string)" by auto
  with assms(1) have "distinct (map fst ?f)" by simp
  moreover from this have "distinct (map fst (sort_key fst ?f))" by (simp only: distinct_sort_fst)
  ultimately have "map_of (sort_key fst ?f) = map_of ?f" by (simp add: map_of_inject_set)
  with assms(2) show ?thesis by (auto simp: map_of_map)
qed

lemma well_formed_sort_fields:
  assumes "readable j" and "well_formed_event j e ty r"
  shows "well_formed_event (sort_fields j) e ty r"
proof -
  from assms(2) obtain kvs where j: "j = JObj kvs" by (auto simp: well_formed_event_def)
  obtain kvs' where s: "sort_fields (JObj kvs) = JObj kvs'" by simp
  note top = map_of_sort_fields[OF assms(1)[unfolded j] s]
  have sub: "readable x" if "map_of xs k = Some x" "readable (JObj xs)" for xs k x
    using that by (auto dest!: map_of_SomeD)
  have "\<exists>inner' obj'. map_of kvs' ''data'' = Some (JObj inner') \<and> map_of inner' ''object'' = Some (JObj obj') \<and>
      map_of obj' ''id'' = Some (JStr r)"
    if m: "map_of kvs ''data'' = Some (JObj inner)" "map_of inner ''object'' = Some (JObj obj)"
      "map_of obj ''id'' = Some (JStr r)" for inner obj
  proof -
    obtain inner' where i: "sort_fields (JObj inner) = JObj inner'" by simp
    obtain obj' where o: "sort_fields (JObj obj) = JObj obj'" by simp
    have ri: "readable (JObj inner)" using sub[OF m(1)] assms(1) j by simp
    then have "map_of inner' ''object'' = Some (JObj obj')" using map_of_sort_fields[OF ri i] m(2) o by simp
    moreover have "map_of obj' ''id'' = Some (JStr r)"
      using map_of_sort_fields[OF sub[OF m(2) ri] o] m(3) by simp
    ultimately show ?thesis using top m(1) i by auto
  qed
  with assms(2) top show ?thesis unfolding j s by (auto simp: well_formed_event_def)
qed

lemma signed_event_delivers:
  assumes "readable j" and "well_formed_event j e ty r" and "list_all json_space u" and "list_all json_space v"
    and "raw = u @ json_dumps j @ v" and "PSP_WEBHOOK_SECRET we \<noteq> []"
    and "sig = hmac_sha256_hexdigest (PSP_WEBHOOK_SECRET we) raw"
  shows "delivers we raw sig e ty r"
proof -
  have "json_loads we raw = Inr (sort_fields j)"
    unfolding json_loads_def assms(5) json_dumps_print
    by (rule loads_print[OF readable_sort_fields[OF assms(1)] assms(3,4)])
  moreover have "raw \<noteq> []" "sig \<noteq> []"
    unfolding assms(5,7) json_dumps_print by (simp_all add: print_nonempty hmac_hexdigest_nonempty)
  ultimately show ?thesis
    using well_formed_sort_fields[OF assms(1,2)] assms(6,7)
    by (simp add: delivers_def signature_valid_def psp_signature_valid_def compare_digest_def hmac_hexdigest_ascii)
qed

lemma handle_delivers:
  "delivers we raw sig e ty r \<Longrightarrow>
     handle we raw sig s = handle_event raw (JStr e, JStr ty, JStr r) (s\<lparr>uuids_drawn := Suc (uuids_drawn s)\<rparr>)"
  by (auto simp: delivers_def handle_def and_then_Inr[OF parse_well_formed])

lemma handle_event_new:
  assumes "row_of whk_psp_event_id e (webhook_events (db s)) = None" and "pending s = []"
    and "constraints (db s)" and "length e \<le> 255"
  obtains ev s1 where "handle_event raw (JStr e, ty, ref) s = transition_payment ty ref s1"
    and "db s1 = (db s)\<lparr>webhook_events := webhook_events (db s) @ [ev]\<rparr>" and "whk_psp_event_id ev = e"
    and "pending s1 = []" and "constraints (db s1)" and "same_draws s s1" and "entry_seq s1 = entry_seq s"
proof -
  let ?ev = "\<lparr>whk_psp_event_id = e, whk_payload = raw, whk_status = WebhookStatus.PROCESSED,
    whk_received_at = clock s (clock_reads s)\<rparr>"
  let ?s1 = "s\<lparr>clock_reads := Suc (clock_reads s), db := (db s)\<lparr>webhook_events := webhook_events (db s) @ [?ev]\<rparr>\<rparr>"
  have con: "constraints (db ?s1)" using assms by (auto simp: constraint_defs row_of_None_iff)
  have fl: "flushed (s\<lparr>clock_reads := Suc (clock_reads s), pending := [New_WebhookEvent ?ev]\<rparr>) = ?s1"
    using assms(2) by (cases s) (simp add: flushed_def)
  then have "handle_event raw (JStr e, ty, ref) s = transition_payment ty ref ?s1"
    using assms(1,2) con by (simp add: handle_event_def select_webhook_def session_defs)
  then show thesis using con assms(2) by (intro that[of ?s1 ?ev]) (simp_all add: same_draws_def)
qed

lemma handle_event_seen:
  "row_of whk_psp_event_id e (webhook_events (db s)) = Some ev \<Longrightarrow>
     handle_event raw (JStr e, ty, ref) s = (Inr (), s)"
  by (simp add: handle_event_def select_webhook_def session_defs)

lemma redelivered:
  assumes "delivers we raw sig e ty r" and "e \<in> whk_psp_event_id ` set (webhook_events (db s))"
    and "constraints (db s)"
  shows "\<exists>t. transaction (handle we raw sig) s = (Inr (), t) \<and> db t = db s"
proof -
  let ?s0 = "s\<lparr>pending := []\<rparr>"
  from assms(2) obtain ev where ev: "row_of whk_psp_event_id e (webhook_events (db s)) = Some ev"
    by (metis option.exhaust row_of_None_iff)
  then have run: "handle we raw sig ?s0 = (Inr (), ?s0\<lparr>uuids_drawn := Suc (uuids_drawn s)\<rparr>)"
    using handle_delivers[OF assms(1), of ?s0] by (simp add: handle_event_seen)
  have "trg_ledger_balanced (db s) (db s)" by (simp add: trg_ledger_balanced_def)
  with transaction_InrI[of "handle we raw sig", OF run] show ?thesis using assms(3) by simp
qed

section \<open>When an event resolves a payment\<close>

definition event_result :: "AuthorizationOutcome \<Rightarrow> string \<Rightarrow> AuthorizationResult" where
  "event_result out r = (if out = CAPTURED then captured r else declined [])"

lemma transition_resolves:
  assumes "awaiting (db s) r p" and "event_outcome (JStr ty) = Some out" and "r \<noteq> []"
  shows "transition_payment (JStr ty) (JStr r) s =
    and_then (resolve (pay_id p) (event_result out r)) (\<lambda>_. ret ()) s"
proof -
  from assms(1) have f: "filter (\<lambda>p. pay_psp_reference p = Some r) (payments (db s)) = [p]"
    and st: "pay_status p = PaymentStatus.AUTHORIZED" by (auto simp: awaiting_def)
  consider "out = CAPTURED" "ty \<in> set capture_events"
    | "out = DECLINED" "ty \<notin> set capture_events" "ty \<in> set fail_events"
    using assms(2) by (auto split: if_splits)
  then show ?thesis
    by cases (simp_all add: transition_payment_def select_by_reference_def and_then_assoc f st assms(3) event_result_def
        resolve_def captured_def declined_def)
qed

text \<open>The held amount is there and fits: what settling or reversing a payment asks for.\<close>

definition can_resolve :: "Payment \<Rightarrow> world \<Rightarrow> bool" where
  "can_resolve p s \<longleftrightarrow> constraints (db s) \<and> ledger_balanced (db s) \<and> 0 < pay_amount p \<and>
     pay_amount p \<le> balance (db s) PSP_SUSPENSE_ACCOUNT_ID \<and>
     PSP_SUSPENSE_ACCOUNT_ID \<in> account_ids (db s) \<and> counters_ok 2 s \<and> fresh_uuids 3 s \<and>
     int64 (pay_version p + 1) \<and>
     (\<forall>a \<in> {pay_payee_account p, pay_payer_account p} - {PSP_SUSPENSE_ACCOUNT_ID}.
        balance (db s) a + pay_amount p < 2 ^ 63)"

lemma awaiting_row:
  assumes "awaiting d r p" and "constraints d"
  shows "row_of pay_id (pay_id p) (payments d) = Some p"
proof -
  from assms(1) have "p \<in> set (filter (\<lambda>p. pay_psp_reference p = Some r) (payments d))"
    by (simp add: awaiting_def)
  then show ?thesis using assms(2) by (auto simp: constraint_defs intro: row_of_in)
qed

lemma webhook_resolves:
  assumes del: "delivers we raw sig e ty r" and new: "e \<notin> whk_psp_event_id ` set (webhook_events (db s))"
    and len: "length e \<le> 255" "length r \<le> 255" "r \<noteq> []" and can: "can_resolve p s"
    and aw: "awaiting (db s) r p" and out: "event_outcome (JStr ty) = Some out"
  shows "\<exists>q t. transaction (handle we raw sig) s = (Inr (), t) \<and>
    row_of pay_id (pay_id p) (payments (db t)) = Some q \<and> same_terms p q \<and> pay_status q = resolved_status out \<and>
    (\<forall>a. balance (db t) a = balance (db s) a + resolved_transfer out p a) \<and>
    e \<in> whk_psp_event_id ` set (webhook_events (db t)) \<and> constraints (db t)"
proof -
  note cc = can[unfolded can_resolve_def]
  let ?s0 = "s\<lparr>pending := [], uuids_drawn := Suc (uuids_drawn s)\<rparr>"
  let ?a = "event_result out r"
  have o: "ar_outcome ?a = out" using out by (auto simp: event_result_def captured_def declined_def split: if_splits)
  have none: "row_of whk_psp_event_id e (webhook_events (db ?s0)) = None"
    using new by (simp add: row_of_None_iff)
  have con0: "constraints (db ?s0)" using cc by simp
  from none _ con0 len(1) obtain ev s1 where
    run: "handle_event raw (JStr e, JStr ty, JStr r) ?s0 = transition_payment (JStr ty) (JStr r) s1"
    and d1: "db s1 = (db ?s0)\<lparr>webhook_events := webhook_events (db ?s0) @ [ev]\<rparr>" and ev: "whk_psp_event_id ev = e"
    and pe1: "pending s1 = []" and con1: "constraints (db s1)" and dr: "same_draws ?s0 s1"
    and en: "entry_seq s1 = entry_seq ?s0" by (rule handle_event_new) simp
  have b: "balance (db s1) = balance (db s)" by (simp add: d1 balance_def fun_eq_iff)
  have aw1: "awaiting (db s1) r p" using aw by (simp add: awaiting_def d1)
  have "fresh_uuids (1 + 2) s" using cc by (simp add: numeral_3_eq_3)
  from fresh_uuids_skip[OF this] have "fresh_uuids 2 ?s0" by (simp add: fresh_uuids_def)
  then have "fresh_uuids (2 + 0) s1" using fresh_uuids_cong[of s1 ?s0 2] d1 dr by simp
  moreover have "counters_ok (2 + 0) s1" using counters_ok_cong[of s1 s 2] d1 en cc by simp
  moreover have "case ar_psp_reference ?a of None \<Rightarrow> True | Some r \<Rightarrow> length r \<le> 255"
    using len by (simp add: event_result_def captured_def declined_def)
  ultimately obtain q t where q: "resolve (pay_id p) ?a s1 = (Inr q, t)" and ct: "constraints (db t)"
    using resolve_succeeds[OF pe1 con1 awaiting_row[OF aw1 con1], of 0 0 ?a] cc b
    by (auto simp: d1 account_ids_def)
  from q pe1 obtain p' where p': "row_of pay_id (pay_id p) (payments (db s1)) = Some p'" "same_terms p' q"
    and st: "pay_status q = resolved_status (ar_outcome ?a)" and pt: "pending t = []"
    and step: "payment_step (pay_id p) q (db s1) (db t)"
    and bal: "\<And>c. balance (db t) c = balance (db s1) c + resolved_transfer (ar_outcome ?a) p' c"
    by (rule resolve_Inr) simp_all
  have pp: "p' = p" using p'(1) awaiting_row[OF aw1 con1] by simp
  have "handle we raw sig (s\<lparr>pending := []\<rparr>) = (Inr (), t)"
    using handle_delivers[OF del, of "s\<lparr>pending := []\<rparr>"] run transition_resolves[OF aw1 out len(3)]
    by (simp add: and_then_def q ret_def)
  then have "transaction (handle we raw sig) s = (Inr (), flushed t)"
    by (rule transaction_succeeds[OF handle_keeps]) (use pt ct cc in simp_all)
  moreover have "row_of pay_id (pay_id p) (payments (db t)) = Some q"
    using row_of_replaced[OF p'(1), of q] step p'(2) pp by (simp add: payment_step_def same_terms_def)
  moreover have "e \<in> whk_psp_event_id ` set (webhook_events (db t))"
    using step ev by (simp add: payment_step_def d1)
  ultimately show ?thesis using p'(2) pp st bal b o pt ct by (auto simp: flushed_id)
qed

section \<open>What any delivery can do\<close>

lemma handle_Inr:
  assumes "handle we raw sig s = (Inr u, t)"
  obtains data ev s1 where "sig \<noteq> []" and "signature_valid we raw sig = Inr True" and "json_loads we raw = Inr data"
    and "parse_event data s = (Inr ev, s1)" and "handle_event raw ev s1 = (Inr u, t)" and "same_data s s1"
proof -
  from assms obtain data where d: "sig \<noteq> []" "signature_valid we raw sig = Inr True" "json_loads we raw = Inr data"
    and run: "and_then (parse_event data) (handle_event raw) s = (Inr u, t)"
    by (auto simp: handle_def and_then_Inr_iff split: if_splits sum.splits)
  from run obtain ev s1 where ev: "parse_event data s = (Inr ev, s1)" "handle_event raw ev s1 = (Inr u, t)"
    by (rule and_then_InrE)
  with d keepsD[OF parse_event_same_data ev(1)] show thesis by (intro that)
qed

lemma handle_event_Inr:
  assumes "handle_event raw (eid, ty, ref) s = (Inr u, t)" and "pending s = []"
  obtains e ev where "eid = JStr e" and "row_of whk_psp_event_id e (webhook_events (db s)) = Some ev" and "t = s"
  | e ev s1 where "eid = JStr e" and "row_of whk_psp_event_id e (webhook_events (db s)) = None"
    and "whk_psp_event_id ev = e" and "whk_status ev = WebhookStatus.PROCESSED"
    and "db s1 = (db s)\<lparr>webhook_events := webhook_events (db s) @ [ev]\<rparr>" and "pending s1 = []"
    and "constraints (db s1)" and "transition_payment ty ref s1 = (Inr u, t)"
proof (cases eid)
  case (JStr e)
  show thesis
  proof (cases "row_of whk_psp_event_id e (webhook_events (db s))")
    case (Some ev)
    with JStr assms(1) show thesis by (intro that(1)[of e ev]) (simp_all add: handle_event_seen)
  next
    case None
    let ?ev = "\<lparr>whk_psp_event_id = e, whk_payload = raw, whk_status = WebhookStatus.PROCESSED,
      whk_received_at = clock s (clock_reads s)\<rparr>"
    from None JStr assms obtain s1 where
      "s1 = flushed (s\<lparr>clock_reads := Suc (clock_reads s), pending := [New_WebhookEvent ?ev]\<rparr>)"
      "constraints (db s1)" "transition_payment ty ref s1 = (Inr u, t)"
      by (auto simp: handle_event_def select_webhook_def and_then_Inr_iff)
    with None JStr show thesis by (intro that(2)[of e ?ev s1]) (simp_all add: flushed_def)
  qed
qed (use assms in \<open>simp_all add: handle_event_def\<close>)

text \<open>
  The effect of a delivery that returns: nothing but the record of the event, or the settlement or
  reversal of the one payment that waited under the reference.
\<close>

definition webhook_effect :: "database \<Rightarrow> database \<Rightarrow> bool" where
  "webhook_effect d d' \<longleftrightarrow>
     (payments d' = payments d \<and> balance d' = balance d) \<or>
     (\<exists>r p q out. awaiting d r p \<and> out \<in> {CAPTURED, DECLINED} \<and> same_terms p q \<and>
        pay_status q = resolved_status out \<and> payments d' = set_row pay_id (pay_id p) (\<lambda>_. q) (payments d) \<and>
        pay_refunded_amount q = pay_refunded_amount p \<and>
        (\<forall>a. balance d' a = balance d a + resolved_transfer out p a))"

lemma webhook_step:
  assumes "transaction (handle we raw sig) s = (Inr u, t)"
  shows "signature_valid we raw sig = Inr True \<and> (db t = db s \<or>
    (\<exists>ev. webhook_events (db t) = webhook_events (db s) @ [ev] \<and>
       whk_psp_event_id ev \<notin> whk_psp_event_id ` set (webhook_events (db s)) \<and>
       accounts (db t) = accounts (db s) \<and> refunds (db t) = refunds (db s) \<and>
       idempotency_keys (db t) = idempotency_keys (db s) \<and> webhook_effect (db s) (db t)))"
proof -
  from assms obtain t1 where "handle we raw sig (s\<lparr>pending := []\<rparr>) = (Inr u, t1)" and t: "t = flushed t1"
    by (rule transaction_Inr)
  from this(1) obtain data ev s1 where val: "signature_valid we raw sig = Inr True"
    and he: "handle_event raw ev s1 = (Inr u, t1)" and sd: "same_data (s\<lparr>pending := []\<rparr>) s1" by (rule handle_Inr)
  have d1: "db s1 = db s" "pending s1 = []" using sd by (simp_all add: same_data_def)
  obtain eid ty ref where ev: "ev = (eid, ty, ref)" by (cases ev)
  show ?thesis
  proof (cases rule: handle_event_Inr[OF he[unfolded ev] d1(2), case_names seen new])
    case (seen e ev)
    with val d1 t show ?thesis by simp
  next
    case (new e wev s2)
    have fresh: "whk_psp_event_id wev \<notin> whk_psp_event_id ` set (webhook_events (db s))"
      using new(2,3) d1 by (simp add: row_of_None_iff)
    have b2: "balance (db s2) = balance (db s)" by (simp add: new(5) d1 balance_def fun_eq_iff)
    show ?thesis
    proof (cases rule: transition_payment_Inr[OF new(8), case_names idle resolved])
      case idle
      with new t val fresh d1 b2 show ?thesis by (auto simp: webhook_effect_def)
    next
      case (resolved r p a q)
      from resolved(5) new(6) obtain p' where p': "row_of pay_id (pay_id p) (payments (db s2)) = Some p'"
        "same_terms p' q" "pay_refunded_amount q = pay_refunded_amount p'"
        and st: "pay_status q = resolved_status (ar_outcome a)" and pt: "pending t1 = []"
        and step: "payment_step (pay_id p) q (db s2) (db t1)"
        and bal: "\<And>c. balance (db t1) c = balance (db s2) c + resolved_transfer (ar_outcome a) p' c"
        by (rule resolve_Inr) simp_all
      have pp: "p' = p" using p'(1) awaiting_row[OF resolved(3) new(7)] by simp
      have aw: "awaiting (db s) r p" using resolved(3) by (simp add: awaiting_def new(5) d1)
      have out: "ar_outcome a \<in> {CAPTURED, DECLINED}" using resolved(4) by (auto simp: event_outcome_eq)
      have "webhook_effect (db s) (db t1)"
        unfolding webhook_effect_def using aw out p' pp st bal b2 step
        by (intro disjI2 exI[of _ r] exI[of _ p] exI[of _ q] exI[of _ "ar_outcome a"])
          (auto simp: payment_step_def new(5) d1)
      with val fresh pt t step show ?thesis by (auto simp: payment_step_def new(5) d1)
    qed
  qed
qed

section \<open>A concrete delivery\<close>

definition sample_webhook_env :: webhook_env where
  "sample_webhook_env = \<lparr>PSP_WEBHOOK_SECRET = ''s'', STRIPE_WEBHOOK_SECRET = [],
     construct_event = (\<lambda>_ _ _ _. Inl InvalidSignatureException),
     loads_beyond = (\<lambda>_. Inl (ValueError []))\<rparr>"

text \<open>A body as a provider sends it: another order of the fields, and one that is not read.\<close>

definition sample_body :: string where
  "sample_body = [CHR 0x0A] @ json_dumps (JObj [(''type'', JStr ''payment.captured''), (''amount'', JInt 40),
     (''pspReference'', JStr ''ref''), (''pspEventId'', JStr ''evt'')])"

definition sample_signature :: string where
  "sample_signature = hmac_sha256_hexdigest ''s'' sample_body"

lemma sample_loads: "json_loads we sample_body = Inr (JObj [(''amount'', JInt 40), (''pspEventId'', JStr ''evt''),
    (''pspReference'', JStr ''ref''), (''type'', JStr ''payment.captured'')])"
proof -
  let ?j = "JObj [(''type'', JStr ''payment.captured''), (''amount'', JInt 40),
     (''pspReference'', JStr ''ref''), (''pspEventId'', JStr ''evt'')]"
  have "readable ?j" and "list_all json_space [CHR 0x0A]" by code_simp+
  moreover have "sort_fields ?j = JObj [(''amount'', JInt 40), (''pspEventId'', JStr ''evt''),
    (''pspReference'', JStr ''ref''), (''type'', JStr ''payment.captured'')]" by code_simp
  ultimately show ?thesis
    using loads_print[OF readable_sort_fields, of ?j "[CHR 0x0A]" "[]" "loads_beyond we"]
    by (simp only: json_loads_def sample_body_def json_dumps_print append_Nil2 list.pred_inject(1))
qed

lemma sample_delivers: "delivers sample_webhook_env sample_body sample_signature ''evt'' ''payment.captured'' ''ref''"
proof -
  have "sample_body \<noteq> []" by (simp add: sample_body_def)
  then show ?thesis
    by (simp add: delivers_def sample_loads well_formed_event_def)
      (simp add: sample_webhook_env_def signature_valid_def psp_signature_valid_def compare_digest_def
        sample_signature_def hmac_hexdigest_ascii)
qed

lemma sample_delivers_header: "delivers sample_webhook_env sample_body
    (chosen_signature (Some sample_signature) None) ''evt'' ''payment.captured'' ''ref''"
  using sample_delivers by (simp add: chosen_signature_def)

lemma sample_can_resolve: "can_resolve (sample_payment st) (sample_paid st)"
proof -
  have "fresh_uuids 3 (sample_paid st)" using fresh_uuids_less[OF sample_paid_facts(11), of 3] by simp
  moreover have "counters_ok 2 (sample_paid st)"
    using sample_paid_facts(12)[of st] by (auto simp: counters_ok_def)
  moreover have "UUID 1 \<in> account_ids (db (sample_paid st))"
    by (simp add: account_ids_def sample_paid_def sample_db_def upgrade_def)
  ultimately show ?thesis using sample_paid_constraints[of st]
    by (simp add: can_resolve_def sample_payment_def PSP_SUSPENSE_ACCOUNT_ID_def int64_def)
qed

lemma sample_awaiting:
  "awaiting (db (sample_paid PaymentStatus.AUTHORIZED)) ''ref'' (sample_payment PaymentStatus.AUTHORIZED)"
  by (simp add: awaiting_def) (simp add: sample_payment_def)

section \<open>Properties\<close>

text \<open>
  The generic verifier accepts exactly the HMAC of the body: with a secret and a body that are not
  empty, the only header it accepts is the HMAC-SHA-256 of the body under the secret, in hexadecimal;
  without a secret, a body or a header it accepts nothing.
\<close>

theorem signature_exact:
  "psp_signature_valid we raw header = Inr True \<longleftrightarrow> PSP_WEBHOOK_SECRET we \<noteq> [] \<and> raw \<noteq> [] \<and>
     header = hmac_sha256_hexdigest (PSP_WEBHOOK_SECRET we) raw"
  by (auto simp: psp_signature_valid_def compare_digest_def hmac_hexdigest_ascii hmac_hexdigest_nonempty[symmetric] split: if_splits)

text \<open>
  C36. Only signed webhooks act. A delivery that is not accepted by the generic HMAC verifier or by the
  Stripe verifier, or that has no signature, never returns and changes no table.
\<close>

theorem webhook_needs_signature:
  assumes "signature_valid we raw (chosen_signature x y) \<noteq> Inr True"
  shows "\<exists>e t. handle_webhook we raw x y s = (Inl e, t) \<and> db t = db s"
proof -
  let ?sig = "chosen_signature x y"
  obtain r t where r: "transaction (handle we raw ?sig) s = (r, t)" by fastforce
  show ?thesis
  proof (cases r)
    case (Inl e)
    with r transaction_Inl_db[of "handle we raw ?sig" s e t] show ?thesis by (simp add: handle_webhook_def)
  next
    case (Inr u)
    with webhook_step[of we raw ?sig s u t] r assms show ?thesis by simp
  qed
qed

theorem webhook_needs_signature_witness:
  "\<exists>e t. handle_webhook sample_webhook_env ''body'' (Some ''forged'') None sample_world = (Inl e, t) \<and> db t = sample_db"
proof -
  have "length (hmac_sha256_hexdigest ''s'' ''body'') \<noteq> length ''forged''" by simp
  then have "hmac_sha256_hexdigest ''s'' ''body'' \<noteq> ''forged''" by metis
  then have "signature_valid sample_webhook_env ''body'' (chosen_signature (Some ''forged'') None) \<noteq> Inr True"
    by (simp add: signature_valid_def psp_signature_valid_def stripe_signature_valid_def sample_webhook_env_def
        compare_digest_def chosen_signature_def)
  from webhook_needs_signature[OF this, of sample_world] show ?thesis by simp
qed

text \<open>
  C29. A webhook resolves the payment that waits for it, once. When a signed capture (or failure) event
  that was not seen before names the reference of one AUTHORIZED payment whose funds are held, the
  handler returns, the payment is SUCCEEDED (or FAILED), its amount has left the suspense account for
  the payee (or for the payer), and delivering the same event again changes no table.
\<close>

theorem webhook_resolves_once:
  assumes "delivers we raw (chosen_signature x y) e ty r"
    and "e \<notin> whk_psp_event_id ` set (webhook_events (db s))" and "length e \<le> 255" and "length r \<le> 255"
    and "r \<noteq> []" and "can_resolve p s" and "awaiting (db s) r p" and "event_outcome (JStr ty) = Some out"
  shows "\<exists>q t u. handle_webhook we raw x y s = (Inr (), t) \<and>
    row_of pay_id (pay_id p) (payments (db t)) = Some q \<and> same_terms p q \<and> pay_status q = resolved_status out \<and>
    (\<forall>a. balance (db t) a = balance (db s) a + resolved_transfer out p a) \<and>
    handle_webhook we raw x y t = (Inr (), u) \<and> db u = db t"
proof -
  from webhook_resolves[OF assms(1-8)] obtain q t where run: "transaction (handle we raw (chosen_signature x y)) s = (Inr (), t)"
    and q: "row_of pay_id (pay_id p) (payments (db t)) = Some q" "same_terms p q" "pay_status q = resolved_status out"
      "\<forall>a. balance (db t) a = balance (db s) a + resolved_transfer out p a"
    and e: "e \<in> whk_psp_event_id ` set (webhook_events (db t))" "constraints (db t)" by blast
  from redelivered[OF assms(1) e] run q show ?thesis by (auto simp: handle_webhook_def)
qed

theorem webhook_resolves_once_witness:
  "\<exists>q t u. handle_webhook sample_webhook_env sample_body (Some sample_signature) None
       (sample_paid PaymentStatus.AUTHORIZED) = (Inr (), t) \<and>
     row_of pay_id (UUID 50) (payments (db t)) = Some q \<and> pay_status q = PaymentStatus.SUCCEEDED \<and>
     balance (db t) (UUID 1) = 0 \<and> balance (db t) (UUID 4) = 90 \<and>
     handle_webhook sample_webhook_env sample_body (Some sample_signature) None t = (Inr (), u) \<and> db u = db t"
proof -
  have "event_outcome (JStr ''payment.captured'') = Some CAPTURED" by (simp add: capture_events_def)
  from webhook_resolves_once[OF sample_delivers_header _ _ _ _ sample_can_resolve sample_awaiting this]
  obtain q t u where "handle_webhook sample_webhook_env sample_body (Some sample_signature) None
       (sample_paid PaymentStatus.AUTHORIZED) = (Inr (), t)"
    "row_of pay_id (UUID 50) (payments (db t)) = Some q" "pay_status q = PaymentStatus.SUCCEEDED"
    "\<forall>a. balance (db t) a = balance (db (sample_paid PaymentStatus.AUTHORIZED)) a +
      resolved_transfer CAPTURED (sample_payment PaymentStatus.AUTHORIZED) a"
    "handle_webhook sample_webhook_env sample_body (Some sample_signature) None t = (Inr (), u)" "db u = db t"
    by (auto simp: sample_payment_def)
  then show ?thesis by (auto simp: sample_payment_def PSP_SUSPENSE_ACCOUNT_ID_def)
qed

text \<open>
  C20. A webhook never touches a payment that is not waiting. Whatever an accepted delivery contains, the
  handler either leaves every table as it was (an event seen before), or records one new event and
  then changes nothing else of the payments and balances, or settles or reverses exactly one payment
  that was AUTHORIZED, moving exactly its amount out of suspense.
\<close>

theorem webhook_state_guard:
  assumes "handle_webhook we raw x y s = (Inr u, t)"
  shows "db t = db s \<or> (\<exists>ev. webhook_events (db t) = webhook_events (db s) @ [ev] \<and>
    whk_psp_event_id ev \<notin> whk_psp_event_id ` set (webhook_events (db s)) \<and>
    refunds (db t) = refunds (db s) \<and> idempotency_keys (db t) = idempotency_keys (db s) \<and>
    webhook_effect (db s) (db t))"
  using webhook_step[of we raw "chosen_signature x y" s u t] assms by (auto simp: handle_webhook_def)

theorem webhook_state_guard_witness:
  "\<exists>t. handle_webhook sample_webhook_env sample_body (Some sample_signature) None
       (sample_paid PaymentStatus.AUTHORIZED) = (Inr (), t) \<and>
     (db t = db (sample_paid PaymentStatus.AUTHORIZED) \<or> webhook_effect (db (sample_paid PaymentStatus.AUTHORIZED)) (db t))"
proof -
  have sig: "chosen_signature (Some sample_signature) None = sample_signature" by (simp add: chosen_signature_def)
  have "event_outcome (JStr ''payment.captured'') = Some CAPTURED" by (simp add: capture_events_def)
  from webhook_resolves[OF sample_delivers _ _ _ _ sample_can_resolve sample_awaiting this]
  obtain t where "handle_webhook sample_webhook_env sample_body (Some sample_signature) None
       (sample_paid PaymentStatus.AUTHORIZED) = (Inr (), t)" by (auto simp: handle_webhook_def sig)
  with webhook_state_guard[OF this] show ?thesis by auto
qed

text \<open>
  C24. A webhook that comes too early is lost. When a signed event arrives while no payment has its
  reference yet (the second transaction of \<open>create\<close> has not stored it), the handler returns and
  records the event as PROCESSED without touching a payment, and at every later state that still has
  the record a repeated delivery returns and changes no table, even when the payment then waits.
\<close>

theorem early_webhook_lost:
  assumes "delivers we raw (chosen_signature x y) e ty r" and "constraints (db s)"
    and "e \<notin> whk_psp_event_id ` set (webhook_events (db s))" and "length e \<le> 255"
    and "\<forall>p \<in> set (payments (db s)). pay_psp_reference p \<noteq> Some r"
  shows "\<exists>t ev. handle_webhook we raw x y s = (Inr (), t) \<and>
    db t = (db s)\<lparr>webhook_events := webhook_events (db s) @ [ev]\<rparr> \<and> whk_psp_event_id ev = e \<and>
    (\<forall>u. constraints (db u) \<and> ev \<in> set (webhook_events (db u)) \<longrightarrow>
       (\<exists>v. handle_webhook we raw x y u = (Inr (), v) \<and> db v = db u))"
proof -
  let ?s0 = "s\<lparr>pending := [], uuids_drawn := Suc (uuids_drawn s)\<rparr>"
  let ?sig = "chosen_signature x y"
  have none: "row_of whk_psp_event_id e (webhook_events (db ?s0)) = None"
    using assms(3) by (simp add: row_of_None_iff)
  have con0: "constraints (db ?s0)" using assms(2) by simp
  from none _ con0 assms(4) obtain ev s1 where
    run: "handle_event raw (JStr e, JStr ty, JStr r) ?s0 = transition_payment (JStr ty) (JStr r) s1"
    and d1: "db s1 = (db ?s0)\<lparr>webhook_events := webhook_events (db ?s0) @ [ev]\<rparr>" and ev: "whk_psp_event_id ev = e"
    and pe1: "pending s1 = []" and con1: "constraints (db s1)" by (rule handle_event_new) simp
  have "filter (\<lambda>p. pay_psp_reference p = Some r) (payments (db s)) = []"
    using assms(5) by (simp add: filter_empty_conv)
  then have "transition_payment (JStr ty) (JStr r) s1 = (Inr (), s1)"
    by (simp add: transition_payment_def select_by_reference_def and_then_assoc d1 ret_def)
  then have "handle we raw ?sig (s\<lparr>pending := []\<rparr>) = (Inr (), s1)"
    using handle_delivers[OF assms(1), of "s\<lparr>pending := []\<rparr>"] run by simp
  moreover have "trg_ledger_balanced (db s) (db s1)" by (simp add: trg_ledger_balanced_def d1)
  ultimately have "transaction (handle we raw ?sig) s = (Inr (), s1)"
    using transaction_InrI[of "handle we raw ?sig" s "()" s1] pe1 con1 by simp
  moreover have "\<exists>v. transaction (handle we raw ?sig) u = (Inr (), v) \<and> db v = db u"
    if "constraints (db u)" "ev \<in> set (webhook_events (db u))" for u
    by (rule redelivered[OF assms(1)]) (use that ev in auto)
  ultimately show ?thesis using d1 ev by (auto simp: handle_webhook_def)
qed

theorem early_webhook_lost_witness:
  "\<exists>t v. handle_webhook sample_webhook_env sample_body (Some sample_signature) None sample_world = (Inr (), t) \<and>
     payments (db t) = [] \<and> length (webhook_events (db t)) = 1 \<and>
     handle_webhook sample_webhook_env sample_body (Some sample_signature) None t = (Inr (), v) \<and> db v = db t"
proof -
  have e: "payments sample_db = []" "webhook_events sample_db = []"
    by (simp_all add: sample_db_def upgrade_def empty_database_def)
  from early_webhook_lost[OF sample_delivers_header, of sample_world] sample_db_constraints e
  obtain t ev where run: "handle_webhook sample_webhook_env sample_body (Some sample_signature) None sample_world = (Inr (), t)"
    and t: "db t = sample_db\<lparr>webhook_events := [ev]\<rparr>"
    and again: "\<And>u. constraints (db u) \<Longrightarrow> ev \<in> set (webhook_events (db u)) \<Longrightarrow>
      \<exists>v. handle_webhook sample_webhook_env sample_body (Some sample_signature) None u = (Inr (), v) \<and> db v = db u"
    by auto
  have con: "constraints (db t)"
    by (rule transaction_constraints[OF run[unfolded handle_webhook_def]]) (simp add: sample_db_constraints)
  have "ev \<in> set (webhook_events (db t))" by (simp add: t)
  from again[OF con this] obtain v where
    "handle_webhook sample_webhook_env sample_body (Some sample_signature) None t = (Inr (), v)" "db v = db t" by blast
  moreover have "payments (db t) = []" "length (webhook_events (db t)) = 1" using e by (simp_all add: t)
  ultimately show ?thesis using run by blast
qed

end
