(* ===== verification/Reconciliation.thy ===== *)
theory Reconciliation
  imports Webhooks
begin

text \<open>
  \<open>ReconciliationService\<close> (\<open>app/application/reconciliation_service.py\<close>) and its route
  (\<open>app/api/reconciliation.py\<close>): the audit of the journal against the balance rows, and the expiry
  of payments that wait too long for their webhook. Times are microseconds.
\<close>

section \<open>Operations\<close>

record IntegrityResponse =
  ires_balanced :: bool
  ires_ledgerNet :: int
  ires_driftedAccountsCount :: int

definition calc_amount :: "LedgerEntry \<Rightarrow> int" where
  "calc_amount e = (case ent_direction e of CREDIT \<Rightarrow> ent_amount e | DEBIT \<Rightarrow> - ent_amount e)"

text \<open>The grouped subquery joined on the left: no group gives NULL.\<close>

definition postings_subq :: "LedgerEntry list \<Rightarrow> UUID \<Rightarrow> int option" where
  "postings_subq es a = (case filter (\<lambda>e. ent_account_id e = a) es of
     [] \<Rightarrow> None | g \<Rightarrow> Some (sum_list (map calc_amount g)))"

definition drifted_accounts :: "database \<Rightarrow> UUID list" where
  "drifted_accounts d = map bal_account_id (filter (\<lambda>b. bal_balance b \<noteq>
     (case postings_subq (ledger_entries d) (bal_account_id b) of None \<Rightarrow> 0 | Some c \<Rightarrow> c)) (account_balances d))"

definition audit_integrity :: "IntegrityResponse M" where
  "audit_integrity = and_then (gets (\<lambda>s. sum_list (map signed_amount (ledger_entries (db s))))) (\<lambda>net.
     and_then (gets (\<lambda>s. drifted_accounts (db s))) (\<lambda>drifted.
     ret \<lparr>ires_balanced = (net = 0 \<and> length drifted = 0), ires_ledgerNet = net,
          ires_driftedAccountsCount = int (length drifted)\<rparr>))"

definition get_integrity_report :: "IntegrityResponse M" where
  "get_integrity_report = audit_integrity"

definition minutes :: "int \<Rightarrow> int" where
  "minutes n = n * 60 * 1000000"

definition stale_payments :: "int \<Rightarrow> database \<Rightarrow> Payment list" where
  "stale_payments cutoff d =
     filter (\<lambda>p. pay_status p = PaymentStatus.AUTHORIZED \<and> pay_created_at p < cutoff) (payments d)"

text \<open>The loop, with its counter.\<close>

fun reverse_all :: "Payment list \<Rightarrow> int \<Rightarrow> int M" where
  "reverse_all [] n = ret n"
| "reverse_all (p # ps) n = and_then (reverse (pay_id p)) (\<lambda>_. reverse_all ps (n + 1))"

definition expire_stale_holds :: "int \<Rightarrow> int M" where
  "expire_stale_holds timeout_minutes =
     and_then datetime_now (\<lambda>now.
     and_then (gets (\<lambda>s. stale_payments (now - minutes timeout_minutes) (db s))) (\<lambda>stale.
     reverse_all stale 0))"

section \<open>The audit\<close>

lemma postings_subq_computed:
  "(case postings_subq es a of None \<Rightarrow> 0 | Some c \<Rightarrow> c) = computed_balance es a"
proof -
  have "calc_amount = (\<lambda>e. - signed_amount e)"
    by (simp add: fun_eq_iff calc_amount_def signed_amount_def split: Direction.split)
  then show ?thesis by (auto simp: postings_subq_def computed_balance_def split: list.split)
qed

lemma drifted_accounts_drift:
  assumes "distinct (map bal_account_id (account_balances d))"
  shows "drifted_accounts d = [] \<longleftrightarrow> (\<forall>a \<in> balance_keys d. drift d a = 0)"
  using assms
  by (auto simp: drifted_accounts_def postings_subq_computed filter_empty_conv balance_keys_def drift_def balance_of_row)

lemma audit_report:
  "audit_integrity s = (Inr \<lparr>ires_balanced = (ledger_net (db s) = 0 \<and> drifted_accounts (db s) = []),
     ires_ledgerNet = ledger_net (db s), ires_driftedAccountsCount = int (length (drifted_accounts (db s)))\<rparr>, s)"
  by (simp add: audit_integrity_def ledger_net_def ret_def)

text \<open>The computed balances of all accounts add up to the negated net of the journal.\<close>

lemma sum_computed_balance:
  assumes "finite A" and "ent_account_id ` set es \<subseteq> A"
  shows "(\<Sum>a \<in> A. computed_balance es a) = - sum_list (map signed_amount es)"
  using assms(2)
proof (induction es)
  case Nil
  then show ?case by (simp add: computed_balance_def)
next
  case (Cons e es)
  have "(\<Sum>a \<in> A. computed_balance (e # es) a) =
      (\<Sum>a \<in> A. (if ent_account_id e = a then - signed_amount e else 0) + computed_balance es a)"
    by (intro sum.cong) (simp_all add: computed_balance_def)
  with Cons assms(1) show ?case by (simp add: sum.distrib)
qed

lemma total_balance_computed:
  assumes "distinct (map bal_account_id (account_balances d))" and "ent_account_id ` set (ledger_entries d) \<subseteq> balance_keys d"
    and "\<forall>a \<in> balance_keys d. drift d a = 0"
  shows "total_balance d = - ledger_net d"
proof -
  have fin: "finite (balance_keys d)" by (simp add: balance_keys_def)
  have "total_balance d = (\<Sum>a \<in> balance_keys d. balance d a)"
    using total_balance_sum[OF assms(1) _ fin] by simp
  also have "\<dots> = (\<Sum>a \<in> balance_keys d. computed_balance (ledger_entries d) a)"
    using assms(3) by (intro sum.cong) (simp_all add: drift_def)
  finally show ?thesis using sum_computed_balance[OF fin assms(2)] by (simp add: ledger_net_def)
qed

section \<open>Expiry\<close>

lemma reverse_all_keeps: "keeps ledger_frame_rel (reverse_all ps c)"
  by (induction ps arbitrary: c) (auto intro!: saga_keeps)

lemma expire_keeps: "keeps ledger_frame_rel (expire_stale_holds n)"
  unfolding expire_stale_holds_def by (intro saga_keeps reverse_all_keeps)

text \<open>What happened to one row of the table when the payments with identifiers in \<open>I\<close> were reversed.\<close>

definition expired_row :: "UUID set \<Rightarrow> Payment \<Rightarrow> Payment \<Rightarrow> bool" where
  "expired_row I p q \<longleftrightarrow> (if pay_id p \<in> I
     then same_terms p q \<and> pay_status q = PaymentStatus.FAILED \<and> pay_refunded_amount q = pay_refunded_amount p
     else q = p)"

lemma reverse_resolve: "reverse pid = resolve pid (declined [])"
  by (simp add: resolve_def declined_def fun_eq_iff)

lemma set_row_others:
  "set qs \<subseteq> set ps \<Longrightarrow> k \<notin> key ` set qs \<Longrightarrow> set qs \<subseteq> set (set_row key k f ps)"
  by (auto simp: set_row_def image_iff)

lemma reverse_all_Inr:
  assumes "reverse_all ps c s = (Inr n, t)" and "pending s = []" and "distinct (map pay_id (payments (db s)))"
    and "distinct (map pay_id ps)" and "set ps \<subseteq> set (payments (db s))"
  shows "n = c + int (length ps) \<and> pending t = [] \<and>
    list_all2 (expired_row (pay_id ` set ps)) (payments (db s)) (payments (db t)) \<and>
    (\<forall>a. balance (db t) a = balance (db s) a + sum_list (map (\<lambda>p. resolved_transfer DECLINED p a) ps)) \<and>
    refunds (db t) = refunds (db s) \<and> idempotency_keys (db t) = idempotency_keys (db s) \<and>
    accounts (db t) = accounts (db s) \<and> webhook_events (db t) = webhook_events (db s)"
  using assms
proof (induction ps arbitrary: c s)
  case Nil
  then show ?case by (simp add: expired_row_def list_all2_same)
next
  case (Cons p ps)
  from Cons.prems(1) obtain q s1 where rev: "resolve (pay_id p) (declined []) s = (Inr q, s1)"
    and rest: "reverse_all ps (c + 1) s1 = (Inr n, t)" by (auto simp: and_then_Inr_iff reverse_resolve)
  from rev Cons.prems(2) obtain p' where p': "row_of pay_id (pay_id p) (payments (db s)) = Some p'" "same_terms p' q"
    "pay_refunded_amount q = pay_refunded_amount p'"
    and st: "pay_status q = PaymentStatus.FAILED" and pe: "pending s1 = []"
    and step: "payment_step (pay_id p) q (db s) (db s1)"
    and bal: "\<And>a. balance (db s1) a = balance (db s) a + resolved_transfer DECLINED p' a"
    by (rule resolve_Inr) (simp_all add: declined_def)
  have "row_of pay_id (pay_id p) (payments (db s)) = Some p" using Cons.prems(3,5) by (intro row_of_in) simp_all
  with p'(1) have pp: "p' = p" by simp
  have pays: "payments (db s1) = set_row pay_id (pay_id p) (\<lambda>_. q) (payments (db s))"
    using step by (simp add: payment_step_def)
  have qid: "pay_id q = pay_id p" using p'(2) pp by (simp add: same_terms_def)
  have keys: "map pay_id (payments (db s1)) = map pay_id (payments (db s))"
    unfolding pays by (auto simp: set_row_def qid)
  have sub: "set ps \<subseteq> set (payments (db s1))"
    using Cons.prems(4,5) unfolding pays by (intro set_row_others) simp_all
  have "distinct (map pay_id (payments (db s1)))" using Cons.prems(3) keys by simp
  note IH = Cons.IH[OF rest pe this _ sub]
  have row: "row_of pay_id (pay_id x) (payments (db s)) = Some x" if "x \<in> set (payments (db s))" for x
    using Cons.prems(3) that by (rule row_of_in)
  have nin: "pay_id q \<notin> pay_id ` set ps" using Cons.prems(4) qid by simp
  have l2: "list_all2 (expired_row (pay_id ` set ps)) (set_row pay_id (pay_id p) (\<lambda>_. q) (payments (db s))) (payments (db t))"
    using IH Cons.prems(4) pays by simp
  have "list_all2 (expired_row (pay_id ` set (p # ps))) (payments (db s)) (payments (db t))"
  proof (rule list_all2_all_nthI)
    show "length (payments (db s)) = length (payments (db t))" using list_all2_lengthD[OF l2] by simp
    fix i
    assume i: "i < length (payments (db s))"
    let ?x = "payments (db s) ! i"
    have "expired_row (pay_id ` set ps) (if pay_id ?x = pay_id p then q else ?x) (payments (db t) ! i)"
      using list_all2_nthD[OF l2, of i] i by (simp add: set_row_def)
    moreover have "?x = p" if "pay_id ?x = pay_id p" using row[of ?x] row[of p] that i Cons.prems(5) by simp
    ultimately show "expired_row (pay_id ` set (p # ps)) ?x (payments (db t) ! i)"
      using nin p'(2,3) pp st qid by (cases "pay_id ?x = pay_id p") (auto simp: expired_row_def)
  qed
  with IH Cons.prems(4) step bal pp show ?case by (auto simp: payment_step_def)
qed

section \<open>When the expiry returns\<close>

definition held_sum :: "Payment list \<Rightarrow> int" where
  "held_sum ps = sum_list (map pay_amount ps)"

lemma held_sum_nonneg: "\<forall>p \<in> set ps. 0 < pay_amount p \<Longrightarrow> 0 \<le> held_sum ps"
  by (induction ps) (auto simp: held_sum_def intro: add_nonneg_nonneg)

definition can_reverse_all :: "Payment list \<Rightarrow> world \<Rightarrow> bool" where
  "can_reverse_all ps s \<longleftrightarrow> constraints (db s) \<and> PSP_SUSPENSE_ACCOUNT_ID \<in> account_ids (db s) \<and>
     (\<forall>p \<in> set ps. 0 < pay_amount p \<and> int64 (pay_version p + 1)) \<and>
     held_sum ps \<le> balance (db s) PSP_SUSPENSE_ACCOUNT_ID \<and> (\<forall>a. balance (db s) a + held_sum ps < 2 ^ 63) \<and>
     counters_ok (2 * int (length ps)) s \<and> fresh_uuids (2 * length ps) s"

lemma reverse_all_succeeds:
  assumes "pending s = []" and "can_reverse_all ps s" and "distinct (map pay_id ps)"
    and "set ps \<subseteq> set (payments (db s))"
  shows "\<exists>n t. reverse_all ps c s = (Inr n, t) \<and> constraints (db t)"
  using assms
proof (induction ps arbitrary: c s)
  case Nil
  then show ?case by (simp add: ret_def can_reverse_all_def)
next
  case (Cons p ps)
  note cc = Cons.prems(2)[unfolded can_reverse_all_def]
  have con: "constraints (db s)" using cc by simp
  then have dist: "distinct (map pay_id (payments (db s)))" by (simp add: constraint_defs)
  have p: "row_of pay_id (pay_id p) (payments (db s)) = Some p" using dist Cons.prems(4) by (intro row_of_in) simp_all
  have hs: "held_sum (p # ps) = pay_amount p + held_sum ps" by (simp add: held_sum_def)
  have nn: "0 \<le> held_sum ps" using cc by (intro held_sum_nonneg) simp
  have "counters_ok (2 + 2 * int (length ps)) s" "fresh_uuids (2 + 2 * length ps) s"
    using cc by (simp_all add: algebra_simps)
  moreover have "pay_amount p \<le> balance (db s) PSP_SUSPENSE_ACCOUNT_ID"
    "balance (db s) (pay_payer_account p) + pay_amount p < 2 ^ 63" using cc hs nn by (auto dest: spec[of _ "pay_payer_account p"])
  ultimately obtain q s1 where rev: "reverse (pay_id p) s = (Inr q, s1)"
    and room: "counters_ok (2 * int (length ps)) s1" "fresh_uuids (2 * length ps) s1"
    using reverse_succeeds[OF Cons.prems(1) con p, of "2 * int (length ps)" "2 * length ps"] cc by auto
  from rev Cons.prems(1) have con1: "constraints (db s1)" by (rule reverse_Inr) (rule transitioned_frame(7))
  from rev[unfolded reverse_resolve] Cons.prems(1) obtain p' where p': "row_of pay_id (pay_id p) (payments (db s)) = Some p'"
    and pe: "pending s1 = []" and step: "payment_step (pay_id p) q (db s) (db s1)"
    and bal: "\<And>a. balance (db s1) a = balance (db s) a + resolved_transfer DECLINED p' a"
    by (rule resolve_Inr) (simp_all add: declined_def)
  have pp: "p' = p" using p p' by simp
  have sub: "set ps \<subseteq> set (payments (db s1))"
    using Cons.prems(3,4) step set_row_others[of ps "payments (db s)" "pay_id p" pay_id]
    by (simp add: payment_step_def)
  have "0 < pay_amount p" using cc by simp
  then have "balance (db s1) a + held_sum ps \<le> balance (db s) a + held_sum (p # ps)" for a
    using bal[of a] pp hs by simp
  moreover have "held_sum ps \<le> balance (db s1) PSP_SUSPENSE_ACCOUNT_ID"
    using bal[of PSP_SUSPENSE_ACCOUNT_ID] pp hs cc \<open>0 < pay_amount p\<close> by auto
  ultimately have "can_reverse_all ps s1"
    using cc con1 room step by (auto simp: can_reverse_all_def payment_step_def account_ids_def intro: le_less_trans)
  from Cons.IH[OF pe this _ sub, of "c + 1"] Cons.prems(3) show ?case by (simp add: and_then_def rev)
qed

lemma expire_Inr:
  assumes "transaction (expire_stale_holds n) s = (Inr c, t)" and "constraints (db s)"
  shows "c = int (length (stale_payments (clock s (clock_reads s) - minutes n) (db s)))"
    and "list_all2 (expired_row (pay_id ` set (stale_payments (clock s (clock_reads s) - minutes n) (db s))))
      (payments (db s)) (payments (db t))"
    and "balance (db t) a = balance (db s) a + sum_list (map (\<lambda>p. resolved_transfer DECLINED p a)
      (stale_payments (clock s (clock_reads s) - minutes n) (db s)))"
    and "refunds (db t) = refunds (db s)" and "idempotency_keys (db t) = idempotency_keys (db s)"
    and "accounts (db t) = accounts (db s)" and "webhook_events (db t) = webhook_events (db s)"
proof -
  let ?ps = "stale_payments (clock s (clock_reads s) - minutes n) (db s)"
  let ?s1 = "s\<lparr>pending := [], clock_reads := Suc (clock_reads s)\<rparr>"
  from assms(1) obtain t1 where t1: "expire_stale_holds n (s\<lparr>pending := []\<rparr>) = (Inr c, t1)" and t: "t = flushed t1"
    by (rule transaction_Inr)
  then have run: "reverse_all ?ps 0 ?s1 = (Inr c, t1)"
    by (simp add: expire_stale_holds_def and_then_Inr[of datetime_now] datetime_now_def)
  have d: "distinct (map pay_id (payments (db ?s1)))" using assms(2) by (simp add: constraint_defs)
  have "distinct (map pay_id ?ps)" using d by (simp add: stale_payments_def distinct_map_filter)
  from reverse_all_Inr[OF run _ d this] have *: "c = int (length ?ps) \<and> pending t1 = [] \<and>
      list_all2 (expired_row (pay_id ` set ?ps)) (payments (db s)) (payments (db t1)) \<and>
      (\<forall>a. balance (db t1) a = balance (db s) a + sum_list (map (\<lambda>p. resolved_transfer DECLINED p a) ?ps)) \<and>
      refunds (db t1) = refunds (db s) \<and> idempotency_keys (db t1) = idempotency_keys (db s) \<and>
      accounts (db t1) = accounts (db s) \<and> webhook_events (db t1) = webhook_events (db s)"
    by (auto simp: stale_payments_def)
  then have ft: "t = t1" using t by simp
  from * show "c = int (length ?ps)"
    and "list_all2 (expired_row (pay_id ` set ?ps)) (payments (db s)) (payments (db t))"
    and "balance (db t) a = balance (db s) a + sum_list (map (\<lambda>p. resolved_transfer DECLINED p a) ?ps)"
    and "refunds (db t) = refunds (db s)" and "idempotency_keys (db t) = idempotency_keys (db s)"
    and "accounts (db t) = accounts (db s)" and "webhook_events (db t) = webhook_events (db s)"
    by (simp_all add: ft)
qed

section \<open>Properties\<close>

lemma expire_succeeds:
  assumes "ledger_balanced (db s)"
    and "can_reverse_all (stale_payments (clock s (clock_reads s) - minutes n) (db s)) s"
  shows "\<exists>c t. transaction (expire_stale_holds n) s = (Inr c, t)"
proof -
  let ?ps = "stale_payments (clock s (clock_reads s) - minutes n) (db s)"
  let ?s1 = "s\<lparr>pending := [], clock_reads := Suc (clock_reads s)\<rparr>"
  have con: "constraints (db s)" using assms(2) by (simp add: can_reverse_all_def)
  have can: "can_reverse_all ?ps ?s1"
    using assms(2) by (simp add: can_reverse_all_def counters_ok_def fresh_uuids_def)
  have "distinct (map pay_id ?ps)" using con by (simp add: stale_payments_def distinct_map_filter constraint_defs)
  with reverse_all_succeeds[OF _ can] obtain c t where run: "reverse_all ?ps 0 ?s1 = (Inr c, t)" and ct: "constraints (db t)"
    by (fastforce simp: stale_payments_def)
  from run con have "pending t = []"
    using reverse_all_Inr[OF run] by (simp add: stale_payments_def distinct_map_filter constraint_defs)
  moreover have "expire_stale_holds n (s\<lparr>pending := []\<rparr>) = (Inr c, t)"
    using run by (simp add: expire_stale_holds_def and_then_Inr[of datetime_now] datetime_now_def)
  then have "transaction (expire_stale_holds n) s = (Inr c, flushed t)"
    by (rule transaction_succeeds[OF expire_keeps]) (use calculation ct assms(1) in simp_all)
  then show ?thesis by blast
qed

text \<open>
  C39. The audit reports exactly the two sums it names: \<open>balanced\<close> holds if and only if the signed sum
  of all ledger entries is zero and every balance row equals the credits minus the debits of its
  account; the reported net is that sum, and the audit changes nothing.
\<close>

theorem audit_exact:
  assumes "constraints (db s)"
  shows "\<exists>r. get_integrity_report s = (Inr r, s) \<and> ires_ledgerNet r = ledger_net (db s) \<and>
    (ires_balanced r \<longleftrightarrow> ledger_net (db s) = 0 \<and>
       (\<forall>b \<in> set (account_balances (db s)). bal_balance b = computed_balance (ledger_entries (db s)) (bal_account_id b)))"
proof -
  have dist: "distinct (map bal_account_id (account_balances (db s)))" using assms by (simp add: constraint_defs)
  have "drifted_accounts (db s) = [] \<longleftrightarrow>
      (\<forall>b \<in> set (account_balances (db s)). bal_balance b = computed_balance (ledger_entries (db s)) (bal_account_id b))"
    using drifted_accounts_drift[OF dist] by (auto simp: balance_keys_def drift_def balance_of_row[OF dist])
  then show ?thesis by (simp add: get_integrity_report_def audit_report)
qed

theorem audit_exact_witness:
  "\<exists>r. get_integrity_report sample_world = (Inr r, sample_world) \<and> ires_ledgerNet r = 0 \<and> \<not> ires_balanced r"
proof -
  have "\<not> (\<forall>b \<in> set (account_balances sample_db). bal_balance b =
      computed_balance (ledger_entries sample_db) (bal_account_id b))" "ledger_net sample_db = 0"
    by code_simp+
  with audit_exact[of sample_world] sample_db_constraints show ?thesis by auto
qed

text \<open>
  C35. The audit passes only for an engine that holds no money. Balances are never negative, and a posted
  journal nets to zero; so when the audit reports \<open>balanced\<close> in a database whose constraints hold and
  whose entries all belong to accounts with a balance row, every balance is zero. A wallet that was
  funded without postings, as the test fixtures do, makes every report unbalanced.
\<close>

theorem audit_balanced_means_empty:
  assumes "constraints (db s)" and "\<forall>e \<in> set (ledger_entries (db s)). ent_account_id e \<in> balance_keys (db s)"
    and "get_integrity_report s = (Inr r, t)" and "ires_balanced r"
  shows "list_all (\<lambda>b. bal_balance b = 0) (account_balances (db s))"
proof -
  have dist: "distinct (map bal_account_id (account_balances (db s)))" using assms(1) by (simp add: constraint_defs)
  have net: "ledger_net (db s) = 0" and dr: "drifted_accounts (db s) = []"
    using assms(3,4) by (auto simp: get_integrity_report_def audit_report)
  have "total_balance (db s) = - ledger_net (db s)"
    by (rule total_balance_computed[OF dist]) (use assms(2) dr drifted_accounts_drift[OF dist] in auto)
  then have "sum_list (map bal_balance (account_balances (db s))) = 0" using net by (simp add: total_balance_def)
  moreover have "0 \<le> bal_balance b" if "b \<in> set (account_balances (db s))" for b
    using assms(1) that by (auto simp: constraint_defs)
  ultimately show ?thesis using sum_list_zero_nonneg[of "account_balances (db s)" bal_balance] by (auto simp: list_all_iff)
qed

theorem audit_balanced_means_empty_witness:
  "list_all (\<lambda>b. bal_balance b = 0) (account_balances (upgrade 0))"
proof -
  let ?s = "sample_world\<lparr>db := upgrade 0\<rparr>"
  have "constraints (upgrade 0)" and b: "drifted_accounts (upgrade 0) = []" "ledger_net (upgrade 0) = 0"
    and e: "ledger_entries (upgrade 0) = []" by code_simp+
  then show ?thesis
    using audit_balanced_means_empty[of ?s, OF _ _ audit_report[of ?s, folded get_integrity_report_def]] by simp
qed

text \<open>
  C30. Expiry clears the stale holds. When the held amounts are in the suspense account,
  \<open>expire_stale_holds\<close> returns the number of payments that were AUTHORIZED and older than the timeout;
  each of them is FAILED and its payer has the amount back, every other payment is as it was, and no
  payment that old is left AUTHORIZED.
\<close>

theorem expire_clears_stale_holds:
  assumes "ledger_balanced (db s)" and "cutoff = clock s (clock_reads s) - minutes n"
    and "can_reverse_all (stale_payments cutoff (db s)) s"
  shows "\<exists>t. transaction (expire_stale_holds n) s = (Inr (int (length (stale_payments cutoff (db s)))), t) \<and>
    stale_payments cutoff (db t) = [] \<and>
    list_all2 (expired_row (pay_id ` set (stale_payments cutoff (db s)))) (payments (db s)) (payments (db t)) \<and>
    (\<forall>a. balance (db t) a = balance (db s) a +
       sum_list (map (\<lambda>p. resolved_transfer DECLINED p a) (stale_payments cutoff (db s))))"
proof -
  let ?ps = "stale_payments cutoff (db s)"
  have con: "constraints (db s)" using assms(3) by (simp add: can_reverse_all_def)
  obtain c t where run: "transaction (expire_stale_holds n) s = (Inr c, t)"
    using expire_succeeds[of s n] assms by auto
  note e = expire_Inr[OF run con, folded assms(2)]
  have "\<not> (pay_status q = PaymentStatus.AUTHORIZED \<and> pay_created_at q < cutoff)" if "q \<in> set (payments (db t))" for q
  proof -
    from that obtain i where i: "i < length (payments (db t))" "q = payments (db t) ! i" by (auto simp: in_set_conv_nth)
    let ?p = "payments (db s) ! i"
    have len: "i < length (payments (db s))" using i list_all2_lengthD[OF e(2)] by simp
    with e(2) i have ex: "expired_row (pay_id ` set ?ps) ?p q" by (auto dest: list_all2_nthD)
    show ?thesis
    proof (cases "pay_id ?p \<in> pay_id ` set ?ps")
      case True
      with ex show ?thesis by (simp add: expired_row_def)
    next
      case False
      with ex len show ?thesis by (auto simp: expired_row_def stale_payments_def image_iff)
    qed
  qed
  then have "stale_payments cutoff (db t) = []" by (auto simp: stale_payments_def filter_empty_conv)
  with e run show ?thesis by auto
qed

theorem expire_clears_stale_holds_witness:
  "\<exists>t. transaction (expire_stale_holds 30)
      ((sample_paid PaymentStatus.AUTHORIZED)\<lparr>clock := (\<lambda>_. 4000000000)\<rparr>) = (Inr 1, t) \<and>
     balance (db t) (UUID 3) = 1040"
proof -
  let ?s = "(sample_paid PaymentStatus.AUTHORIZED)\<lparr>clock := (\<lambda>_. 4000000000)\<rparr>"
  let ?p = "sample_payment PaymentStatus.AUTHORIZED"
  have st: "stale_payments (4000000000 - minutes 30) (db ?s) = [?p]"
    by (simp add: stale_payments_def) (simp add: sample_payment_def minutes_def)
  have "balance (db ?s) a \<le> 1000" for a
    by (simp add: balance_def sample_paid_def sample_db_def upgrade_def)
  then have bnd: "balance (db ?s) a + 40 < 2 ^ 63" for a by (rule le_less_trans[OF add_right_mono]) simp
  have "fresh_uuids 2 ?s" using fresh_uuids_less[OF sample_paid_facts(11), of 2 PaymentStatus.AUTHORIZED]
    by (simp add: fresh_uuids_def)
  moreover have "counters_ok 2 ?s"
    using sample_paid_facts(12)[of PaymentStatus.AUTHORIZED] by (auto simp: counters_ok_def)
  moreover have "UUID 1 \<in> account_ids (db ?s)"
    by (simp add: account_ids_def sample_paid_def sample_db_def upgrade_def)
  ultimately have "can_reverse_all [?p] ?s"
    using sample_paid_constraints[of PaymentStatus.AUTHORIZED] bnd
    by (simp add: can_reverse_all_def held_sum_def sample_payment_def PSP_SUSPENSE_ACCOUNT_ID_def int64_def)
  with expire_clears_stale_holds[of ?s "4000000000 - minutes 30" 30] st show ?thesis
    by (auto simp: sample_payment_def PSP_SUSPENSE_ACCOUNT_ID_def)
qed

end
