(* ===== verification/Relay.thy ===== *)
theory Relay
  imports Reconciliation
begin

text \<open>
  The outbox relay (\<open>app/application/outbox_relay.py\<close>) and its start in \<open>app/main.py\<close>. Rows locked by
  other workers are a parameter of a batch (\<open>FOR UPDATE SKIP LOCKED\<close>). Publishing is a log line in
  the source, so the observable effect of a batch is the column \<open>published_at\<close>. One turn of
  \<open>run_loop\<close> is \<open>poll\<close>; a run is a number of turns until \<open>stop\<close>, and sleeping has no effect on the
  tables.
\<close>

section \<open>Operations\<close>

definition unpublished :: "UUID set \<Rightarrow> Outbox list \<Rightarrow> Outbox list" where
  "unpublished locked es = filter (\<lambda>e. obx_published_at e = None \<and> obx_id e \<notin> locked) es"

definition select_batch :: "UUID set \<Rightarrow> nat \<Rightarrow> Outbox list \<Rightarrow> Outbox list" where
  "select_batch locked batch_size es = take batch_size (sort_key obx_created_at (unpublished locked es))"

definition publish :: "int \<Rightarrow> Outbox \<Rightarrow> unit M" where
  "publish now ev = change (\<lambda>s. s\<lparr>db := (db s)\<lparr>outbox :=
     set_row obx_id (obx_id ev) (\<lambda>e. e\<lparr>obx_published_at := Some now\<rparr>) (outbox (db s))\<rparr>\<rparr>)"

definition drain_batch :: "UUID set \<Rightarrow> nat \<Rightarrow> int M" where
  "drain_batch locked batch_size = transaction (
     and_then (gets (\<lambda>s. select_batch locked batch_size (outbox (db s)))) (\<lambda>events.
     if events = [] then ret 0
     else
       and_then datetime_now (\<lambda>now.
       and_then (for_each (publish now) events) (\<lambda>_.
       ret (int (length events))))))"

text \<open>One turn of the loop with the default batch: every exception is caught and logged.\<close>

definition poll :: "UUID set \<Rightarrow> world \<Rightarrow> world" where
  "poll locked s = snd (drain_batch locked 50 s)"

fun run_loop :: "nat \<Rightarrow> world \<Rightarrow> world" where
  "run_loop 0 s = s"
| "run_loop (Suc turns) s = run_loop turns (poll {} s)"

section \<open>Facts\<close>

lemma publish_keeps: "keeps ledger_frame_rel (publish now ev)"
  unfolding publish_def by (rule ledger_frame_db_change) (simp add: ledger_part_def)

definition mark :: "int \<Rightarrow> UUID set \<Rightarrow> Outbox \<Rightarrow> Outbox" where
  "mark now I e = (if obx_id e \<in> I then e\<lparr>obx_published_at := Some now\<rparr> else e)"

lemma mark_empty [simp]: "mark now {} = (\<lambda>e. e)"
  by (simp add: mark_def fun_eq_iff)

lemma for_each_publish:
  "for_each (publish now) evs s =
     (Inr (), s\<lparr>db := (db s)\<lparr>outbox := map (mark now (obx_id ` set evs)) (outbox (db s))\<rparr>\<rparr>)"
proof (induction evs arbitrary: s)
  case Nil
  then show ?case by (simp add: mark_def ret_def)
next
  case (Cons ev evs)
  have "map (mark now (obx_id ` set evs)) (set_row obx_id (obx_id ev) (\<lambda>e. e\<lparr>obx_published_at := Some now\<rparr>) es) =
      map (mark now (insert (obx_id ev) (obx_id ` set evs))) es" for es
    by (auto simp: set_row_def mark_def)
  moreover have "publish now ev s = (Inr (), s\<lparr>db := (db s)\<lparr>outbox :=
      set_row obx_id (obx_id ev) (\<lambda>e. e\<lparr>obx_published_at := Some now\<rparr>) (outbox (db s))\<rparr>\<rparr>)"
    by (simp add: publish_def change_def)
  ultimately show ?case by (simp add: and_then_def Cons.IH)
qed

lemma constraints_mark: "constraints d \<Longrightarrow> constraints (d\<lparr>outbox := map (mark now I) (outbox d)\<rparr>)"
proof -
  assume "constraints d"
  moreover have "obx_id (mark now I e) = obx_id e" "obx_aggregate_type (mark now I e) = obx_aggregate_type e"
    "obx_event_type (mark now I e) = obx_event_type e" for e by (simp_all add: mark_def)
  ultimately show ?thesis by (simp add: constraint_defs comp_def)
qed

text \<open>A batch always commits, and marks exactly the selected rows.\<close>

lemma drain_batch_runs:
  assumes "constraints (db s)"
  obtains now t where "drain_batch locked n s = (Inr (int (length (select_batch locked n (outbox (db s))))), t)"
    and "db t = (db s)\<lparr>outbox := map (mark now (obx_id ` set (select_batch locked n (outbox (db s))))) (outbox (db s))\<rparr>"
proof -
  let ?evs = "select_batch locked n (outbox (db s))"
  let ?now = "clock s (clock_reads s)"
  let ?d = "(db s)\<lparr>outbox := map (mark ?now (obx_id ` set ?evs)) (outbox (db s))\<rparr>"
  let ?m = "and_then (gets (\<lambda>s. select_batch locked n (outbox (db s)))) (\<lambda>events.
     if events = [] then ret 0 else and_then datetime_now (\<lambda>now.
       and_then (for_each (publish now) events) (\<lambda>_. ret (int (length events)))))"
  have trg: "trg_ledger_balanced (db s) ?d" by (simp add: trg_ledger_balanced_def)
  show thesis
  proof (cases "?evs = []")
    case True
    then have "?m (s\<lparr>pending := []\<rparr>) = (Inr 0, s\<lparr>pending := []\<rparr>)" by (simp add: ret_def)
    from transaction_InrI[of ?m, OF this] True assms show thesis
      by (intro that[of "s\<lparr>pending := []\<rparr>" ?now]) (simp_all add: drain_batch_def trg_ledger_balanced_def)
  next
    case False
    let ?t = "s\<lparr>pending := [], clock_reads := Suc (clock_reads s), db := ?d\<rparr>"
    have "?m (s\<lparr>pending := []\<rparr>) = (Inr (int (length ?evs)), ?t)"
      using False by (simp add: and_then_Inr[of datetime_now] datetime_now_def and_then_def[of "for_each _ _"]
          for_each_publish ret_def)
    from transaction_InrI[of ?m, OF this] constraints_mark[OF assms] trg show thesis
      by (intro that[of ?t ?now]) (simp_all add: drain_batch_def)
  qed
qed

section \<open>Which events a batch takes\<close>

lemma unpublished_mark:
  "unpublished {} (map (mark now I) es) = filter (\<lambda>e. obx_id e \<notin> I) (unpublished {} es)"
  by (induction es) (auto simp: unpublished_def mark_def)

lemma set_select_batch: "set (select_batch locked n es) \<subseteq> set (unpublished locked es)"
  unfolding select_batch_def by (auto dest: in_set_takeD)

lemma length_select_batch: "length (select_batch locked n es) = min n (length (unpublished locked es))"
  by (simp add: select_batch_def min.commute)

lemma distinct_select_batch:
  "distinct (map obx_id es) \<Longrightarrow> distinct (map obx_id (select_batch locked n es))"
proof -
  assume "distinct (map obx_id es)"
  then have "distinct (map obx_id (unpublished locked es))" by (simp add: unpublished_def distinct_map_filter)
  then have "distinct (map obx_id (sort_key obx_created_at (unpublished locked es)))" by (simp add: distinct_map)
  then show ?thesis by (simp add: select_batch_def take_map[symmetric])
qed

lemma select_batch_oldest:
  assumes "distinct (map obx_id es)" and "e \<in> set (select_batch locked n es)"
    and "e' \<in> set (unpublished locked es)" and "e' \<notin> set (select_batch locked n es)"
  shows "obx_created_at e \<le> obx_created_at e'"
proof -
  let ?l = "sort_key obx_created_at (unpublished locked es)"
  have "e' \<in> set (take n ?l @ drop n ?l)" using assms(3) by simp
  with assms(4) have "e' \<in> set (drop n ?l)" by (simp add: select_batch_def del: append_take_drop_id)
  moreover have "sorted (map obx_created_at (take n ?l @ drop n ?l))" by simp
  ultimately show ?thesis
    using assms(2) by (simp add: select_batch_def sorted_append take_map drop_map del: append_take_drop_id)
qed

lemma unpublished_shrinks:
  assumes "distinct (map obx_id es)"
  shows "length (unpublished {} (map (mark now (obx_id ` set (select_batch {} n es))) es)) =
    length (unpublished {} es) - n"
proof -
  let ?u = "unpublished {} es"
  let ?b = "select_batch {} n es"
  have du: "distinct (map obx_id ?u)" using assms by (simp add: unpublished_def distinct_map_filter)
  have inj: "inj_on obx_id (set ?u)" using du by (simp add: distinct_map)
  have sub: "set ?b \<subseteq> set ?u" by (rule set_select_batch)
  have dis: "distinct ?u" "distinct ?b" using du distinct_select_batch[OF assms, of "{}" n] by (simp_all add: distinct_map)
  have "set (filter (\<lambda>e. obx_id e \<notin> obx_id ` set ?b) ?u) = set ?u - set ?b"
    using inj sub by (auto simp: inj_on_def image_iff) 
  then have "length (filter (\<lambda>e. obx_id e \<notin> obx_id ` set ?b) ?u) = card (set ?u - set ?b)"
    using dis(1) by (metis distinct_card distinct_filter)
  also have "\<dots> = length ?u - length ?b" using sub dis by (simp add: card_Diff_subset distinct_card)
  finally show ?thesis by (simp add: unpublished_mark length_select_batch)
qed

lemma poll_effect:
  assumes "constraints (db s)"
  shows "constraints (db (poll {} s))"
    and "length (unpublished {} (outbox (db (poll {} s)))) = length (unpublished {} (outbox (db s))) - 50"
proof -
  from assms obtain now t where run: "drain_batch {} 50 s = (Inr (int (length (select_batch {} 50 (outbox (db s))))), t)"
    and t: "db t = (db s)\<lparr>outbox := map (mark now (obx_id ` set (select_batch {} 50 (outbox (db s))))) (outbox (db s))\<rparr>"
    by (rule drain_batch_runs)
  have p: "poll {} s = t" using run by (simp add: poll_def)
  show "constraints (db (poll {} s))" using constraints_mark[OF assms] by (simp add: p t)
  have "distinct (map obx_id (outbox (db s)))" using assms by (simp add: constraint_defs)
  from unpublished_shrinks[OF this, of now 50]
  show "length (unpublished {} (outbox (db (poll {} s)))) = length (unpublished {} (outbox (db s))) - 50"
    by (simp add: p t)
qed

section \<open>Properties\<close>

definition sample_event :: "UUID \<Rightarrow> int \<Rightarrow> Outbox" where
  "sample_event i t = \<lparr>obx_id = i, obx_aggregate_type = ''payment'', obx_aggregate_id = i,
     obx_event_type = ''payment.failed'', obx_payload = JNull, obx_created_at = t, obx_published_at = None\<rparr>"

definition sample_outbox :: world where
  "sample_outbox = sample_world\<lparr>db := sample_db\<lparr>outbox := [sample_event (UUID 7) 5, sample_event (UUID 8) 3]\<rparr>\<rparr>"

lemma sample_outbox_constraints: "constraints (db sample_outbox)"
  using sample_db_constraints
  by (simp add: sample_outbox_def sample_event_def constraint_defs)

text \<open>
  C31. A batch publishes the oldest waiting events, and only them. On a database whose constraints hold
  \<open>drain_batch\<close> commits and returns the number of events it took, the smaller of the batch size and the
  number of unlocked unpublished events; it stamps exactly those, none of which had been published,
  none locked by another worker, and none younger than an unlocked event it left; nothing else changes.
\<close>

theorem drain_batch_oldest_first:
  assumes "constraints (db s)"
  shows "\<exists>now I t. drain_batch locked n s = (Inr (int (min n (length (unpublished locked (outbox (db s)))))), t) \<and>
    db t = (db s)\<lparr>outbox := map (mark now I) (outbox (db s))\<rparr> \<and>
    I \<subseteq> obx_id ` set (unpublished locked (outbox (db s))) \<and>
    card I = min n (length (unpublished locked (outbox (db s)))) \<and>
    (\<forall>e \<in> set (unpublished locked (outbox (db s))). \<forall>e' \<in> set (unpublished locked (outbox (db s))).
       obx_id e \<in> I \<and> obx_id e' \<notin> I \<longrightarrow> obx_created_at e \<le> obx_created_at e')"
proof -
  let ?es = "outbox (db s)"
  let ?b = "select_batch locked n ?es"
  let ?u = "unpublished locked ?es"
  have dis: "distinct (map obx_id ?es)" using assms by (simp add: constraint_defs)
  have inj: "inj_on obx_id (set ?u)" using dis by (auto simp: unpublished_def distinct_map inj_on_def)
  from assms obtain now t where "drain_batch locked n s = (Inr (int (length ?b)), t)"
    "db t = (db s)\<lparr>outbox := map (mark now (obx_id ` set ?b)) ?es\<rparr>" by (rule drain_batch_runs)
  moreover have "obx_id ` set ?b \<subseteq> obx_id ` set ?u" using set_select_batch by blast
  moreover have "card (obx_id ` set ?b) = length ?b"
    using distinct_card[OF distinct_select_batch[OF dis, of locked n]] by simp
  moreover have "obx_created_at e \<le> obx_created_at e'"
    if "e \<in> set ?u" "e' \<in> set ?u" "obx_id e \<in> obx_id ` set ?b" "obx_id e' \<notin> obx_id ` set ?b" for e e'
  proof -
    from that(3) obtain b where "b \<in> set ?b" "obx_id e = obx_id b" by blast
    then have "e = b" using inj that(1) set_select_batch[of locked n ?es] by (auto simp: inj_on_def)
    with \<open>b \<in> set ?b\<close> select_batch_oldest[OF dis, of e locked n e'] that show ?thesis by auto
  qed
  ultimately show ?thesis unfolding length_select_batch by blast
qed

theorem drain_batch_oldest_first_witness:
  "\<exists>now I t. drain_batch {} 1 sample_outbox = (Inr 1, t) \<and> db t = (db sample_outbox)\<lparr>outbox :=
     map (mark now I) (outbox (db sample_outbox))\<rparr> \<and> card I = 1"
proof -
  have "length (unpublished {} (outbox (db sample_outbox))) = 2"
    by (simp add: sample_outbox_def unpublished_def sample_event_def)
  with drain_batch_oldest_first[OF sample_outbox_constraints, of "{}" 1] show ?thesis by auto
qed

text \<open>
  Every event is published in the end: with no new events and no other worker, after \<open>turns\<close> turns of
  the loop with \<open>50 * turns\<close> at least the number of waiting events, no event is unpublished.
\<close>

lemma run_loop_publishes_all:
  assumes "constraints (db s)" and "length (unpublished {} (outbox (db s))) \<le> 50 * turns"
  shows "unpublished {} (outbox (db (run_loop turns s))) = []"
  using assms
proof (induction turns arbitrary: s)
  case 0
  then show ?case by simp
next
  case (Suc turns)
  from Suc.IH[OF poll_effect(1)[OF Suc.prems(1)]] poll_effect(2)[OF Suc.prems(1)] Suc.prems(2) show ?case by simp
qed

lemma run_loop_publishes_all_witness: "unpublished {} (outbox (db (run_loop 1 sample_outbox))) = []"
proof -
  have "length (unpublished {} (outbox (db sample_outbox))) \<le> 50 * 1"
    by (simp add: sample_outbox_def unpublished_def sample_event_def)
  then show ?thesis by (rule run_loop_publishes_all[OF sample_outbox_constraints])
qed

end
