(* ===== verification/Api.thy ===== *)
theory Api
  imports Relay "HOL-Library.Multiset"
begin

text \<open>
  The read routes of \<open>app/api/accounts.py\<close> and the exception handlers of \<open>app/main.py\<close>. The details
  pydantic reports for an invalid request are not modelled, only the status and the fixed message; an
  exception without a handler is answered by the framework with status 500.
\<close>

section \<open>Accounts\<close>

record BalanceResponse =
  bres_accountId :: UUID
  bres_balance :: int
  bres_currency :: string
  bres_updatedAt :: int

record LedgerEntryResponse =
  leres_id :: int
  leres_transactionId :: UUID
  leres_direction :: Direction
  leres_amount :: int
  leres_createdAt :: int

record LedgerPageResponse =
  lpres_accountId :: UUID
  lpres_entries :: "LedgerEntryResponse list"

definition balance_join :: "database \<Rightarrow> UUID \<Rightarrow> (AccountBalance \<times> string) list" where
  "balance_join d account_id = concat (map (\<lambda>b. map (\<lambda>a. (b, acc_currency a))
     (filter (\<lambda>a. acc_id a = bal_account_id b) (accounts d)))
     (filter (\<lambda>b. bal_account_id b = account_id) (account_balances d)))"

definition get_balance :: "UUID \<Rightarrow> BalanceResponse M" where
  "get_balance account_id = and_then (gets (\<lambda>s. balance_join (db s) account_id)) (\<lambda>rows. case rows of
     [] \<Rightarrow> and_then (gets (\<lambda>s. row_of acc_id account_id (accounts (db s)))) (\<lambda>acc. case acc of
         None \<Rightarrow> raise (AccountNotFoundException account_id)
       | Some a \<Rightarrow> ret \<lparr>bres_accountId = account_id, bres_balance = 0, bres_currency = acc_currency a,
           bres_updatedAt = acc_created_at a\<rparr>)
   | (b, currency) # _ \<Rightarrow> ret \<lparr>bres_accountId = bal_account_id b, bres_balance = bal_balance b,
       bres_currency = currency, bres_updatedAt = bal_updated_at b\<rparr>)"

definition entry_response :: "LedgerEntry \<Rightarrow> LedgerEntryResponse" where
  "entry_response e = \<lparr>leres_id = ent_id e, leres_transactionId = ent_transaction_id e,
     leres_direction = ent_direction e, leres_amount = ent_amount e, leres_createdAt = ent_created_at e\<rparr>"

text \<open>\<open>limit\<close> is a query parameter between 1 and 100, 50 when it is absent.\<close>

definition get_ledger_postings :: "UUID \<Rightarrow> int option \<Rightarrow> LedgerPageResponse M" where
  "get_ledger_postings account_id limit_param = (let limit = (case limit_param of None \<Rightarrow> 50 | Some n \<Rightarrow> n) in
     if \<not> (1 \<le> limit \<and> limit \<le> 100) then raise ValidationError
     else and_then (gets (\<lambda>s. take (nat limit) (sort_key (\<lambda>e. - ent_created_at e)
         (filter (\<lambda>e. ent_account_id e = account_id) (ledger_entries (db s)))))) (\<lambda>entries.
       ret \<lparr>lpres_accountId = account_id, lpres_entries = map entry_response entries\<rparr>))"

section \<open>Exception handlers\<close>

fun exn_class_name :: "exn \<Rightarrow> string" where
  "exn_class_name (InsufficientFundsException _ _ _) = ''InsufficientFundsException''"
| "exn_class_name (AccountNotFoundException _) = ''AccountNotFoundException''"
| "exn_class_name (PaymentNotFoundException _) = ''PaymentNotFoundException''"
| "exn_class_name (IdempotencyConflictException _) = ''IdempotencyConflictException''"
| "exn_class_name (IdempotencyMismatchException _) = ''IdempotencyMismatchException''"
| "exn_class_name InvalidSignatureException = ''InvalidSignatureException''"
| "exn_class_name (RefundNotAllowedException _) = ''RefundNotAllowedException''"
| "exn_class_name (LedgerImbalanceException _) = ''LedgerImbalanceException''"
| "exn_class_name _ = []"

definition domain_exception_handler :: "exn \<Rightarrow> (int \<times> json) option" where
  "domain_exception_handler e = map_option (\<lambda>code.
     (code, JObj [(''error'', JStr (exn_message e)), (''type'', JStr (exn_class_name e))])) (exn_status_code e)"

definition respond :: "exn + (int \<times> 'a) \<Rightarrow> ('a \<Rightarrow> json) \<Rightarrow> int \<times> json option" where
  "respond r dump = (case r of
     Inr (code, body) \<Rightarrow> (code, Some (dump body))
   | Inl e \<Rightarrow> (case domain_exception_handler e of
       Some (code, body) \<Rightarrow> (code, Some body)
     | None \<Rightarrow> if e = ValidationError then (422, None) else (500, None)))"

text \<open>What a client of \<open>POST /v1/payments\<close> receives.\<close>

definition post_payment :: "env \<Rightarrow> provider \<Rightarrow> string \<Rightarrow> CreatePaymentRequest \<Rightarrow> world \<Rightarrow> (int \<times> json option) \<times> world" where
  "post_payment env psp k req s = (case create_payment env psp k req s of
     (r, t) \<Rightarrow> (respond r (dump_payment env), t))"

section \<open>Properties\<close>

lemma balance_join_row:
  assumes "constraints d" and "row_of bal_account_id a (account_balances d) = Some b"
  shows "\<exists>c. balance_join d a = [(b, c)]"
proof -
  have dist: "distinct (map bal_account_id (account_balances d))" "distinct (map acc_id (accounts d))"
    using assms(1) by (simp_all add: constraint_defs)
  note b = row_of_SomeD[OF assms(2)]
  have "filter (\<lambda>r. bal_account_id r = a) (account_balances d) = [b]"
    using dist(1) assms(2) by (rule row_of_filter)
  moreover have "a \<in> acc_id ` set (accounts d)" using assms(1) b by (auto simp: constraint_defs)
  then obtain x where "row_of acc_id a (accounts d) = Some x" by (metis option.exhaust row_of_None_iff)
  then have "filter (\<lambda>r. acc_id r = a) (accounts d) = [x]" by (rule row_of_filter[OF dist(2)])
  ultimately show ?thesis using b by (simp add: balance_join_def)
qed

text \<open>
  The balance route tells the balance: for every account of a database whose constraints hold it
  returns the balance of the ledger, zero for an account without a balance row, and
  AccountNotFoundException, which the client sees as status 404, exactly for identifiers that are not
  accounts.
\<close>

lemma get_balance_correct:
  assumes "constraints (db s)"
  shows "if a \<in> account_ids (db s)
    then \<exists>r. get_balance a s = (Inr r, s) \<and> bres_accountId r = a \<and> bres_balance r = balance (db s) a
    else get_balance a s = (Inl (AccountNotFoundException a), s)"
proof (cases "row_of bal_account_id a (account_balances (db s))")
  case (Some b)
  then obtain c where "balance_join (db s) a = [(b, c)]" using balance_join_row[OF assms] by blast
  moreover have "a \<in> account_ids (db s)" "bal_account_id b = a"
    using assms row_of_SomeD[OF Some] by (auto simp: constraint_defs)
  ultimately show ?thesis using Some by (simp add: get_balance_def balance_def ret_def)
next
  case None
  then have none: "balance_join (db s) a = []"
    by (auto simp: balance_join_def row_of_None_iff filter_empty_conv image_iff)
  show ?thesis
  proof (cases "row_of acc_id a (accounts (db s))")
    case (Some x)
    then have "a \<in> account_ids (db s)" by (auto simp: account_ids_def dest: row_of_SomeD)
    with Some none None show ?thesis by (simp add: get_balance_def balance_def ret_def)
  next
    case None
    then have "a \<notin> account_ids (db s)" by (simp add: account_ids_def row_of_None_iff)
    with None none show ?thesis by (simp add: get_balance_def raise_def)
  qed
qed

lemma get_balance_correct_witness:
  "(\<exists>r. get_balance (UUID 3) sample_world = (Inr r, sample_world) \<and> bres_balance r = 1000) \<and>
   get_balance (UUID 9) sample_world = (Inl (AccountNotFoundException (UUID 9)), sample_world)"
proof -
  have "UUID 3 \<in> account_ids sample_db" "UUID 9 \<notin> account_ids sample_db"
    by (simp_all add: account_ids_def sample_db_def upgrade_def)
  with get_balance_correct[of sample_world "UUID 3"] get_balance_correct[of sample_world "UUID 9"]
    sample_db_constraints sample_balances show ?thesis by auto
qed

text \<open>
  A ledger page is the recent history of its account: with an admissible limit the route returns
  entries of the account only, newest first, no more than the limit, and all of them when the account
  has no more; none of the entries it leaves out is newer than one it shows.
\<close>

lemma get_ledger_postings_recent:
  assumes "1 \<le> n" and "n \<le> 100"
    and "mine = filter (\<lambda>e. ent_account_id e = a) (ledger_entries (db s))"
  shows "\<exists>shown rest. get_ledger_postings a (Some n) s =
      (Inr \<lparr>lpres_accountId = a, lpres_entries = map entry_response shown\<rparr>, s) \<and>
    mset (shown @ rest) = mset mine \<and> length shown = min (nat n) (length mine) \<and>
    sorted_wrt (\<lambda>e e'. ent_created_at e' \<le> ent_created_at e) (shown @ rest)"
proof -
  let ?l = "sort_key (\<lambda>e. - ent_created_at e) mine"
  have "sorted (map (\<lambda>e. - ent_created_at e) ?l)" by simp
  then have srt: "sorted_wrt (\<lambda>e e'. ent_created_at e' \<le> ent_created_at e) ?l" by (simp add: sorted_wrt_map)
  have "get_ledger_postings a (Some n) s =
      (Inr \<lparr>lpres_accountId = a, lpres_entries = map entry_response (take (nat n) ?l)\<rparr>, s)"
    using assms by (simp add: get_ledger_postings_def ret_def)
  with srt show ?thesis
    by - (rule exI[of _ "take (nat n) ?l"], rule exI[of _ "drop (nat n) ?l"],
      simp add: min.commute mset_append[symmetric] del: mset_append)
qed

lemma get_ledger_postings_recent_witness:
  "\<exists>shown. get_ledger_postings (UUID 3) (Some 10) sample_world =
     (Inr \<lparr>lpres_accountId = UUID 3, lpres_entries = map entry_response shown\<rparr>, sample_world) \<and> shown = []"
proof -
  have "ledger_entries sample_db = []" by (simp add: sample_db_def upgrade_def empty_database_def)
  with get_ledger_postings_recent[of 10 _ "UUID 3" sample_world, OF _ _ refl] show ?thesis by auto
qed

text \<open>
  A payer without the funds is told so and nothing is kept: the client of \<open>POST /v1/payments\<close>
  receives status 422 with the class InsufficientFundsException and a message that names the account,
  its balance and the required amount, and no table has changed: no payment, no claimed key, no entry.
\<close>

lemma post_payment_insufficient_funds:
  assumes "pending s = []" and "can_serve env k req s" and "CreatePaymentRequest_valid req"
    and "balance (db s) (req_payerAccountId req) < req_amount req"
  shows "\<exists>t. post_payment env psp k req s = ((422, Some (JObj
      [(''error'', JStr (''Insufficient funds for account '' @ str_uuid (req_payerAccountId req) @
          '': balance='' @ str_int (balance (db s) (req_payerAccountId req)) @
          '', required='' @ str_int (req_amount req))),
       (''type'', JStr ''InsufficientFundsException'')])), t) \<and> db t = db s"
  using create_insufficient_funds[OF assms(1,2,4), of psp] assms(3)
  by (auto simp: post_payment_def create_payment_def respond_def domain_exception_handler_def)

lemma post_payment_insufficient_funds_witness:
  "\<exists>t m. post_payment sample_env mock_authorize ''k'' (sample_request 5000) sample_world =
     ((422, Some (JObj [(''error'', JStr m), (''type'', JStr ''InsufficientFundsException'')])), t) \<and> db t = sample_db"
proof -
  have "can_serve sample_env ''k'' (sample_request 5000) sample_world"
    using sample_can_create[of 300]
    by (simp add: can_create_def can_serve_def sample_request_def int64_def request_hash_def
        compute_hash_def sample_env_def)
  from post_payment_insufficient_funds[OF _ this, of mock_authorize] show ?thesis
    by (auto simp: sample_request_def sample_balances CreatePaymentRequest_valid_def)
qed

end
