(* ===== verification/Engine.thy ===== *)
theory Engine
  imports Book KeyFrame Relay Reconciliation Webhooks Api
begin

text \<open>
  The running engine: requests, webhooks, expiries and relay turns of any number of workers,
  interleaved at the granularity of the code, which is one database transaction. A payment request is
  two transactions with the provider call between them; while it is between them it is a flight, and
  any other step may happen, also that the worker dies. The engine refines the payment book of \<open>Book\<close>,
  so the invariants of the book hold in every state the engine reaches.
\<close>

section \<open>Steps\<close>

record flight =
  fl_key :: string
  fl_request :: CreatePaymentRequest
  fl_payment :: Payment

record engine =
  store :: world
  flights :: "UUID \<rightharpoonup> flight"

abbreviation tables :: "engine \<Rightarrow> database" where
  "tables e \<equiv> db (store e)"

definition begin_create :: "env \<Rightarrow> string \<Rightarrow> CreatePaymentRequest \<Rightarrow> (UUID \<times> ((int \<times> PaymentResponse) + Payment)) M" where
  "begin_create env k req = and_then uuid4 (\<lambda>pid.
     and_then (transaction (create_hold env k req pid)) (\<lambda>r. ret (pid, r)))"

inductive step :: "env \<Rightarrow> webhook_env \<Rightarrow> provider \<Rightarrow> engine \<Rightarrow> engine \<Rightarrow> bool" for env we psp where
  Hold: "CreatePaymentRequest_valid req \<Longrightarrow> begin_create env k req (store e) = (Inr (pid, Inr p), t) \<Longrightarrow>
    step env we psp e (e\<lparr>store := t, flights := (flights e)(pid \<mapsto> \<lparr>fl_key = k, fl_request = req, fl_payment = p\<rparr>)\<rparr>)"
| Answer: "begin_create env k req (store e) = (r, t) \<Longrightarrow> (\<And>pid p. r \<noteq> Inr (pid, Inr p)) \<Longrightarrow>
    step env we psp e (e\<lparr>store := t\<rparr>)"
| Settle: "flights e pid = Some f \<Longrightarrow> psp (fl_payment f) (store e) = (Inr a, s) \<Longrightarrow>
    transaction (create_settle env (fl_key f) (fl_request f) pid a) s = (r, t) \<Longrightarrow>
    step env we psp e (e\<lparr>store := t, flights := (flights e)(pid := None)\<rparr>)"
| Gateway_error: "flights e pid = Some f \<Longrightarrow> psp (fl_payment f) (store e) = (Inl x, t) \<Longrightarrow>
    step env we psp e (e\<lparr>store := t, flights := (flights e)(pid := None)\<rparr>)"
| Die: "step env we psp e (e\<lparr>flights := (flights e)(pid := None)\<rparr>)"
| Refund: "process_refund env k pid x (store e) = (r, t) \<Longrightarrow> step env we psp e (e\<lparr>store := t\<rparr>)"
| Webhook: "handle_webhook we raw x y (store e) = (r', t) \<Longrightarrow> step env we psp e (e\<lparr>store := t\<rparr>)"
| Expire: "transaction (expire_stale_holds n) (store e) = (r'', t) \<Longrightarrow> step env we psp e (e\<lparr>store := t\<rparr>)"
| Drain: "drain_batch locked n (store e) = (r'', t) \<Longrightarrow> step env we psp e (e\<lparr>store := t\<rparr>)"

section \<open>What a transaction does to the book and to the keys\<close>

definition keys_kept :: "(string \<times> string) set \<Rightarrow> database \<Rightarrow> database \<Rightarrow> bool" where
  "keys_kept K d d' \<longleftrightarrow> (\<forall>m k. (m, k) \<notin> K \<longrightarrow> key_state d m k \<noteq> Unused \<longrightarrow> key_state d' m k = key_state d m k)"

definition effect :: "UUID set \<Rightarrow> (string \<times> string) set \<Rightarrow> database \<Rightarrow> database \<Rightarrow> bool" where
  "effect F K d d' \<longleftrightarrow> book_run F (book_of d) (book_of d') \<and> keys_kept K d d' \<and> ledger_kept d d' \<and>
     (constraints d \<longrightarrow> constraints d')"

lemma book_of_simps [simp]:
  "bk_payments (book_of d) = payments d" "bk_balance (book_of d) = balance d" "bk_refunds (book_of d) = refunds d"
  by (simp_all add: book_of_def)

lemma book_of_eqI:
  assumes "payments d = bk_payments b" and "\<And>a. balance d a = bk_balance b a" and "refunds d = bk_refunds b"
  shows "book_of d = b"
proof -
  have "balance d = bk_balance b" using assms(2) by (rule ext)
  then show ?thesis unfolding book_of_def assms(1,3) by simp
qed

lemma keys_kept_same: "idempotency_keys d' = idempotency_keys d \<Longrightarrow> keys_kept K d d'"
  using key_state_cong[of d' d] by (simp add: keys_kept_def)

lemma effect_same: "db t = db s \<Longrightarrow> effect F K (db s) (db t)"
  by (simp add: effect_def keys_kept_def ledger_kept_same_part)

lemma transaction_effect:
  assumes "transaction body s = (r, t)" and "keeps ledger_frame_rel body"
    and "\<And>x. r = Inr x \<Longrightarrow> book_run F (book_of (db s)) (book_of (db t)) \<and> keys_kept K (db s) (db t)"
  shows "effect F K (db s) (db t)"
proof (cases r)
  case (Inl e)
  then show ?thesis using assms(1) by (intro effect_same) (simp add: transaction_Inl_db)
next
  case (Inr x)
  then show ?thesis
    using assms(3)[OF Inr] transaction_ledger_kept[OF assms(2,1)] transaction_constraints[OF assms(1)]
    by (simp add: effect_def)
qed

lemma hold_effect:
  assumes "transaction (create_hold env k req pid) s = (r, t)"
  shows "effect {} {} (db s) (db t)"
proof (rule transaction_effect[OF assms create_hold_keeps])
  fix x
  assume r: "r = Inr x"
  show "book_run {} (book_of (db s)) (book_of (db t)) \<and> keys_kept {} (db s) (db t)"
  proof (cases x)
    case (Inl cr)
    have "db t = db s" using create_hold_replay(1)[of env k req pid s "fst cr" "snd cr" t] assms r Inl by simp
    then show ?thesis by (simp add: keys_kept_def)
  next
    case (Inr p)
    with assms r have tx: "transaction (create_hold env k req pid) s = (Inr (Inr p), t)" by simp
    note h = create_hold_row[OF tx]
    from tx obtain rec n u where p: "p = (new_payment pid req n u)\<lparr>pay_status := PaymentStatus.PROCESSING\<rparr>"
      and rec: "idem_scope rec = (req_merchantId req, k)"
      and tr: "transitioned TransactionType.PAYMENT pid
        (transfer (req_payerAccountId req) PSP_SUSPENSE_ACCOUNT_ID (req_amount req)) ''payment.processing''
        (processing_payload p) ((db s)\<lparr>idempotency_keys := idempotency_keys (db s) @ [rec],
          payments := payments (db s) @ [p]\<rparr>) (db t)" by (rule create_hold_new)
    have keys: "idempotency_keys (db t) = idempotency_keys (db s) @ [rec]" and rf: "refunds (db t) = refunds (db s)"
      using transitioned_frame(3,4)[OF tr] by simp_all
    have "keys_kept {} (db s) (db t)"
      using key_state_append[OF h(2) rec] h(2) key_state_cong[of "db t" "(db s)\<lparr>idempotency_keys := idempotency_keys (db s) @ [rec]\<rparr>"] keys
      by (auto simp: keys_kept_def)
    moreover have "distinct (map pay_id (payments (db t)))"
      using transitioned_frame(7)[OF tr] by (simp add: constraint_defs)
    then have new: "pay_id p \<notin> pay_id ` set (payments (db s))" using h(11) by auto
    have "book_of (db t) = (book_of (db s))\<lparr>bk_payments := bk_payments (book_of (db s)) @ [p],
        bk_balance := (\<lambda>a. bk_balance (book_of (db s)) a + (if a = PSP_SUSPENSE_ACCOUNT_ID then pay_amount p else 0) -
          (if a = pay_payer_account p then pay_amount p else 0))\<rparr>"
      by (rule book_of_eqI) (simp_all add: h(6,8,10,11) rf)
    moreover have "pay_refunded_amount p = 0" by (simp add: p new_payment_def)
    ultimately show ?thesis
      using book_event.held[of p "book_of (db s)" "{}"] new h(4,6,8,12,13) by auto
  qed
qed

lemma settle_effect:
  assumes "transaction (create_settle env k req pid a) s = (r, t)"
    and "row_of pay_id pid (payments (db s)) = Some p" and "pay_status p = PaymentStatus.PROCESSING"
  shows "effect {pid} {(req_merchantId req, k)} (db s) (db t)"
proof (rule transaction_effect[OF assms(1) create_settle_keeps])
  fix x
  assume r: "r = Inr x"
  have keys: "keys_kept {(req_merchantId req, k)} (db s) (db t)"
    using transaction_keys[OF create_settle_keys assms(1)] by (auto simp: keys_kept_def)
  from assms(1) r obtain s1 where "create_settle env k req pid a (s\<lparr>pending := []\<rparr>) = (Inr x, s1)"
    and t: "t = flushed s1" by (auto elim: transaction_Inr)
  then obtain q s2 u where res: "resolve pid a (s\<lparr>pending := []\<rparr>) = (Inr q, s2)"
    and comp: "complete (req_merchantId req) k (pay_id q) 201 (dump_payment env (to_response q)) s2 = (Inr u, s1)"
    by (auto simp: create_settle_def and_then_Inr_iff Let_def)
  from res obtain p' where p': "row_of pay_id pid (payments (db s)) = Some p'" "same_terms p' q"
    "pay_refunded_amount q = pay_refunded_amount p'" "pay_status q = resolved_status (ar_outcome a)"
    and pe: "pending s2 = []" and st: "payment_step pid q (db s) (db s2)"
    and bal: "\<And>c. balance (db s2) c = balance (db s) c + resolved_transfer (ar_outcome a) p' c"
    by (rule resolve_Inr) simp_all
  have "payments (db t) = payments (db s2) \<and> balance (db t) = balance (db s2) \<and> refunds (db t) = refunds (db s2)"
    using comp pe unfolding t
    by (auto simp: complete_def select_idempotency_def flushed_def balance_def fun_eq_iff split: option.splits)
  then have "book_of (db t) = (book_of (db s))\<lparr>bk_payments := set_row pay_id pid (\<lambda>_. q) (bk_payments (book_of (db s))),
      bk_balance := (\<lambda>c. bk_balance (book_of (db s)) c + resolved_transfer (ar_outcome a) p' c)\<rparr>"
    using st bal by (intro book_of_eqI) (simp_all add: payment_step_def)
  moreover have "p' = p" using p'(1) assms(2) by simp
  ultimately have "book_event {pid} (book_of (db s)) (book_of (db t))"
    using book_event.resolved[of pid "book_of (db s)" p' "ar_outcome a" "{pid}" q] p' assms(3) by simp
  with keys show "book_run {pid} (book_of (db s)) (book_of (db t)) \<and> keys_kept {(req_merchantId req, k)} (db s) (db t)"
    by blast
qed

lemma refund_known_key:
  assumes "transaction (refund env k pid x) s = (Inr y, t)" and "refund_key (db s) k \<noteq> Unused"
  shows "db t = db s"
proof -
  let ?s0 = "s\<lparr>pending := []\<rparr>"
  from assms(1) obtain s1 where run: "refund env k pid x ?s0 = (Inr y, s1)" and t: "t = flushed s1"
    by (rule transaction_Inr)
  have "refund_key (db ?s0) k \<noteq> Unused" using assms(2) by simp
  note claim = claim_used[OF this]
  from run assms(2) have "s1 = ?s0"
    by (cases "refund_key (db s) k") (auto simp: refund_def and_then_def claim of_result_def ret_def raise_def
        split: if_splits sum.splits)
  with t show ?thesis by simp
qed

lemma refund_book_effect:
  assumes "process_refund env k pid x s = (r, t)" and "codec_ok env"
  shows "effect {} {} (db s) (db t)"
proof (cases "RefundRequest_valid x")
  case False
  with assms(1) show ?thesis by (intro effect_same) (simp add: process_refund_def raise_def)
next
  case True
  with assms(1) have tx: "transaction (refund env k pid x) s = (r, t)" by (simp add: process_refund_def)
  show ?thesis
  proof (rule transaction_effect[OF tx refund_keeps])
    fix y
    assume r: "r = Inr y"
    show "book_run {} (book_of (db s)) (book_of (db t)) \<and> keys_kept {} (db s) (db t)"
    proof (cases "refund_key (db s) k = Unused")
      case False
      from refund_known_key[OF tx[unfolded r] False] show ?thesis by (simp add: keys_kept_def)
    next
      case un: True
      obtain c rr where y: "y = (c, rr)" by (cases y)
      from tx[unfolded r y] un assms(2) obtain p q rf where
        p: "row_of pay_id pid (payments (db s)) = Some p" "refund_guard p x = None" "same_terms p q"
        and pays: "payments (db t) = set_row pay_id pid (\<lambda>_. q) (payments (db s))"
        and q: "pay_refunded_amount q = pay_refunded_amount p + x"
          "pay_status q = (if pay_refunded_amount p + x = pay_amount p then PaymentStatus.REFUNDED else pay_status p)"
        and rf: "refunds (db t) = refunds (db s) @ [rf]" "rfd_payment_id rf = pid" "rfd_amount rf = x" and x: "0 < x"
        and bal: "\<And>a. balance (db t) a = balance (db s) a + (if a = pay_payer_account p then x else 0) -
          (if a = pay_payee_account p then x else 0)"
        by (rule refund_effect) simp_all
      have "book_of (db t) = (book_of (db s))\<lparr>bk_payments := set_row pay_id pid (\<lambda>_. q) (bk_payments (book_of (db s))),
          bk_balance := (\<lambda>a. bk_balance (book_of (db s)) a + (if a = pay_payer_account p then x else 0) -
            (if a = pay_payee_account p then x else 0)),
          bk_refunds := bk_refunds (book_of (db s)) @ [rf]\<rparr>"
        by (rule book_of_eqI) (simp_all add: pays bal rf(1))
      moreover have "pay_status p \<in> {PaymentStatus.SUCCEEDED, PaymentStatus.REFUND_PENDING}"
        "pay_refunded_amount p + x \<le> pay_amount p" using p(2) by (simp_all add: refund_guard_None)
      ultimately have "book_event {} (book_of (db s)) (book_of (db t))"
        using book_event.refunded[of pid "book_of (db s)" p x q rf "{}"] p(1,3) x q rf(2,3) by simp
      moreover have "keys_kept {} (db s) (db t)"
        unfolding keys_kept_def using transaction_keys[OF refund_keys tx] un by (metis prod.inject)
      ultimately show ?thesis by blast
    qed
  qed
qed

lemma webhook_book_effect:
  assumes "handle_webhook we raw x y s = (r, t)" and "constraints (db s)"
  shows "effect {} {} (db s) (db t)"
proof -
  from assms(1) have tx: "transaction (handle we raw (chosen_signature x y)) s = (r, t)"
    by (simp add: handle_webhook_def)
  show ?thesis
  proof (rule transaction_effect[OF tx handle_keeps])
    fix u
    assume r: "r = Inr u"
    from webhook_step[OF tx[unfolded r]] consider "db t = db s"
      | "refunds (db t) = refunds (db s)" "idempotency_keys (db t) = idempotency_keys (db s)" "webhook_effect (db s) (db t)"
      by blast
    then show "book_run {} (book_of (db s)) (book_of (db t)) \<and> keys_kept {} (db s) (db t)"
    proof cases
      case 1
      then show ?thesis by (simp add: keys_kept_def)
    next
      case 2
      have "book_run {} (book_of (db s)) (book_of (db t))"
      proof (cases "payments (db t) = payments (db s) \<and> balance (db t) = balance (db s)")
        case True
        with 2(1) have "book_of (db t) = book_of (db s)" by (simp add: book_of_def)
        then show ?thesis by simp
      next
        case False
        with 2(3) obtain ref p q out where aw: "awaiting (db s) ref p" and out: "out \<in> {CAPTURED, DECLINED}"
          and q: "same_terms p q" "pay_status q = resolved_status out" "pay_refunded_amount q = pay_refunded_amount p"
          and pays: "payments (db t) = set_row pay_id (pay_id p) (\<lambda>_. q) (payments (db s))"
          and bal: "\<forall>a. balance (db t) a = balance (db s) a + resolved_transfer out p a"
          unfolding webhook_effect_def by blast
        have "book_of (db t) = (book_of (db s))\<lparr>bk_payments := set_row pay_id (pay_id p) (\<lambda>_. q) (bk_payments (book_of (db s))),
            bk_balance := (\<lambda>a. bk_balance (book_of (db s)) a + resolved_transfer out p a)\<rparr>"
          by (rule book_of_eqI) (simp_all add: pays bal 2(1))
        moreover have "pay_status p = PaymentStatus.AUTHORIZED" using aw by (simp add: awaiting_def)
        ultimately have "book_event {} (book_of (db s)) (book_of (db t))"
          using book_event.resolved[of "pay_id p" "book_of (db s)" p out "{}" q] awaiting_row[OF aw assms(2)] out q
          by auto
        then show ?thesis by blast
      qed
      then show ?thesis using keys_kept_same[OF 2(2)] by simp
    qed
  qed
qed

lemma reverse_all_book:
  assumes "reverse_all ps c s = (Inr n, t)" and "pending s = []" and "distinct (map pay_id (payments (db s)))"
    and "distinct (map pay_id ps)" and "set ps \<subseteq> set (payments (db s))"
    and "\<forall>p \<in> set ps. pay_status p = PaymentStatus.AUTHORIZED"
  shows "book_run {} (book_of (db s)) (book_of (db t))"
  using assms
proof (induction ps arbitrary: c s)
  case Nil
  then show ?case by simp
next
  case (Cons p ps)
  from Cons.prems(1) obtain q s1 where rev: "resolve (pay_id p) (declined []) s = (Inr q, s1)"
    and rest: "reverse_all ps (c + 1) s1 = (Inr n, t)" by (auto simp: and_then_Inr_iff reverse_resolve)
  from rev Cons.prems(2) obtain p' where p': "row_of pay_id (pay_id p) (payments (db s)) = Some p'" "same_terms p' q"
    "pay_refunded_amount q = pay_refunded_amount p'" and st: "pay_status q = resolved_status DECLINED" and pe: "pending s1 = []"
    and step: "payment_step (pay_id p) q (db s) (db s1)"
    and bal: "\<And>a. balance (db s1) a = balance (db s) a + resolved_transfer DECLINED p' a"
    by (rule resolve_Inr) (simp_all add: declined_def)
  have "row_of pay_id (pay_id p) (payments (db s)) = Some p" using Cons.prems(3,5) by (intro row_of_in) simp_all
  with p'(1) have pp: "p' = p" by simp
  have pays: "payments (db s1) = set_row pay_id (pay_id p) (\<lambda>_. q) (payments (db s))"
    and rf: "refunds (db s1) = refunds (db s)" using step by (simp_all add: payment_step_def)
  have "map pay_id (payments (db s1)) = map pay_id (payments (db s))"
    unfolding pays using p'(2) pp by (auto simp: set_row_def same_terms_def)
  then have dist: "distinct (map pay_id (payments (db s1)))" using Cons.prems(3) by simp
  have sub: "set ps \<subseteq> set (payments (db s1))"
    using Cons.prems(4,5) unfolding pays by (intro set_row_others) simp_all
  have "book_of (db s1) = (book_of (db s))\<lparr>bk_payments := set_row pay_id (pay_id p) (\<lambda>_. q) (bk_payments (book_of (db s))),
      bk_balance := (\<lambda>a. bk_balance (book_of (db s)) a + resolved_transfer DECLINED p a)\<rparr>"
    by (rule book_of_eqI) (simp_all add: pays bal rf pp)
  then have "book_event {} (book_of (db s)) (book_of (db s1))"
    using book_event.resolved[of "pay_id p" "book_of (db s)" p DECLINED "{}" q] p' pp st Cons.prems(6) by simp
  with Cons.IH[OF rest pe dist _ sub] Cons.prems(4,6) show ?case by (auto intro: converse_rtranclp_into_rtranclp)
qed

lemma expire_book_effect:
  assumes "transaction (expire_stale_holds n) s = (r, t)" and "constraints (db s)"
  shows "effect {} {} (db s) (db t)"
proof (rule transaction_effect[OF assms(1) expire_keeps])
  fix c
  assume r: "r = Inr c"
  let ?ps = "stale_payments (clock s (clock_reads s) - minutes n) (db s)"
  let ?s1 = "s\<lparr>pending := [], clock_reads := Suc (clock_reads s)\<rparr>"
  from assms(1) r obtain t1 where t1: "expire_stale_holds n (s\<lparr>pending := []\<rparr>) = (Inr c, t1)" and t: "t = flushed t1"
    by (auto elim: transaction_Inr)
  then have run: "reverse_all ?ps 0 ?s1 = (Inr c, t1)" by (auto simp: expire_stale_holds_def and_then_Inr_iff)
  have d: "distinct (map pay_id (payments (db s)))" using assms(2) by (simp add: constraint_defs)
  have dps: "distinct (map pay_id ?ps)" unfolding stale_payments_def by (rule distinct_map_filter[OF d])
  have "book_run {} (book_of (db ?s1)) (book_of (db t1))"
    by (rule reverse_all_book[OF run _ _ dps]) (use d in \<open>auto simp: stale_payments_def\<close>)
  moreover have "pending t1 = []"
    using reverse_all_Inr[OF run _ _ dps] d by (auto simp: stale_payments_def)
  ultimately show "book_run {} (book_of (db s)) (book_of (db t)) \<and> keys_kept {} (db s) (db t)"
    using expire_Inr(5)[OF assms(1)[unfolded r] assms(2)] by (simp add: t keys_kept_same)
qed

lemma drain_book_effect:
  assumes "drain_batch locked n s = (r, t)" and "constraints (db s)"
  shows "effect {} {} (db s) (db t)"
proof -
  from assms(2) obtain now where db: "db t = (db s)\<lparr>outbox :=
      map (mark now (obx_id ` set (select_batch locked n (outbox (db s))))) (outbox (db s))\<rparr>"
    by (rule drain_batch_runs[where locked = locked and n = n]) (use assms(1) in simp)
  have tx: "constraints (db t)" using assms unfolding drain_batch_def by (rule transaction_constraints)
  have "book_of (db t) = book_of (db s)" by (simp add: book_of_def db balance_def fun_eq_iff)
  moreover have "ledger_kept (db s) (db t)" by (rule ledger_kept_same_part) (simp add: ledger_part_def db)
  moreover have "keys_kept {} (db s) (db t)" by (rule keys_kept_same) (simp add: db)
  ultimately show ?thesis using tx by (simp add: effect_def)
qed

section \<open>The invariant of the engine\<close>

definition flight_scope :: "flight \<Rightarrow> string \<times> string" where
  "flight_scope f = (req_merchantId (fl_request f), fl_key f)"

text \<open>A request in flight owns a PROCESSING payment and a claimed key that no other flight has.\<close>

definition flight_ok :: "env \<Rightarrow> database \<Rightarrow> UUID \<Rightarrow> flight \<Rightarrow> bool" where
  "flight_ok env d pid f \<longleftrightarrow>
     (\<exists>p. row_of pay_id pid (payments d) = Some p \<and> pay_status p = PaymentStatus.PROCESSING) \<and>
     (case flight_scope f of (m, k) \<Rightarrow> key_state d m k = Claimed (request_hash env (fl_request f)))"

definition flights_ok :: "env \<Rightarrow> (UUID \<rightharpoonup> flight) \<Rightarrow> database \<Rightarrow> bool" where
  "flights_ok env fs d \<longleftrightarrow> (\<forall>pid f. fs pid = Some f \<longrightarrow> flight_ok env d pid f) \<and>
     (\<forall>pid pid' f f'. fs pid = Some f \<longrightarrow> fs pid' = Some f' \<longrightarrow> flight_scope f = flight_scope f' \<longrightarrow> pid = pid')"

definition engine_ok :: "env \<Rightarrow> provider \<Rightarrow> engine \<Rightarrow> bool" where
  "engine_ok env psp e \<longleftrightarrow> payment_provider psp \<and> codec_ok env \<and> constraints (tables e) \<and>
     flights_ok env (flights e) (tables e)"

lemma flight_kept:
  assumes "flight_ok env d pid f" and "effect F K d d'" and "pid \<notin> F" and "flight_scope f \<notin> K"
  shows "flight_ok env d' pid f"
proof -
  from assms(1) obtain p where p: "row_of pay_id pid (payments d) = Some p" "pay_status p = PaymentStatus.PROCESSING"
    by (auto simp: flight_ok_def)
  from assms(2) have "book_run F (book_of d) (book_of d')" by (simp add: effect_def)
  then obtain q where "payment_in (book_of d') pid = Some q" "q = p \<or> pay_status p \<noteq> PaymentStatus.PROCESSING \<or> pid \<in> F"
    using p(1) by (auto elim: run_row)
  with p(2) assms(3) have "row_of pay_id pid (payments d') = Some p" by simp
  moreover have "key_state d' m k = key_state d m k" if "flight_scope f = (m, k)" "key_state d m k \<noteq> Unused" for m k
    using assms(2,4) that by (simp add: effect_def keys_kept_def)
  ultimately show ?thesis using assms(1) p(2) by (auto simp: flight_ok_def split: prod.splits)
qed

lemma flights_kept:
  assumes "flights_ok env fs d" and "effect F K d d'"
    and "\<And>pid f. fs' pid = Some f \<Longrightarrow> fs pid = Some f \<and> pid \<notin> F \<and> flight_scope f \<notin> K"
  shows "flights_ok env fs' d'"
proof -
  have "flight_ok env d' pid f" if "fs' pid = Some f" for pid f
    using assms(1) assms(3)[OF that] by (intro flight_kept[OF _ assms(2)]) (auto simp: flights_ok_def)
  moreover have "pid = pid'" if "fs' pid = Some f" "fs' pid' = Some f'" "flight_scope f = flight_scope f'" for pid pid' f f'
    using assms(1) assms(3)[OF that(1)] assms(3)[OF that(2)] that(3) by (auto simp: flights_ok_def)
  ultimately show ?thesis unfolding flights_ok_def by blast
qed

lemma hold_flights:
  assumes "flights_ok env fs (db s)" and "transaction (create_hold env k req pid) s = (Inr (Inr p), t)"
    and "f = \<lparr>fl_key = k, fl_request = req, fl_payment = p\<rparr>"
  shows "flights_ok env (fs(pid \<mapsto> f)) (db t)"
proof -
  note h = create_hold_row[OF assms(2)]
  have old: "flights_ok env fs (db t)"
    using assms(1) hold_effect[OF assms(2)] by (rule flights_kept) simp
  have new: "flight_ok env (db t) pid f" using h(1,3,4) by (simp add: flight_ok_def flight_scope_def assms(3))
  have "flight_scope f' \<noteq> flight_scope f" if "fs pid' = Some f'" for pid' f'
  proof
    assume same: "flight_scope f' = flight_scope f"
    have "flight_ok env (db s) pid' f'" using assms(1) that by (simp add: flights_ok_def)
    with same have "key_state (db s) (req_merchantId req) k \<noteq> Unused"
      by (simp add: flight_ok_def flight_scope_def assms(3))
    with h(2) show False by simp
  qed
  note other = this
  have "pid1 = pid2" if a: "(fs(pid \<mapsto> f)) pid1 = Some f1" "(fs(pid \<mapsto> f)) pid2 = Some f2"
      "flight_scope f1 = flight_scope f2" for pid1 pid2 f1 f2
  proof (cases "pid1 = pid \<or> pid2 = pid")
    case True
    then show ?thesis using a other[of pid1 f1] other[of pid2 f2] by (auto split: if_splits)
  next
    case False
    then have "fs pid1 = Some f1" "fs pid2 = Some f2" using a(1,2) by simp_all
    then show ?thesis using a(3) old unfolding flights_ok_def by blast
  qed
  moreover have "flight_ok env (db t) i x" if "(fs(pid \<mapsto> f)) i = Some x" for i x
    using that old new by (auto simp: flights_ok_def split: if_splits)
  ultimately show ?thesis unfolding flights_ok_def by blast
qed

text \<open>Every step is a run of the book, keeps every key that is not in flight, and keeps the invariant.\<close>

lemma begin_create_tx:
  assumes "begin_create env k req s = (r, t)"
  obtains pid r' where "transaction (create_hold env k req pid) (s\<lparr>uuids_drawn := Suc (uuids_drawn s)\<rparr>) = (r', t)"
    and "r = (case r' of Inl x \<Rightarrow> Inl x | Inr y \<Rightarrow> Inr (pid, y))"
proof -
  let ?pid = "uuid_source s (uuids_drawn s)"
  let ?s = "s\<lparr>uuids_drawn := Suc (uuids_drawn s)\<rparr>"
  obtain r' t' where tx: "transaction (create_hold env k req ?pid) ?s = (r', t')" by fastforce
  with assms have "t' = t" "r = (case r' of Inl x \<Rightarrow> Inl x | Inr y \<Rightarrow> Inr (?pid, y))"
    by (auto simp: begin_create_def and_then_def uuid4_def ret_def split: sum.splits)
  with tx show thesis by (intro that) simp_all
qed

lemma step_effect:
  assumes "step env we psp e e'" and "engine_ok env psp e"
  obtains F K where "effect F K (tables e) (tables e')" and "engine_ok env psp e'"
    and "\<And>m k. (m, k) \<in> K \<Longrightarrow> \<exists>h. key_state (tables e) m k = Claimed h"
proof -
  have base: "payment_provider psp" "codec_ok env" "constraints (tables e)" "flights_ok env (flights e) (tables e)"
    using assms(2) by (simp_all add: engine_ok_def)
  note finish = that
  have simple: thesis if eff: "effect {} {} (tables e) (db t)" and e': "e' = e\<lparr>store := t\<rparr>" for t
  proof (rule finish[of "{}" "{}"])
    show "effect {} {} (tables e) (tables e')" using eff e' by simp
    have "flights_ok env (flights e) (db t)" using base(4) eff by (rule flights_kept) simp
    then show "engine_ok env psp e'" using base eff by (simp add: engine_ok_def e' effect_def)
  qed simp
  from assms(1) show thesis
  proof cases
    case (Hold req k pid p t)
    from Hold(3) obtain pid' r' where tx: "transaction (create_hold env k req pid')
        ((store e)\<lparr>uuids_drawn := Suc (uuids_drawn (store e))\<rparr>) = (r', t)"
      and "Inr (pid, Inr p) = (case r' of Inl x \<Rightarrow> Inl x | Inr y \<Rightarrow> Inr (pid', y))" by (rule begin_create_tx)
    then have r': "r' = Inr (Inr p)" "pid' = pid" by (auto split: sum.splits)
    have eff: "effect {} {} (tables e) (db t)" using hold_effect[OF tx] by simp
    have "flights_ok env (flights e) (db ((store e)\<lparr>uuids_drawn := Suc (uuids_drawn (store e))\<rparr>))" using base(4) by simp
    from hold_flights[OF this tx[unfolded r'] refl] base eff have "engine_ok env psp e'"
      by (simp add: engine_ok_def Hold(1) effect_def)
    with eff show thesis by (intro that[of "{}" "{}"]) (simp_all add: Hold(1))
  next
    case (Answer k req r t)
    from Answer(2) obtain pid r' where tx: "transaction (create_hold env k req pid)
        ((store e)\<lparr>uuids_drawn := Suc (uuids_drawn (store e))\<rparr>) = (r', t)" by (rule begin_create_tx)
    from hold_effect[OF tx] have "effect {} {} (tables e) (db t)" by simp
    then show thesis using Answer(1) by (rule simple)
  next
    case (Settle pid f a s r t)
    have d: "db s = tables e" using payment_provider.authorize_db[OF base(1) Settle(3)] .
    have fl: "flight_ok env (tables e) pid f" using base(4) Settle(2) by (simp add: flights_ok_def)
    then obtain p where p: "row_of pay_id pid (payments (db s)) = Some p" "pay_status p = PaymentStatus.PROCESSING"
      by (auto simp: flight_ok_def d)
    have eff: "effect {pid} {flight_scope f} (tables e) (db t)"
      using settle_effect[OF Settle(4) p] by (simp add: d flight_scope_def)
    have "flights_ok env ((flights e)(pid := None)) (db t)"
    proof (rule flights_kept[OF base(4) eff])
      fix pid' f'
      assume f': "((flights e)(pid := None)) pid' = Some f'"
      then have "pid' \<noteq> pid" "flights e pid' = Some f'" by (auto split: if_splits)
      then show "flights e pid' = Some f' \<and> pid' \<notin> {pid} \<and> flight_scope f' \<notin> {flight_scope f}"
        using base(4) Settle(2) by (auto simp: flights_ok_def)
    qed
    then have "engine_ok env psp e'" using base eff by (simp add: engine_ok_def Settle(1) effect_def)
    with eff fl show thesis
      by (intro that[of "{pid}" "{flight_scope f}"]) (auto simp: Settle(1) flight_ok_def)
  next
    case (Gateway_error pid f x t)
    have d: "db t = tables e" using payment_provider.authorize_db[OF base(1) Gateway_error(3)] .
    have "flights_ok env ((flights e)(pid := None)) (tables e)"
      by (rule flights_kept[OF base(4) effect_same[OF refl, of "{}" "{}"]]) (auto split: if_splits)
    then have "engine_ok env psp e'" using base by (simp add: engine_ok_def Gateway_error(1) d)
    then show thesis using effect_same[OF d, of "{}" "{}"] by (intro that[of "{}" "{}"]) (simp_all add: Gateway_error(1))
  next
    case (Die pid)
    have "flights_ok env ((flights e)(pid := None)) (tables e)"
      by (rule flights_kept[OF base(4) effect_same[OF refl, of "{}" "{}"]]) (auto split: if_splits)
    then have "engine_ok env psp e'" using base by (simp add: engine_ok_def Die)
    then show thesis using effect_same[OF refl, of "{}" "{}" "store e"] by (intro that[of "{}" "{}"]) (simp_all add: Die)
  next
    case (Refund k pid x r t)
    show thesis using refund_book_effect[OF Refund(2) base(2)] Refund(1) by (rule simple)
  next
    case (Webhook raw x y r' t)
    show thesis using webhook_book_effect[OF Webhook(2) base(3)] Webhook(1) by (rule simple)
  next
    case (Expire n r'' t)
    show thesis using expire_book_effect[OF Expire(2) base(3)] Expire(1) by (rule simple)
  next
    case (Drain locked n r'' t)
    show thesis using drain_book_effect[OF Drain(2) base(3)] Drain(1) by (rule simple)
  qed
qed

interpretation engine: book_refinement "step env we psp" "engine_ok env psp" "\<lambda>e. book_of (tables e)"
  for env we psp
proof
  fix e e'
  assume "engine_ok env psp e" "step env we psp e e'"
  then obtain F K where "effect F K (tables e) (tables e')" "engine_ok env psp e'" by (blast elim: step_effect)
  then show "engine_ok env psp e'" and "book_run UNIV (book_of (tables e)) (book_of (tables e'))"
    by (auto simp: effect_def intro: book_run_mono)
qed

section \<open>Runs\<close>

lemma effect_trans:
  assumes "effect F K d d'" and "effect F' K' d' d''"
  shows "ledger_kept d d''"
  using assms by (auto simp: effect_def intro: ledger_kept_trans)

lemma run_ledger_kept:
  assumes "(step env we psp)\<^sup>*\<^sup>* e e'" and "engine_ok env psp e"
  shows "ledger_kept (tables e) (tables e')"
  using assms
proof (induction rule: rtranclp_induct)
  case base
  then show ?case by (simp add: ledger_kept_same_part)
next
  case (step e1 e2)
  have "engine_ok env psp e1" using engine.reaches[OF step.hyps(1) step.prems] ..
  with step.hyps(2) obtain F K where "effect F K (tables e1) (tables e2)" by (rule step_effect)
  then have "ledger_kept (tables e1) (tables e2)" by (simp add: effect_def)
  with step.IH[OF step.prems] show ?case by (rule ledger_kept_trans)
qed

lemma run_finished_key:
  assumes "(step env we psp)\<^sup>*\<^sup>* e e'" and "engine_ok env psp e" and "key_state (tables e) m k = Finished h c b"
  shows "key_state (tables e') m k = Finished h c b"
  using assms
proof (induction rule: rtranclp_induct)
  case base
  then show ?case by simp
next
  case (step e1 e2)
  have fin: "key_state (tables e1) m k = Finished h c b" using step.IH step.prems by simp
  have "engine_ok env psp e1" using engine.reaches[OF step.hyps(1) step.prems(1)] ..
  with step.hyps(2) obtain F K where eff: "effect F K (tables e1) (tables e2)"
    and K: "\<And>m k. (m, k) \<in> K \<Longrightarrow> \<exists>h. key_state (tables e1) m k = Claimed h" by (rule step_effect) simp_all
  have "(m, k) \<notin> K" using K[of m k] fin by auto
  with eff fin show ?case by (simp add: effect_def keys_kept_def)
qed

text \<open>A whole call of \<open>create\<close> is a run: one step when it is answered by the first transaction, two when it is not.\<close>

lemma create_begins:
  "create env psp k req s = (case begin_create env k req s of
     (Inl x, t) \<Rightarrow> (Inl x, t)
   | (Inr (pid, Inl replay), t) \<Rightarrow> (Inr replay, t)
   | (Inr (pid, Inr p), t) \<Rightarrow> and_then (psp p) (\<lambda>a. transaction (create_settle env k req pid a)) t)"
  by (auto simp: create_def begin_create_def and_then_def uuid4_def ret_def split: prod.split sum.split)

lemma create_run:
  assumes "CreatePaymentRequest_valid req" and "create env psp k req (store e) = (r, t)"
  obtains e' where "(step env we psp)\<^sup>*\<^sup>* e e'" and "store e' = t"
proof -
  obtain r1 t1 where b: "begin_create env k req (store e) = (r1, t1)" by fastforce
  show thesis
  proof (cases "\<exists>pid p. r1 = Inr (pid, Inr p)")
    case False
    with b have "step env we psp e (e\<lparr>store := t1\<rparr>)" by (intro step.Answer) auto
    moreover have "t1 = t" using assms(2) b False by (auto simp: create_begins split: sum.splits)
    ultimately show thesis by (intro that[of "e\<lparr>store := t1\<rparr>"]) simp_all
  next
    case True
    then obtain pid p where r1: "r1 = Inr (pid, Inr p)" by blast
    let ?e1 = "e\<lparr>store := t1, flights := (flights e)(pid \<mapsto> \<lparr>fl_key = k, fl_request = req, fl_payment = p\<rparr>)\<rparr>"
    let ?e2 = "?e1\<lparr>store := t, flights := (flights ?e1)(pid := None)\<rparr>"
    have s1: "step env we psp e ?e1" using assms(1) b r1 by (intro step.Hold) simp_all
    have rest: "and_then (psp p) (\<lambda>a. transaction (create_settle env k req pid a)) t1 = (r, t)"
      using assms(2) b r1 by (simp add: create_begins)
    have "step env we psp ?e1 ?e2"
    proof (cases "psp p t1")
      case (Pair y s)
      show ?thesis
      proof (cases y)
        case (Inl x)
        with rest Pair show ?thesis by (intro step.Gateway_error) (auto simp: and_then_def)
      next
        case (Inr a)
        with rest Pair show ?thesis by (intro step.Settle) (auto simp: and_then_def)
      qed
    qed
    with s1 show thesis by (intro that[of ?e2]) (auto intro: converse_rtranclp_into_rtranclp)
  qed
qed

section \<open>Concrete engines\<close>

definition engine_at :: "world \<Rightarrow> engine" where
  "engine_at s = \<lparr>store = s, flights = Map.empty\<rparr>"

lemma engine_at_store [simp]: "store (engine_at s) = s"
  by (simp add: engine_at_def)

lemma engine_at_ok:
  "payment_provider psp \<Longrightarrow> codec_ok env \<Longrightarrow> constraints (db s) \<Longrightarrow> engine_ok env psp (engine_at s)"
  by (simp add: engine_ok_def engine_at_def flights_ok_def)

lemma sample_engine_ok:
  "engine_ok sample_env mock_authorize (engine_at sample_world)"
  "engine_ok sample_env mock_authorize (engine_at (sample_paid st))"
  using sample_db_constraints sample_paid_constraints
  by (auto intro!: engine_at_ok mock.payment_provider_axioms sample_env_codec)

text \<open>A run of the example engine that creates a payment, and one that captures a waiting payment.\<close>

lemma sample_run:
  obtains e r where "(step sample_env we mock_authorize)\<^sup>*\<^sup>* (engine_at sample_world) e"
    and "create sample_env mock_authorize ''k'' (sample_request 300) sample_world = (Inr (201, r), store e)"
proof -
  obtain r t where c: "create sample_env mock_authorize ''k'' (sample_request 300) sample_world = (Inr (201, r), t)"
    by (rule sample_create)
  have "CreatePaymentRequest_valid (sample_request 300)" by (simp add: CreatePaymentRequest_valid_def sample_request_def)
  then obtain e where "(step sample_env we mock_authorize)\<^sup>*\<^sup>* (engine_at sample_world) e" "store e = t"
    by (rule create_run[where e = "engine_at sample_world"]) (use c in simp_all)
  with c show thesis by (intro that[of e r]) simp_all
qed

lemma sample_capture_run:
  obtains e q where "(step sample_env sample_webhook_env mock_authorize)\<^sup>*\<^sup>* (engine_at (sample_paid PaymentStatus.AUTHORIZED)) e"
    and "row_of pay_id (UUID 50) (payments (tables e)) = Some q" and "pay_status q = PaymentStatus.SUCCEEDED"
proof -
  let ?s = "sample_paid PaymentStatus.AUTHORIZED"
  have out: "event_outcome (JStr ''payment.captured'') = Some CAPTURED" by (simp add: capture_events_def)
  from webhook_resolves[OF sample_delivers_header _ _ _ _ sample_can_resolve sample_awaiting out]
  obtain q t where run: "handle_webhook sample_webhook_env sample_body (Some sample_signature) None ?s = (Inr (), t)"
    and q: "row_of pay_id (UUID 50) (payments (db t)) = Some q" "pay_status q = PaymentStatus.SUCCEEDED"
    by (auto simp: handle_webhook_def sample_payment_def)
  have "step sample_env sample_webhook_env mock_authorize (engine_at ?s) ((engine_at ?s)\<lparr>store := t\<rparr>)"
    by (rule step.Webhook) (use run in simp)
  then show thesis using q by (intro that[of "(engine_at ?s)\<lparr>store := t\<rparr>" q]) simp_all
qed

lemma sample_refund_run:
  obtains e q where "(step sample_env we mock_authorize)\<^sup>*\<^sup>* (engine_at (sample_paid PaymentStatus.SUCCEEDED)) e"
    and "row_of pay_id (UUID 50) (payments (tables e)) = Some q" and "pay_refunded_amount q = 30"
proof -
  let ?s = "sample_paid PaymentStatus.SUCCEEDED"
  have can: "can_refund sample_env ''r'' (UUID 50) 30 (sample_payment PaymentStatus.SUCCEEDED) ?s"
    by (rule sample_can_refund) simp_all
  then obtain c r t where tx: "transaction (refund sample_env ''r'' (UUID 50) 30) ?s = (Inr (c, r), t)"
    using refund_succeeds by blast
  from tx obtain p q where "row_of pay_id (UUID 50) (payments (db ?s)) = Some p"
    "row_of pay_id (UUID 50) (payments (db t)) = Some q" "pay_refunded_amount q = pay_refunded_amount p + 30"
    by (rule refund_effect) (use sample_env_codec in simp_all)
  then have q: "row_of pay_id (UUID 50) (payments (db t)) = Some q" "pay_refunded_amount q = 30"
    by (auto simp: sample_payment_def)
  have "step sample_env we mock_authorize (engine_at ?s) ((engine_at ?s)\<lparr>store := t\<rparr>)"
    by (rule step.Refund[where k = "''r''" and pid = "UUID 50" and x = 30])
      (use tx in \<open>simp add: process_refund_def RefundRequest_valid_def\<close>)
  then show thesis using q by (intro that[of "(engine_at ?s)\<lparr>store := t\<rparr>" q]) simp_all
qed

lemma sample_book:
  "book_ok (book_of (db (sample_paid st)))" if "st \<noteq> PaymentStatus.REFUNDED"
  using that by (simp add: book_ok_def payment_ok_def refunds_of_def) (simp add: sample_payment_def)

section \<open>A new request that returned\<close>

lemma create_parts:
  assumes "create env psp k req s = (Inr (c, r), t)" and "create_key (db s) req k = Unused"
  obtains pid p t1 a s2 where "begin_create env k req s = (Inr (pid, Inr p), t1)"
    and "transaction (create_hold env k req pid) (s\<lparr>uuids_drawn := Suc (uuids_drawn s)\<rparr>) = (Inr (Inr p), t1)"
    and "psp p t1 = (Inr a, s2)" and "transaction (create_settle env k req pid a) s2 = (Inr (c, r), t)"
proof -
  obtain r1 t1 where b: "begin_create env k req s = (r1, t1)" by fastforce
  then obtain pid r' where tx: "transaction (create_hold env k req pid) (s\<lparr>uuids_drawn := Suc (uuids_drawn s)\<rparr>) = (r', t1)"
    and r1: "r1 = (case r' of Inl x \<Rightarrow> Inl x | Inr y \<Rightarrow> Inr (pid, y))" by (rule begin_create_tx)
  have "r' \<noteq> Inl x" for x using assms(1) b r1 by (auto simp: create_begins)
  moreover have "r' \<noteq> Inr (Inl (c', b'))" for c' b'
    using create_hold_replay(2)[of env k req pid _ c' b' t1] tx assms(2) by fastforce
  ultimately obtain p where p: "r' = Inr (Inr p)" by (metis old.sum.exhaust surj_pair)
  from assms(1) b p r1 obtain a s2 where "psp p t1 = (Inr a, s2)"
    "transaction (create_settle env k req pid a) s2 = (Inr (c, r), t)"
    by (auto simp: create_begins and_then_Inr_iff)
  with b tx p r1 show thesis by (intro that[of pid p t1 a s2]) simp_all
qed

lemma create_in_flight:
  assumes "CreatePaymentRequest_valid req" and "create env psp k req (store e) = (Inr (c, r), t)"
    and "create_key (tables e) req k = Unused"
  obtains e1 pid f a s where "step env we psp e e1" and "flights e1 pid = Some f" and "fl_key f = k" and "fl_request f = req"
    and "psp (fl_payment f) (store e1) = (Inr a, s)" and "transaction (create_settle env k req pid a) s = (Inr (c, r), t)"
proof -
  from assms(2,3) obtain pid p t1 a s where b: "begin_create env k req (store e) = (Inr (pid, Inr p), t1)"
    and rest: "psp p t1 = (Inr a, s)" "transaction (create_settle env k req pid a) s = (Inr (c, r), t)"
    by (rule create_parts)
  let ?f = "\<lparr>fl_key = k, fl_request = req, fl_payment = p\<rparr>"
  have "step env we psp e (e\<lparr>store := t1, flights := (flights e)(pid \<mapsto> ?f)\<rparr>)" using assms(1) b by (rule step.Hold)
  with rest show thesis by (intro that[of "e\<lparr>store := t1, flights := (flights e)(pid \<mapsto> ?f)\<rparr>" pid ?f a s]) simp_all
qed

text \<open>The table of payments has one more row.\<close>

lemma create_appends:
  assumes "create env psp k req s = (Inr (c, r), t)" and "payment_provider psp" and "create_key (db s) req k = Unused"
  obtains q where "payments (db t) = payments (db s) @ [q]" and "r = to_response q"
proof -
  from assms(1,3) obtain pid p t1 a s2
    where tx: "transaction (create_hold env k req pid) (s\<lparr>uuids_drawn := Suc (uuids_drawn s)\<rparr>) = (Inr (Inr p), t1)"
      and a: "psp p t1 = (Inr a, s2)" and tx2: "transaction (create_settle env k req pid a) s2 = (Inr (c, r), t)"
    by (rule create_parts)
  note h = create_hold_row[OF tx]
  have d2: "db s2 = db t1" using payment_provider.authorize_db[OF assms(2) a] .
  from tx2 obtain s3 where run: "create_settle env k req pid a (s2\<lparr>pending := []\<rparr>) = (Inr (c, r), s3)" and t: "t = flushed s3"
    by (rule transaction_Inr)
  from run obtain q s4 u where res: "resolve pid a (s2\<lparr>pending := []\<rparr>) = (Inr q, s4)" and q: "r = to_response q"
    and comp: "complete (req_merchantId req) k (pay_id q) 201 (dump_payment env (to_response q)) s4 = (Inr u, s3)"
    by (auto simp: create_settle_def and_then_Inr_iff Let_def)
  from res have "pending s4 = [] \<and> payments (db s4) = set_row pay_id pid (\<lambda>_. q) (payments (db t1))"
    by (rule resolve_Inr) (auto simp: payment_step_def d2)
  with comp have "payments (db t) = set_row pay_id pid (\<lambda>_. q) (payments (db t1))"
    unfolding t by (auto simp: complete_def select_idempotency_def flushed_def split: option.splits)
  moreover have "constraints (db t1)" using tx by (rule transaction_Inr)
  then have "pid \<notin> pay_id ` set (payments (db s))" using h(5,11) by (auto simp: constraint_defs)
  ultimately have "payments (db t) = payments (db s) @ [q]" using h(5,11) set_row_absent[of pid pay_id "payments (db s)"]
    by (simp add: set_row_def)
  with q show thesis by (intro that)
qed

text \<open>A request on the example state with a held payment, drawn on the suspense account itself.\<close>

definition suspense_request :: CreatePaymentRequest where
  "suspense_request = \<lparr>req_merchantId = ''m'', req_payerAccountId = PSP_SUSPENSE_ACCOUNT_ID,
     req_payeeAccountId = UUID 4, req_amount = 40, req_currency = ''INR''\<rparr>"

lemma suspense_can_create:
  "can_create sample_env ''k'' suspense_request (sample_paid PaymentStatus.AUTHORIZED)"
proof -
  let ?s = "sample_paid PaymentStatus.AUTHORIZED"
  have "{UUID 1, UUID 4} \<subseteq> account_ids (db ?s)"
    by (simp add: account_ids_def sample_paid_def sample_db_def upgrade_def)
  moreover have "uuid_source ?s (uuids_drawn ?s) \<noteq> UUID 50" by (simp add: sample_paid_def)
  ultimately show ?thesis using sample_paid_constraints
    by (simp add: can_create_def can_serve_def suspense_request_def PSP_SUSPENSE_ACCOUNT_ID_def int64_def)
      (simp add: sample_payment_def)
qed

end
