(* ===== verification/Announcements.thy ===== *)
theory Announcements
  imports Engine
begin

text \<open>
  What the engine writes down about money. Every transaction of the journal is announced by one row of the
  outbox, in the same order: \<open>announced\<close> lists the four kinds of movements the services make, each with the
  type, the reference and the entries of its transaction and with the type, the aggregate and the payload
  of its event. \<open>told\<close> is the well-formedness of the tables: journal and outbox are in lockstep, the events
  of a payment are those its status stands for, and there is one refund event for each row of the refunds.
\<close>

section \<open>Announcements\<close>

definition entries_of :: "database \<Rightarrow> LedgerTransaction \<Rightarrow> LedgerEntry list" where
  "entries_of d txn = filter (\<lambda>e. ent_transaction_id e = txn_id txn) (ledger_entries d)"

definition booked :: "database \<Rightarrow> LedgerTransaction \<Rightarrow> TransactionType \<Rightarrow> UUID \<Rightarrow> Posting list \<Rightarrow> bool" where
  "booked d txn ty ref ps \<longleftrightarrow> txn_type txn = ty \<and> txn_reference_id txn = ref \<and>
     list_all2 (entry_matches (txn_id txn)) ps (entries_of d txn)"

definition tells :: "Outbox \<Rightarrow> string \<Rightarrow> UUID \<Rightarrow> string \<Rightarrow> json \<Rightarrow> bool" where
  "tells ev aggregate_type aggregate_id event_type payload \<longleftrightarrow> obx_aggregate_type ev = aggregate_type \<and>
     obx_aggregate_id ev = aggregate_id \<and> obx_event_type ev = event_type \<and> obx_payload ev = payload"

inductive announced :: "database \<Rightarrow> LedgerTransaction \<Rightarrow> Outbox \<Rightarrow> bool" for d txn ev where
  Held: "row_of pay_id pid (payments d) = Some p \<Longrightarrow>
    booked d txn TransactionType.PAYMENT pid (transfer (pay_payer_account p) PSP_SUSPENSE_ACCOUNT_ID (pay_amount p)) \<Longrightarrow>
    tells ev ''payment'' pid ''payment.processing'' (processing_payload (p\<lparr>pay_status := PaymentStatus.PROCESSING\<rparr>)) \<Longrightarrow>
    announced d txn ev"
| Settled: "row_of pay_id pid (payments d) = Some p \<Longrightarrow>
    booked d txn TransactionType.PAYMENT pid (transfer PSP_SUSPENSE_ACCOUNT_ID (pay_payee_account p) (pay_amount p)) \<Longrightarrow>
    tells ev ''payment'' pid ''payment.succeeded''
      (succeeded_payload (p\<lparr>pay_status := PaymentStatus.SUCCEEDED, pay_psp_reference := Some ref\<rparr>)) \<Longrightarrow>
    announced d txn ev"
| Reversed: "row_of pay_id pid (payments d) = Some p \<Longrightarrow>
    booked d txn TransactionType.REVERSAL pid (transfer PSP_SUSPENSE_ACCOUNT_ID (pay_payer_account p) (pay_amount p)) \<Longrightarrow>
    tells ev ''payment'' pid ''payment.failed'' (failed_payload (p\<lparr>pay_status := PaymentStatus.FAILED\<rparr>)) \<Longrightarrow>
    announced d txn ev"
| Refunded: "row_of rfd_id rid (refunds d) = Some rf \<Longrightarrow> row_of pay_id (rfd_payment_id rf) (payments d) = Some p \<Longrightarrow>
    booked d txn TransactionType.REFUND rid (transfer (pay_payee_account p) (pay_payer_account p) (rfd_amount rf)) \<Longrightarrow>
    tells ev ''refund'' rid ''refund.completed'' (refund_event_payload rf) \<Longrightarrow> announced d txn ev"

definition payment_events :: "UUID \<Rightarrow> Outbox list \<Rightarrow> string list" where
  "payment_events pid evs = map obx_event_type
     (filter (\<lambda>ev. obx_aggregate_type ev = ''payment'' \<and> obx_aggregate_id ev = pid) evs)"

definition refund_events :: "Outbox list \<Rightarrow> UUID list" where
  "refund_events evs = map obx_aggregate_id (filter (\<lambda>ev. obx_aggregate_type ev = ''refund'') evs)"

text \<open>The events a payment in this status has had.\<close>

fun story :: "PaymentStatus \<Rightarrow> string list" where
  "story PaymentStatus.PROCESSING = [''payment.processing'']"
| "story PaymentStatus.AUTHORIZED = [''payment.processing'']"
| "story PaymentStatus.SUCCEEDED = [''payment.processing'', ''payment.succeeded'']"
| "story PaymentStatus.REFUND_PENDING = [''payment.processing'', ''payment.succeeded'']"
| "story PaymentStatus.REFUNDED = [''payment.processing'', ''payment.succeeded'']"
| "story PaymentStatus.FAILED = [''payment.processing'', ''payment.failed'']"
| "story _ = []"

definition told :: "database \<Rightarrow> bool" where
  "told d \<longleftrightarrow> list_all2 (announced d) (ledger_transactions d) (outbox d) \<and>
     (\<forall>p \<in> set (payments d). payment_events (pay_id p) (outbox d) = story (pay_status p)) \<and>
     refund_events (outbox d) = map rfd_id (refunds d)"

section \<open>What keeps an announcement\<close>

definition rows_kept :: "database \<Rightarrow> database \<Rightarrow> bool" where
  "rows_kept d d' \<longleftrightarrow>
     (\<forall>i p. row_of pay_id i (payments d) = Some p \<longrightarrow> (\<exists>q. row_of pay_id i (payments d') = Some q \<and> same_terms p q)) \<and>
     (\<forall>i rf. row_of rfd_id i (refunds d) = Some rf \<longrightarrow> row_of rfd_id i (refunds d') = Some rf)"

lemma payload_same_terms:
  assumes "same_terms p q"
  shows "processing_payload (q\<lparr>pay_status := st\<rparr>) = processing_payload (p\<lparr>pay_status := st\<rparr>)"
    and "succeeded_payload (q\<lparr>pay_status := st, pay_psp_reference := r\<rparr>) =
      succeeded_payload (p\<lparr>pay_status := st, pay_psp_reference := r\<rparr>)"
    and "failed_payload (q\<lparr>pay_status := st\<rparr>) = failed_payload (p\<lparr>pay_status := st\<rparr>)"
  using assms by (simp_all add: same_terms_def processing_payload_def succeeded_payload_def failed_payload_def)

lemma announced_kept:
  assumes "announced d txn ev" and "rows_kept d d'" and "entries_of d' txn = entries_of d txn"
  shows "announced d' txn ev"
  using assms(1)
proof cases
  case (Held pid p)
  with assms(2) obtain q where q: "row_of pay_id pid (payments d') = Some q" "same_terms p q"
    unfolding rows_kept_def by blast
  from q(1) show ?thesis
    by (rule announced.Held) (use Held q(2) assms(3) in \<open>simp_all add: payload_same_terms booked_def, simp_all add: same_terms_def\<close>)
next
  case (Settled pid p ref)
  with assms(2) obtain q where q: "row_of pay_id pid (payments d') = Some q" "same_terms p q"
    unfolding rows_kept_def by blast
  from q(1) show ?thesis
    by (rule announced.Settled[where ref = ref])
      (use Settled q(2) assms(3) in \<open>simp_all add: payload_same_terms booked_def, simp_all add: same_terms_def\<close>)
next
  case (Reversed pid p)
  with assms(2) obtain q where q: "row_of pay_id pid (payments d') = Some q" "same_terms p q"
    unfolding rows_kept_def by blast
  from q(1) show ?thesis
    by (rule announced.Reversed)
      (use Reversed q(2) assms(3) in \<open>simp_all add: payload_same_terms booked_def, simp_all add: same_terms_def\<close>)
next
  case (Refunded rid rf p)
  with assms(2) obtain q where rf: "row_of rfd_id rid (refunds d') = Some rf"
    and q: "row_of pay_id (rfd_payment_id rf) (payments d') = Some q" "same_terms p q"
    unfolding rows_kept_def by blast
  from rf q(1) show ?thesis
    by (rule announced.Refunded) (use Refunded q(2) assms(3) in \<open>simp_all add: booked_def, simp_all add: same_terms_def\<close>)
qed

lemma row_of_id: "row_of key i rows = Some r \<Longrightarrow> i \<in> key ` set rows"
  using row_of_None_iff[of key i rows] by simp

lemma announced_id:
  "announced d txn ev \<Longrightarrow> obx_aggregate_type ev = ''payment'' \<Longrightarrow> obx_aggregate_id ev \<in> pay_id ` set (payments d)"
  by (erule announced.cases) (auto simp: tells_def dest: row_of_id)

text \<open>One more transaction and its event.\<close>

lemma announced_append:
  assumes "list_all2 (announced d) (ledger_transactions d) (outbox d)" and "ledger_entries_ok d"
    and post: "posted ty ref ps txn d0 d1" and d': "d' = d1\<lparr>outbox := outbox d1 @ [ev]\<rparr>"
    and d0: "ledger_transactions d0 = ledger_transactions d" "ledger_entries d0 = ledger_entries d" "outbox d0 = outbox d"
    and kept: "rows_kept d d0"
    and new: "booked d' txn ty ref ps \<Longrightarrow> announced d' txn ev"
  shows "list_all2 (announced d') (ledger_transactions d') (outbox d')"
proof -
  note f = posted_frame[OF post]
  obtain es where es: "ledger_entries d1 = ledger_entries d0 @ es" and m: "list_all2 (entry_matches (txn_id txn)) ps es"
    using post by (rule posted_entries)
  have es_id: "\<forall>e \<in> set es. ent_transaction_id e = txn_id txn"
    using m by (auto simp: list_all2_conv_all_nth entry_matches_def in_set_conv_nth)
  have "distinct (map txn_id (ledger_transactions d'))" using posted_constraints[OF post] by (simp add: d' constraint_defs)
  then have fresh: "txn_id txn \<notin> txn_id ` set (ledger_transactions d)" using f(8) by (simp add: d' d0)
  have own: "ent_transaction_id e \<in> txn_id ` set (ledger_transactions d)" if "e \<in> set (ledger_entries d)" for e
    using assms(2) that by (simp add: ledger_entries_ok_def)
  have "entries_of d' txn = es"
  proof -
    have "[e \<leftarrow> ledger_entries d. ent_transaction_id e = txn_id txn] = []"
      using fresh own by (metis (mono_tags, lifting) filter_False)
    moreover have "[e \<leftarrow> es. ent_transaction_id e = txn_id txn] = es" using es_id by (simp add: filter_id_conv)
    ultimately show ?thesis by (simp add: entries_of_def d' es d0)
  qed
  moreover have "txn_type txn = ty" "txn_reference_id txn = ref" using post by (simp_all add: posted_def)
  ultimately have "announced d' txn ev" using m by (intro new) (simp add: booked_def)
  moreover have "announced d' x e" if "x \<in> set (ledger_transactions d)" "announced d x e" for x e
  proof (rule announced_kept[OF that(2)])
    have "txn_id x \<noteq> txn_id txn" using that(1) fresh by (metis image_eqI)
    then have "[e \<leftarrow> es. ent_transaction_id e = txn_id x] = []" using es_id by (auto simp: filter_empty_conv)
    then show "entries_of d' x = entries_of d x" by (simp add: entries_of_def d' es d0)
    show "rows_kept d d'" using kept f(2,3) by (simp add: rows_kept_def d')
  qed
  then have "list_all2 (announced d') (ledger_transactions d) (outbox d)"
    using assms(1) by (auto simp: list_all2_conv_all_nth)
  ultimately show ?thesis using f(5,8) by (simp add: d' d0 list_all2_appendI)
qed

section \<open>The movements of the services\<close>

lemma payment_events_append [simp]:
  "payment_events pid (evs @ evs') = payment_events pid evs @ payment_events pid evs'"
  by (simp add: payment_events_def)

lemma refund_events_append [simp]: "refund_events (evs @ evs') = refund_events evs @ refund_events evs'"
  by (simp add: refund_events_def)

lemma told_cong:
  assumes "payments d' = payments d" and "refunds d' = refunds d" and "ledger_transactions d' = ledger_transactions d"
    and "ledger_entries d' = ledger_entries d" and "outbox d' = outbox d"
  shows "told d' = told d"
proof -
  have imp: "announced b txn ev" if "announced a txn ev" "payments b = payments a" "refunds b = refunds a"
      "ledger_entries b = ledger_entries a" for a b txn ev
    using that by (intro announced_kept[OF that(1)]) (auto simp: rows_kept_def entries_of_def same_terms_def)
  have "announced d' = announced d" using imp[of d _ _ d'] imp[of d' _ _ d] assms by (auto simp: fun_eq_iff)
  with assms show ?thesis by (simp add: told_def)
qed

text \<open>A phase of a payment: the rows \<open>ps\<close> instead of the payments, one transaction, one event.\<close>

lemma told_phase:
  assumes "told d" and con: "ledger_entries_ok d"
    and tr: "transitioned ty pid postings event payload (d\<lparr>payments := ps\<rparr>) d'"
    and kept: "\<And>i p. row_of pay_id i (payments d) = Some p \<Longrightarrow> \<exists>q. row_of pay_id i ps = Some q \<and> same_terms p q"
    and others: "\<And>q. q \<in> set ps \<Longrightarrow> pay_id q \<noteq> pid \<Longrightarrow> q \<in> set (payments d)"
    and own: "\<And>q. q \<in> set ps \<Longrightarrow> pay_id q = pid \<Longrightarrow> payment_events pid (outbox d) @ [event] = story (pay_status q)"
    and new: "\<And>txn ev. payments d' = ps \<Longrightarrow> booked d' txn ty pid postings \<Longrightarrow>
      tells ev ''payment'' pid event payload \<Longrightarrow> announced d' txn ev"
  shows "told d'"
proof -
  from tr obtain txn ev d1 where post: "posted ty pid postings txn (d\<lparr>payments := ps\<rparr>) d1"
    and d': "d' = d1\<lparr>outbox := outbox d1 @ [ev]\<rparr>" and ev: "tells ev ''payment'' pid event payload"
    by (auto simp: transitioned_def tells_def)
  have pays: "payments d' = ps" and rf: "refunds d' = refunds d" using transitioned_frame(2,3)[OF tr] by simp_all
  have ob: "outbox d' = outbox d @ [ev]" using posted_frame(5)[OF post] by (simp add: d')
  have "list_all2 (announced d') (ledger_transactions d') (outbox d')"
  proof (rule announced_append[OF _ con post d'])
    show "list_all2 (announced d) (ledger_transactions d) (outbox d)" using assms(1) by (simp add: told_def)
    show "rows_kept d (d\<lparr>payments := ps\<rparr>)" using kept by (simp add: rows_kept_def)
    show "announced d' txn ev" if "booked d' txn ty pid postings" using new[OF pays that ev] .
  qed simp_all
  moreover have "payment_events (pay_id q) (outbox d') = story (pay_status q)" if "q \<in> set (payments d')" for q
  proof (cases "pay_id q = pid")
    case True
    with ev own[of q] that pays show ?thesis by (simp add: ob payment_events_def tells_def)
  next
    case False
    with ev have "payment_events (pay_id q) [ev] = []" by (simp add: payment_events_def tells_def)
    with others[of q] that pays False assms(1) show ?thesis by (simp add: ob told_def)
  qed
  moreover have "refund_events (outbox d') = map rfd_id (refunds d')"
    using assms(1) ev by (simp add: ob rf told_def) (simp add: refund_events_def tells_def)
  ultimately show ?thesis by (simp add: told_def)
qed

lemma set_row_kept:
  assumes "row_of pay_id pid ps = Some p" and "same_terms p q" and "row_of pay_id i ps = Some r"
  shows "\<exists>q'. row_of pay_id i (set_row pay_id pid (\<lambda>_. q) ps) = Some q' \<and> same_terms r q'"
proof (cases "i = pid")
  case True
  have "pay_id p = pid" using assms(1) by (auto dest: row_of_SomeD)
  with True assms show ?thesis using row_of_replaced[OF assms(1), of q] by (simp add: same_terms_def)
next
  case False
  have "pay_id q = pid" using assms(1,2) by (auto dest: row_of_SomeD simp: same_terms_def)
  then have "row_of pay_id i (set_row pay_id pid (\<lambda>_. q) ps) = Some r" using row_of_other[OF False, of pay_id q ps] assms(3) by simp
  then show ?thesis by (simp add: same_terms_def)
qed

lemma told_resolve:
  assumes "told (db s)" and con: "constraints (db s)" and "pending s = []"
    and run: "resolve pid a s = (Inr q, t)"
    and p: "row_of pay_id pid (payments (db s)) = Some p" "pay_status p \<in> {PaymentStatus.PROCESSING, PaymentStatus.AUTHORIZED}"
  shows "told (db t)"
proof -
  have led: "ledger_entries_ok (db s)" using con by (simp add: constraints_def)
  have pid: "pay_id p = pid" "p \<in> set (payments (db s))" using p(1) by (auto dest: row_of_SomeD)
  have evs: "payment_events pid (outbox (db s)) = [''payment.processing'']"
    using assms(1) pid p(2) by (auto simp: told_def)
  have rows: "q' \<in> set (payments (db s))"
    if "q' \<in> set (set_row pay_id pid (\<lambda>_. q) (payments (db s)))" "pay_id q' \<noteq> pid" "pay_id q = pid" for q'
    using that by (auto dest!: in_set_row)
  have mine: "q' = q" if "q' \<in> set (set_row pay_id pid (\<lambda>_. q) (payments (db s)))" "pay_id q' = pid" for q'
    using that by (auto simp: set_row_def)
  show ?thesis
  proof (cases "ar_outcome a")
    case CAPTURED
    with run have "settle pid (case ar_psp_reference a of None \<Rightarrow> [] | Some r \<Rightarrow> r) s = (Inr q, t)" by (simp add: resolve_def)
    then obtain p' n where "row_of pay_id pid (payments (db s)) = Some p'"
      and q: "q = p'\<lparr>pay_status := PaymentStatus.SUCCEEDED, pay_psp_reference := Some (case ar_psp_reference a of None \<Rightarrow> [] | Some r \<Rightarrow> r),
        pay_version := pay_version p' + 1, pay_updated_at := n\<rparr>"
      and tr: "transitioned TransactionType.PAYMENT pid
        (transfer PSP_SUSPENSE_ACCOUNT_ID (pay_payee_account p') (pay_amount p')) ''payment.succeeded''
        (succeeded_payload q) ((db s)\<lparr>payments := set_row pay_id pid (\<lambda>_. q) (payments (db s))\<rparr>) (db t)"
      using assms(3) by (rule settle_Inr)
    then have pp: "p' = p" and st: "same_terms p q" using p(1) by (simp_all add: same_terms_def)
    have idq: "pay_id q = pid" and sq: "story (pay_status q) = [''payment.processing'', ''payment.succeeded'']"
      by (simp_all add: q pp pid)
    show ?thesis
    proof (rule told_phase[OF assms(1) led tr])
      fix txn ev
      assume a: "payments (db t) = set_row pay_id pid (\<lambda>_. q) (payments (db s))"
        "booked (db t) txn TransactionType.PAYMENT pid (transfer PSP_SUSPENSE_ACCOUNT_ID (pay_payee_account p') (pay_amount p'))"
        "tells ev ''payment'' pid ''payment.succeeded'' (succeeded_payload q)"
      have "row_of pay_id pid (payments (db t)) = Some q"
        unfolding a(1) by (rule row_of_replaced[OF p(1)]) (simp add: q pp pid)
      then show "announced (db t) txn ev"
        by (rule announced.Settled[where ref = "case ar_psp_reference a of None \<Rightarrow> [] | Some r \<Rightarrow> r"])
          (use a(2,3) in \<open>simp_all add: q pp succeeded_payload_def failed_payload_def\<close>)
    next
      show "payment_events pid (outbox (db s)) @ [''payment.succeeded''] = story (pay_status q')"
        if "q' \<in> set (set_row pay_id pid (\<lambda>_. q) (payments (db s)))" "pay_id q' = pid" for q'
        using mine[OF that] evs sq by simp
    qed (use set_row_kept[OF p(1) st] rows[OF _ _ idq] in auto)
  next
    case DECLINED
    with run have "reverse pid s = (Inr q, t)" by (simp add: resolve_def)
    then obtain p' n where "row_of pay_id pid (payments (db s)) = Some p'"
      and q: "q = p'\<lparr>pay_status := PaymentStatus.FAILED, pay_version := pay_version p' + 1, pay_updated_at := n\<rparr>"
      and tr: "transitioned TransactionType.REVERSAL pid
        (transfer PSP_SUSPENSE_ACCOUNT_ID (pay_payer_account p') (pay_amount p')) ''payment.failed''
        (failed_payload q) ((db s)\<lparr>payments := set_row pay_id pid (\<lambda>_. q) (payments (db s))\<rparr>) (db t)"
      using assms(3) by (rule reverse_Inr)
    then have pp: "p' = p" and st: "same_terms p q" using p(1) by (simp_all add: same_terms_def)
    have idq: "pay_id q = pid" and sq: "story (pay_status q) = [''payment.processing'', ''payment.failed'']"
      by (simp_all add: q pp pid)
    show ?thesis
    proof (rule told_phase[OF assms(1) led tr])
      fix txn ev
      assume a: "payments (db t) = set_row pay_id pid (\<lambda>_. q) (payments (db s))"
        "booked (db t) txn TransactionType.REVERSAL pid (transfer PSP_SUSPENSE_ACCOUNT_ID (pay_payer_account p') (pay_amount p'))"
        "tells ev ''payment'' pid ''payment.failed'' (failed_payload q)"
      have "row_of pay_id pid (payments (db t)) = Some q"
        unfolding a(1) by (rule row_of_replaced[OF p(1)]) (simp add: q pp pid)
      then show "announced (db t) txn ev"
        by (rule announced.Reversed) (use a(2,3) in \<open>simp_all add: q pp succeeded_payload_def failed_payload_def\<close>)
    next
      show "payment_events pid (outbox (db s)) @ [''payment.failed''] = story (pay_status q')"
        if "q' \<in> set (set_row pay_id pid (\<lambda>_. q) (payments (db s)))" "pay_id q' = pid" for q'
        using mine[OF that] evs sq by simp
    qed (use set_row_kept[OF p(1) st] rows[OF _ _ idq] in auto)
  next
    case PENDING
    with run have "await_webhook pid (ar_psp_reference a) s = (Inr q, t)" by (simp add: resolve_def)
    then obtain p' n where "row_of pay_id pid (payments (db s)) = Some p'"
      and q: "q = p'\<lparr>pay_status := PaymentStatus.AUTHORIZED, pay_psp_reference := ar_psp_reference a, pay_updated_at := n\<rparr>"
      and t: "db t = (db s)\<lparr>payments := set_row pay_id pid (\<lambda>_. q) (payments (db s))\<rparr>" by (rule await_webhook_Inr)
    then have pp: "p' = p" and st: "same_terms p q" using p(1) by (simp_all add: same_terms_def)
    have "rows_kept (db s) (db t)" using set_row_kept[OF p(1) st] by (simp add: rows_kept_def t)
    then have "announced (db t) x e" if "announced (db s) x e" for x e
      using that by (intro announced_kept[OF that]) (simp_all add: entries_of_def t)
    then have "list_all2 (announced (db t)) (ledger_transactions (db s)) (outbox (db s))"
      using assms(1) by (auto simp: told_def elim: list_all2_mono)
    moreover have "payment_events (pay_id q') (outbox (db s)) = story (pay_status q')" if "q' \<in> set (payments (db t))" for q'
      using that rows[of q'] mine[of q'] evs assms(1) pid st by (cases "pay_id q' = pid") (auto simp: t q pp told_def same_terms_def)
    ultimately show ?thesis using assms(1) by (simp add: told_def t)
  qed
qed

section \<open>The transactions of the services\<close>

lemma transaction_told:
  assumes "transaction body s = (r, t)" and "told (db s)"
    and "\<And>x t1. r = Inr x \<Longrightarrow> body (s\<lparr>pending := []\<rparr>) = (Inr x, t1) \<Longrightarrow> t = flushed t1 \<Longrightarrow> told (db t)"
  shows "told (db t)"
proof (cases r)
  case (Inl e)
  with assms(1,2) show ?thesis by (simp add: transaction_Inl_db)
next
  case (Inr x)
  from assms(1)[unfolded Inr] obtain t1 where "body (s\<lparr>pending := []\<rparr>) = (Inr x, t1)" "t = flushed t1"
    by (rule transaction_Inr)
  with assms(3)[OF Inr] show ?thesis by blast
qed

lemma told_hold:
  assumes tx: "transaction (create_hold env k req pid) s = (r, t)" and "told (db s)" and "constraints (db s)"
  shows "told (db t)"
proof (cases "\<exists>p. r = Inr (Inr p)")
  case False
  have "db t = db s"
  proof (cases r)
    case (Inl e)
    with tx show ?thesis by (simp add: transaction_Inl_db)
  next
    case (Inr x)
    with False obtain c b where "r = Inr (Inl (c, b))" by (cases x) auto
    with tx show ?thesis using create_hold_replay(1)[of env k req pid s c b t] by simp
  qed
  with assms(2) show ?thesis by simp
next
  case True
  then obtain p where r: "r = Inr (Inr p)" by blast
  from tx[unfolded r] obtain rec n u where p: "p = (new_payment pid req n u)\<lparr>pay_status := PaymentStatus.PROCESSING\<rparr>"
    and tr0: "transitioned TransactionType.PAYMENT pid
      (transfer (req_payerAccountId req) PSP_SUSPENSE_ACCOUNT_ID (req_amount req)) ''payment.processing''
      (processing_payload p) ((db s)\<lparr>idempotency_keys := idempotency_keys (db s) @ [rec],
        payments := payments (db s) @ [p]\<rparr>) (db t)" by (rule create_hold_new)
  let ?d = "(db s)\<lparr>idempotency_keys := idempotency_keys (db s) @ [rec]\<rparr>"
  have pid: "pay_id p = pid" by (simp add: p new_payment_def)
  have stp: "story (pay_status p) = [''payment.processing'']" by (simp add: p)
  have "distinct (map pay_id (payments (db t)))" using transitioned_frame(7)[OF tr0] by (simp add: constraint_defs)
  then have new: "pid \<notin> pay_id ` set (payments (db s))" using transitioned_frame(2)[OF tr0] pid by simp
  have none: "payment_events pid (outbox (db s)) = []"
  proof -
    have "obx_aggregate_id ev \<noteq> pid" if "ev \<in> set (outbox (db s))" "obx_aggregate_type ev = ''payment''" for ev
    proof -
      from assms(2) that(1) obtain txn where "announced (db s) txn ev"
        by (auto simp: told_def list_all2_conv_all_nth in_set_conv_nth)
      from announced_id[OF this that(2)] new show ?thesis by auto
    qed
    then show ?thesis by (auto simp: payment_events_def filter_empty_conv)
  qed
  have td: "told ?d" using assms(2) told_cong[of ?d "db s"] by simp
  have led: "ledger_entries_ok ?d"
    using assms(3) by (simp add: constraints_def ledger_entries_ok_def account_ids_def)
  have tr: "transitioned TransactionType.PAYMENT pid
      (transfer (pay_payer_account p) PSP_SUSPENSE_ACCOUNT_ID (pay_amount p)) ''payment.processing''
      (processing_payload p) (?d\<lparr>payments := payments (db s) @ [p]\<rparr>) (db t)"
    using tr0 by (simp add: p new_payment_def)
  show ?thesis
  proof (rule told_phase[OF td led tr])
    fix txn ev
    assume a: "payments (db t) = payments (db s) @ [p]"
      "booked (db t) txn TransactionType.PAYMENT pid (transfer (pay_payer_account p) PSP_SUSPENSE_ACCOUNT_ID (pay_amount p))"
      "tells ev ''payment'' pid ''payment.processing'' (processing_payload p)"
    have "row_of pay_id pid (payments (db t)) = Some p"
      using new row_of_None_iff[of pay_id pid "payments (db s)"] pid by (simp add: a(1) row_of_append)
    then show "announced (db t) txn ev" by (rule announced.Held) (use a(2,3) in \<open>simp_all add: p\<close>)
  next
    show "payment_events pid (outbox ?d) @ [''payment.processing''] = story (pay_status q)"
      if "q \<in> set (payments (db s) @ [p])" "pay_id q = pid" for q
      using that new none stp by auto
  qed (use pid in \<open>auto simp: row_of_append same_terms_def\<close>)
qed

lemma told_settle:
  assumes tx: "transaction (create_settle env k req pid a) s = (r, t)" and "told (db s)" and "constraints (db s)"
    and p: "row_of pay_id pid (payments (db s)) = Some p" "pay_status p = PaymentStatus.PROCESSING"
  shows "told (db t)"
proof (rule transaction_told[OF tx assms(2)])
  fix x t1
  assume "create_settle env k req pid a (s\<lparr>pending := []\<rparr>) = (Inr x, t1)" and t: "t = flushed t1"
  then obtain q s2 u where res: "resolve pid a (s\<lparr>pending := []\<rparr>) = (Inr q, s2)"
    and comp: "complete (req_merchantId req) k (pay_id q) 201 (dump_payment env (to_response q)) s2 = (Inr u, t1)"
    by (auto simp: create_settle_def and_then_Inr_iff Let_def)
  have row: "row_of pay_id pid (payments (db (s\<lparr>pending := []\<rparr>))) = Some p" using p(1) by simp
  have "told (db s2)" by (rule told_resolve[OF _ _ _ res row]) (use assms(2,3) p(2) in simp_all)
  moreover have "pending s2 = []" using res by (rule resolve_Inr) simp_all
  ultimately show "told (db t)"
    using comp told_cong[of "db t" "db s2"] unfolding t
    by (auto simp: complete_def select_idempotency_def flushed_def split: option.splits)
qed

lemma told_webhook:
  assumes "handle_webhook we raw x y s = (r, t)" and "told (db s)" and "constraints (db s)"
  shows "told (db t)"
proof -
  have tx: "transaction (handle we raw (chosen_signature x y)) s = (r, t)" using assms(1) by (simp add: handle_webhook_def)
  show ?thesis
  proof (rule transaction_told[OF tx assms(2)])
    fix u t1
    assume "handle we raw (chosen_signature x y) (s\<lparr>pending := []\<rparr>) = (Inr u, t1)" and t: "t = flushed t1"
    from this(1) obtain data ev s1 where he: "handle_event raw ev s1 = (Inr u, t1)" and sd: "same_data (s\<lparr>pending := []\<rparr>) s1"
      by (rule handle_Inr)
    have d1: "db s1 = db s" "pending s1 = []" using sd by (simp_all add: same_data_def)
    obtain eid ty ref where ev: "ev = (eid, ty, ref)" by (cases ev)
    have "told (db t1) \<and> pending t1 = []"
    proof (cases rule: handle_event_Inr[OF he[unfolded ev] d1(2), case_names seen new])
      case (seen e ev)
      then show ?thesis using assms(2) d1 by simp
    next
      case (new e wev s2)
      have t2: "told (db s2)" using assms(2) d1 told_cong[of "db s2" "db s"] new(5) by simp
      show ?thesis
      proof (cases rule: transition_payment_Inr[OF new(8), case_names idle resolved])
        case idle
        then show ?thesis using t2 new(6) by simp
      next
        case (resolved r p a q)
        have "pay_status p = PaymentStatus.AUTHORIZED" using resolved(3) by (simp add: awaiting_def)
        then have "told (db t1)"
          by (intro told_resolve[OF t2 new(7,6) resolved(5) awaiting_row[OF resolved(3) new(7)]]) simp
        moreover have "pending t1 = []" using resolved(5) new(6) by (rule resolve_Inr) simp_all
        ultimately show ?thesis by simp
      qed
    qed
    then show "told (db t)" by (simp add: t flushed_def)
  qed
qed

lemma told_refund:
  assumes "process_refund env k pid x s = (r, t)" and "told (db s)" and "constraints (db s)" and "codec_ok env"
  shows "told (db t)"
proof (cases "RefundRequest_valid x")
  case False
  with assms(1,2) show ?thesis by (simp add: process_refund_def raise_def)
next
  case True
  with assms(1) have tx: "transaction (refund env k pid x) s = (r, t)" by (simp add: process_refund_def)
  consider e where "r = Inl e" | y where "r = Inr y" by (cases r) auto
  then show ?thesis
  proof cases
    case 1
    with tx assms(2) show ?thesis by (simp add: transaction_Inl_db)
  next
    case (2 y)
    show ?thesis
    proof (cases "refund_key (db s) k = Unused")
      case False
      with tx 2 assms(2) show ?thesis using refund_known_key[of env k pid x s y t] by simp
    next
      case un: True
      obtain c rr where y: "y = (c, rr)" by (cases y)
      from tx[unfolded 2 y] un assms(4) obtain p rf q d0 d1 where p: "row_of pay_id pid (payments (db s)) = Some p"
        and rb: "refund_booked p x rf q d0 d1" and dt: "db t = d1\<lparr>idempotency_keys := idempotency_keys (db t)\<rparr>"
        and g: "refund_guard p x = None"
        and d0: "d0 = (db s)\<lparr>idempotency_keys := idempotency_keys d0\<rparr>" by (rule refund_Inr)
      have f0: "payments d0 = payments (db s)" "refunds d0 = refunds (db s)" "outbox d0 = outbox (db s)"
        "ledger_transactions d0 = ledger_transactions (db s)" "ledger_entries d0 = ledger_entries (db s)"
        "account_ids d0 = account_ids (db s)" by (subst d0, simp add: account_ids_def)+
      have td: "told d0" using assms(2) told_cong[of d0 "db s"] f0 by simp
      have led: "ledger_entries_ok d0" using assms(3) by (simp add: constraints_def ledger_entries_ok_def f0)
      have row: "row_of pay_id pid (payments d0) = Some p" using p f0 by simp
      note e = refund_booked_effect[OF rb row]
      from rb obtain txn b ev n where q: "q = refunded_payment p x n" and rf: "rfd_payment_id rf = pay_id p" "rfd_amount rf = x"
        and post: "posted TransactionType.REFUND (rfd_id rf) (transfer (pay_payee_account p) (pay_payer_account p) x) txn
          (d0\<lparr>payments := set_row pay_id (pay_id p) (\<lambda>_. q) (payments d0), refunds := refunds d0 @ [rf]\<rparr>) b"
        and ev: "tells ev ''refund'' (rfd_id rf) ''refund.completed'' (refund_event_payload rf)"
        and d1: "d1 = b\<lparr>outbox := outbox b @ [ev]\<rparr>" by (auto simp: refund_booked_def tells_def)
      have ob: "outbox d1 = outbox d0 @ [ev]" using posted_frame(5)[OF post] by (simp add: d1)
      have "distinct (map rfd_id (refunds d1))" using posted_constraints[OF post] by (simp add: d1 constraint_defs)
      then have new: "row_of rfd_id (rfd_id rf) (refunds d0) = None" using e(5) by (simp add: row_of_None_iff)
      have "list_all2 (announced d1) (ledger_transactions d1) (outbox d1)"
      proof (rule announced_append[OF _ led post d1])
        show "list_all2 (announced d0) (ledger_transactions d0) (outbox d0)" using td by (simp add: told_def)
        show "rows_kept d0 (d0\<lparr>payments := set_row pay_id (pay_id p) (\<lambda>_. q) (payments d0), refunds := refunds d0 @ [rf]\<rparr>)"
          using set_row_kept[OF row e(10)] e(9) by (simp add: rows_kept_def row_of_append)
        show "announced d1 txn ev" if "booked d1 txn TransactionType.REFUND (rfd_id rf) (transfer (pay_payee_account p) (pay_payer_account p) x)"
        proof (rule announced.Refunded)
          show "row_of rfd_id (rfd_id rf) (refunds d1) = Some rf" using new by (simp add: e(5) row_of_append)
          show "row_of pay_id (rfd_payment_id rf) (payments d1) = Some q" using e(4,9) rf by simp
        qed (use that ev rf e(10) in \<open>simp_all add: same_terms_def\<close>)
      qed simp_all
      moreover have "payment_events (pay_id q') (outbox d1) = story (pay_status q')" if "q' \<in> set (payments d1)" for q'
      proof -
        have "payment_events i [ev] = []" for i using ev by (simp add: payment_events_def tells_def)
        moreover have "payment_events (pay_id q') (outbox d0) = story (pay_status q')"
        proof (cases "pay_id q' = pid")
          case False
          with that e(6,9,10) have "q' \<in> set (payments d0)" by (auto dest!: in_set_row simp: same_terms_def)
          with td show ?thesis by (simp add: told_def)
        next
          case True
          then have "q' = q" using that e(6) by (auto simp: set_row_def)
          moreover have "payment_events pid (outbox d0) = story (pay_status p)"
            using td row_of_SomeD[OF row] by (auto simp: told_def)
          ultimately show ?thesis using True g by (auto simp: e(12) refund_guard_None)
        qed
        ultimately show ?thesis by (simp add: ob)
      qed
      moreover have "refund_events (outbox d1) = map rfd_id (refunds d1)"
        using td ev by (simp add: ob e(5) told_def) (simp add: refund_events_def tells_def)
      ultimately have "told d1" by (simp add: told_def)
      moreover have "payments (db t) = payments d1" "refunds (db t) = refunds d1" "outbox (db t) = outbox d1"
        "ledger_transactions (db t) = ledger_transactions d1" "ledger_entries (db t) = ledger_entries d1" by (subst dt, simp)+
      ultimately show ?thesis using told_cong[of "db t" d1] by simp
    qed
  qed
qed

lemma told_reverse_all:
  assumes "reverse_all ps c s = (Inr n, t)" and "pending s = []" and "told (db s)" and "constraints (db s)"
    and "distinct (map pay_id ps)" and "set ps \<subseteq> set (payments (db s))"
    and "\<forall>p \<in> set ps. pay_status p = PaymentStatus.AUTHORIZED"
  shows "told (db t) \<and> pending t = []"
  using assms
proof (induction ps arbitrary: c s)
  case Nil
  then show ?case by simp
next
  case (Cons p ps)
  from Cons.prems(1) obtain q s1 where rev: "reverse (pay_id p) s = (Inr q, s1)"
    and rest: "reverse_all ps (c + 1) s1 = (Inr n, t)" by (auto simp: and_then_Inr_iff)
  have d: "distinct (map pay_id (payments (db s)))" using Cons.prems(4) by (simp add: constraint_defs)
  have row: "row_of pay_id (pay_id p) (payments (db s)) = Some p" using Cons.prems(6) d by (intro row_of_in) simp_all
  have "told (db s1)"
    by (rule told_resolve[OF Cons.prems(3,4,2) rev[unfolded reverse_resolve] row]) (use Cons.prems(7) in simp)
  moreover from rev Cons.prems(2) have "pending s1 = [] \<and> constraints (db s1) \<and>
      payments (db s1) = set_row pay_id (pay_id p) (\<lambda>_. q) (payments (db s))"
    by (rule reverse_Inr) (simp add: transitioned_frame)
  moreover have "set ps \<subseteq> set (set_row pay_id (pay_id p) (\<lambda>_. q) (payments (db s)))"
    using Cons.prems(5,6) by (intro set_row_others) simp_all
  ultimately show ?case using Cons.IH[OF rest] Cons.prems(5,7) by simp
qed

lemma told_expire:
  assumes "transaction (expire_stale_holds m) s = (r, t)" and "told (db s)" and "constraints (db s)"
  shows "told (db t)"
proof (rule transaction_told[OF assms(1,2)])
  fix c t1
  let ?ps = "stale_payments (clock s (clock_reads s) - minutes m) (db s)"
  assume "expire_stale_holds m (s\<lparr>pending := []\<rparr>) = (Inr c, t1)" and t: "t = flushed t1"
  then have run: "reverse_all ?ps 0 (s\<lparr>pending := [], clock_reads := Suc (clock_reads s)\<rparr>) = (Inr c, t1)"
    by (auto simp: expire_stale_holds_def and_then_Inr_iff)
  have d: "distinct (map pay_id (payments (db s)))" using assms(3) by (simp add: constraint_defs)
  have "distinct (map pay_id ?ps)" unfolding stale_payments_def by (rule distinct_map_filter[OF d])
  moreover have "set ?ps \<subseteq> set (payments (db s))" "\<forall>p \<in> set ?ps. pay_status p = PaymentStatus.AUTHORIZED"
    by (auto simp: stale_payments_def)
  ultimately have "told (db t1) \<and> pending t1 = []" using assms(2,3) by (intro told_reverse_all[OF run]) simp_all
  then show "told (db t)" by (simp add: t flushed_def)
qed

lemma told_drain:
  assumes "drain_batch locked n s = (r, t)" and "told (db s)" and "constraints (db s)"
  shows "told (db t)"
proof -
  from assms(3) obtain now where db: "db t = (db s)\<lparr>outbox :=
      map (mark now (obx_id ` set (select_batch locked n (outbox (db s))))) (outbox (db s))\<rparr>"
    by (rule drain_batch_runs[where locked = locked and n = n]) (use assms(1) in simp)
  let ?f = "mark now (obx_id ` set (select_batch locked n (outbox (db s))))"
  have same: "obx_aggregate_type (?f ev) = obx_aggregate_type ev" "obx_aggregate_id (?f ev) = obx_aggregate_id ev"
    "obx_event_type (?f ev) = obx_event_type ev" "obx_payload (?f ev) = obx_payload ev" for ev by (simp_all add: mark_def)
  have "announced (db t) txn (?f ev)" if "announced (db s) txn ev" for txn ev
  proof -
    have "announced (db t) txn ev"
      using that by (rule announced_kept) (auto simp: rows_kept_def entries_of_def db same_terms_def)
    then show ?thesis by (auto simp: announced.simps tells_def same)
  qed
  then have "list_all2 (announced (db t)) (ledger_transactions (db s)) (map ?f (outbox (db s)))"
    using assms(2) by (auto simp: told_def list_all2_conv_all_nth)
  moreover have "payment_events i (map ?f evs) = payment_events i evs" "refund_events (map ?f evs) = refund_events evs" for i evs
    by (simp_all add: payment_events_def refund_events_def filter_map comp_def same)
  ultimately show ?thesis using assms(2) by (simp add: told_def db)
qed

section \<open>The engine\<close>

lemma step_told:
  assumes "step env we psp e e'" and "engine_ok env psp e" and "told (tables e)"
  shows "told (tables e')"
proof -
  have base: "payment_provider psp" "codec_ok env" "constraints (tables e)" "flights_ok env (flights e) (tables e)"
    using assms(2) by (simp_all add: engine_ok_def)
  from assms(1) show ?thesis
  proof cases
    case (Hold req k pid p t)
    from Hold(3) obtain pid' r' where "transaction (create_hold env k req pid')
        ((store e)\<lparr>uuids_drawn := Suc (uuids_drawn (store e))\<rparr>) = (r', t)" by (rule begin_create_tx)
    from told_hold[OF this] base(3) assms(3) show ?thesis by (simp add: Hold(1))
  next
    case (Answer k req r t)
    from Answer(2) obtain pid' r' where "transaction (create_hold env k req pid')
        ((store e)\<lparr>uuids_drawn := Suc (uuids_drawn (store e))\<rparr>) = (r', t)" by (rule begin_create_tx)
    from told_hold[OF this] base(3) assms(3) show ?thesis by (simp add: Answer(1))
  next
    case (Settle pid f a s r t)
    have d: "db s = tables e" using payment_provider.authorize_db[OF base(1) Settle(3)] .
    have "flight_ok env (tables e) pid f" using base(4) Settle(2) by (simp add: flights_ok_def)
    then obtain p where "row_of pay_id pid (payments (db s)) = Some p" "pay_status p = PaymentStatus.PROCESSING"
      by (auto simp: flight_ok_def d)
    from told_settle[OF Settle(4) _ _ this] base(3) assms(3) show ?thesis by (simp add: Settle(1) d)
  next
    case (Gateway_error pid f x t)
    have "db t = tables e" using payment_provider.authorize_db[OF base(1) Gateway_error(3)] .
    with assms(3) show ?thesis by (simp add: Gateway_error(1))
  next
    case (Refund k pid x r t)
    from told_refund[OF Refund(2) assms(3) base(3,2)] show ?thesis by (simp add: Refund(1))
  next
    case (Webhook raw x y r t)
    from told_webhook[OF Webhook(2) assms(3) base(3)] show ?thesis by (simp add: Webhook(1))
  next
    case (Expire n r t)
    from told_expire[OF Expire(2) assms(3) base(3)] show ?thesis by (simp add: Expire(1))
  next
    case (Drain locked n r t)
    from told_drain[OF Drain(2) assms(3) base(3)] show ?thesis by (simp add: Drain(1))
  qed (use assms(3) in simp)
qed

lemma run_told:
  assumes "(step env we psp)\<^sup>*\<^sup>* e e'" and "engine_ok env psp e" and "told (tables e)"
  shows "told (tables e')"
  using assms
proof (induction rule: rtranclp_induct)
  case (step e1 e2)
  have "engine_ok env psp e1" using engine.reaches[OF step.hyps(1) step.prems(1)] ..
  with step show ?case using step_told by blast
qed

lemma sample_told: "told sample_db"
proof -
  have "ledger_transactions sample_db = []" "outbox sample_db = []" "payments sample_db = []" "refunds sample_db = []"
    by (simp_all add: sample_db_def upgrade_def empty_database_def)
  then show ?thesis by (simp add: told_def refund_events_def)
qed

text \<open>
  C8. Every movement of money is announced, once and truthfully. If the tables are told in the beginning,
  they are after every run: the transactions of the journal and the rows of the outbox are in one-to-one
  correspondence and in the same order; each transaction is a hold, a settlement, a reversal or a refund,
  with the type, the reference and the two entries that movement has for the accounts and the amount of its
  payment, and its event has the type, the aggregate and the payload for that movement; the events of a
  payment are exactly those its status stands for, and each row of the refunds has one event.
\<close>

theorem engine_announces_all:
  assumes "engine_ok env psp e" and "told (tables e)" and "(step env we psp)\<^sup>*\<^sup>* e e'"
  shows "told (tables e')"
  using run_told[OF assms(3,1,2)] .

theorem engine_announces_all_witness:
  "\<exists>e p. (step sample_env sample_webhook_env mock_authorize)\<^sup>*\<^sup>* (engine_at sample_world) e \<and> told (tables e) \<and>
     p \<in> set (payments (tables e)) \<and> payment_events (pay_id p) (outbox (tables e)) = story (pay_status p)"
proof -
  obtain e r where run: "(step sample_env sample_webhook_env mock_authorize)\<^sup>*\<^sup>* (engine_at sample_world) e"
    and c: "create sample_env mock_authorize ''k'' (sample_request 300) sample_world = (Inr (201, r), store e)"
    by (rule sample_run)
  from c mock.payment_provider_axioms sample_env_codec sample_key
  have "\<exists>q. row_of pay_id (pres_id r) (payments (tables e)) = Some q" by (rule create_Inr) blast
  then obtain p where p: "p \<in> set (payments (tables e))" by (auto dest: row_of_SomeD)
  have "told (tables e)" using engine_announces_all[OF sample_engine_ok(1) _ run] sample_told by simp
  with p run show ?thesis by (auto simp: told_def)
qed

end
