(* ===== verification/Schema.thy ===== *)
theory Schema
  imports Database
begin

text \<open>
  The schema as the migrations of \<open>alembic/versions\<close> build it and as \<open>app/domain/models.py\<close> declares it.
  A migration is a list of operations on a catalog of tables with their rows, indexes, functions and
  triggers; an operation that PostgreSQL refuses (a table that exists, a reference to a table that does
  not, a table another one refers to) is an error. \<open>store_of\<close> writes the rows of the model as rows of
  the catalog, and \<open>conforms\<close> is what column types, keys, checks and references demand of them.
\<close>

section \<open>Tables\<close>

datatype sql_type = UUID_type | String_type nat | DateTime_type | BigInteger_type | Integer_type | JSONB_type | Text_type

datatype server_default = No_default | Now | Zero

record column =
  col_name :: string
  col_type :: sql_type
  col_nullable :: bool
  col_primary_key :: bool
  col_references :: "(string \<times> string) option"
  col_cascade :: bool
  col_autoincrement :: bool
  col_default :: server_default

definition col :: "string \<Rightarrow> sql_type \<Rightarrow> column" where
  "col n ty = \<lparr>col_name = n, col_type = ty, col_nullable = False, col_primary_key = False, col_references = None,
     col_cascade = False, col_autoincrement = False, col_default = No_default\<rparr>"

definition primary :: "column \<Rightarrow> column" where
  "primary c = c\<lparr>col_primary_key := True\<rparr>"

definition nullable :: "column \<Rightarrow> column" where
  "nullable c = c\<lparr>col_nullable := True\<rparr>"

definition references :: "string \<Rightarrow> string \<Rightarrow> column \<Rightarrow> column" where
  "references t k c = c\<lparr>col_references := Some (t, k)\<rparr>"

definition cascade :: "column \<Rightarrow> column" where
  "cascade c = c\<lparr>col_cascade := True\<rparr>"

definition autoincrement :: "column \<Rightarrow> column" where
  "autoincrement c = c\<lparr>col_autoincrement := True\<rparr>"

definition default_now :: "column \<Rightarrow> column" where
  "default_now c = c\<lparr>col_default := Now\<rparr>"

definition default_zero :: "column \<Rightarrow> column" where
  "default_zero c = c\<lparr>col_default := Zero\<rparr>"

lemmas column_defs = col_def primary_def nullable_def references_def cascade_def autoincrement_def
  default_now_def default_zero_def

text \<open>\<open>CHECK (c >= 0)\<close> and \<open>CHECK (c > 0)\<close>, with the name of the constraint.\<close>

datatype sql_check = Check_non_negative string string | Check_positive string string

record table =
  tab_name :: string
  tab_columns :: "column list"
  tab_uniques :: "(string \<times> string list) list"
  tab_checks :: "sql_check list"

definition table_of :: "string \<Rightarrow> column list \<Rightarrow> table" where
  "table_of n cols = \<lparr>tab_name = n, tab_columns = cols, tab_uniques = [], tab_checks = []\<rparr>"

section \<open>Rows\<close>

datatype sql_value = V_null | V_uuid UUID | V_string string | V_int int | V_time int | V_json json

type_synonym sql_row = "(string \<times> sql_value) list"
type_synonym store = "(table \<times> sql_row list) list"

fun fits :: "sql_type \<Rightarrow> sql_value \<Rightarrow> bool" where
  "fits UUID_type (V_uuid _) = True"
| "fits (String_type n) (V_string s) = (length s \<le> n)"
| "fits Text_type (V_string _) = True"
| "fits DateTime_type (V_time _) = True"
| "fits BigInteger_type (V_int i) = int64 i"
| "fits Integer_type (V_int i) = int32 i"
| "fits JSONB_type (V_json _) = True"
| "fits _ _ = False"

definition value_ok :: "column \<Rightarrow> sql_value \<Rightarrow> bool" where
  "value_ok c v = (if v = V_null then col_nullable c else fits (col_type c) v)"

definition row_ok :: "column list \<Rightarrow> sql_row \<Rightarrow> bool" where
  "row_ok cols r \<longleftrightarrow> map fst r = map col_name cols \<and> list_all2 value_ok cols (map snd r)"

definition key_of :: "string list \<Rightarrow> sql_row \<Rightarrow> sql_value option list" where
  "key_of ns r = map (map_of r) ns"

fun check_holds :: "sql_check \<Rightarrow> sql_row \<Rightarrow> bool" where
  "check_holds (Check_non_negative _ c) r = (case map_of r c of Some (V_int i) \<Rightarrow> 0 \<le> i | _ \<Rightarrow> True)"
| "check_holds (Check_positive _ c) r = (case map_of r c of Some (V_int i) \<Rightarrow> 0 < i | _ \<Rightarrow> True)"

definition primary_key :: "table \<Rightarrow> string list" where
  "primary_key t = map col_name (filter col_primary_key (tab_columns t))"

abbreviation entry_name :: "table \<times> sql_row list \<Rightarrow> string" where
  "entry_name e \<equiv> tab_name (fst e)"

definition rows_of :: "store \<Rightarrow> string \<Rightarrow> sql_row list" where
  "rows_of st n = (case row_of entry_name n st of None \<Rightarrow> [] | Some (_, rows) \<Rightarrow> rows)"

definition reference_ok :: "store \<Rightarrow> column \<Rightarrow> sql_row \<Rightarrow> bool" where
  "reference_ok st c r = (case col_references c of None \<Rightarrow> True
     | Some (t, k) \<Rightarrow> map_of r (col_name c) = Some V_null \<or>
         map_of r (col_name c) \<in> (\<lambda>r'. map_of r' k) ` set (rows_of st t))"

definition table_ok :: "store \<Rightarrow> table \<Rightarrow> sql_row list \<Rightarrow> bool" where
  "table_ok st t rows \<longleftrightarrow> list_all (row_ok (tab_columns t)) rows \<and> distinct (map (key_of (primary_key t)) rows) \<and>
     list_all (\<lambda>(_, u). distinct (map (key_of u) rows)) (tab_uniques t) \<and>
     list_all (\<lambda>c. list_all (check_holds c) rows) (tab_checks t) \<and>
     list_all (\<lambda>c. list_all (reference_ok st c) rows) (tab_columns t)"

definition conforms :: "store \<Rightarrow> bool" where
  "conforms st \<longleftrightarrow> list_all (\<lambda>(t, rows). table_ok st t rows) st"

section \<open>Catalog operations\<close>

record catalog =
  cat_tables :: store
  cat_indexes :: "(string \<times> string \<times> string list \<times> string option) list"
  cat_functions :: "string list"
  cat_triggers :: "(string \<times> string \<times> string) list"

datatype schema_op =
    Create_table table
  | Create_index string string "string list" "string option"
  | Create_or_replace_function string
  | Create_constraint_trigger string string string
  | Insert_on_conflict_do_nothing string "sql_row list"
  | Drop_trigger_if_exists string string
  | Drop_function_if_exists string
  | Drop_table string

datatype catalog_error = DuplicateTable string | UndefinedTable string | UndefinedColumn string
  | DuplicateObject string | UndefinedFunction string | DependentObjects string | InvalidRow string

definition default_value :: "int \<Rightarrow> server_default \<Rightarrow> sql_value" where
  "default_value now d = (case d of No_default \<Rightarrow> V_null | Now \<Rightarrow> V_time now | Zero \<Rightarrow> V_int 0)"

definition complete_row :: "int \<Rightarrow> table \<Rightarrow> sql_row \<Rightarrow> sql_row" where
  "complete_row now t r = map (\<lambda>c. (col_name c, case map_of r (col_name c) of
     Some v \<Rightarrow> v | None \<Rightarrow> default_value now (col_default c))) (tab_columns t)"

definition conflicts :: "table \<Rightarrow> sql_row list \<Rightarrow> sql_row \<Rightarrow> bool" where
  "conflicts t rows r = list_ex (\<lambda>u. list_ex (\<lambda>r'. key_of u r' = key_of u r) rows) (primary_key t # map snd (tab_uniques t))"

definition insert_rows :: "int \<Rightarrow> table \<Rightarrow> sql_row list \<Rightarrow> sql_row list \<Rightarrow> sql_row list" where
  "insert_rows now t new rows = fold (\<lambda>r rows. let r' = complete_row now t r in
     if conflicts t rows r' then rows else rows @ [r']) new rows"

definition table_names :: "catalog \<Rightarrow> string list" where
  "table_names c = map entry_name (cat_tables c)"

definition refers_to :: "string \<Rightarrow> table \<Rightarrow> bool" where
  "refers_to n t = list_ex (\<lambda>c. map_option fst (col_references c) = Some n) (tab_columns t)"

definition undefined_reference :: "catalog \<Rightarrow> table \<Rightarrow> column option" where
  "undefined_reference c t = find (\<lambda>k. case col_references k of
     None \<Rightarrow> False | Some (u, _) \<Rightarrow> u \<notin> set (table_names c)) (tab_columns t)"

fun apply_op :: "int \<Rightarrow> schema_op \<Rightarrow> catalog \<Rightarrow> catalog_error + catalog" where
  "apply_op now (Create_table t) c =
     (if tab_name t \<in> set (table_names c) \<or> tab_name t \<in> fst ` set (cat_indexes c) then Inl (DuplicateTable (tab_name t))
      else case undefined_reference c t of
        Some k \<Rightarrow> Inl (UndefinedTable (fst (the (col_references k))))
      | None \<Rightarrow> Inr (c\<lparr>cat_tables := cat_tables c @ [(t, [])]\<rparr>))"
| "apply_op now (Create_index i n cols pred) c =
     (if i \<in> set (table_names c) \<or> i \<in> fst ` set (cat_indexes c) then Inl (DuplicateTable i)
      else case row_of entry_name n (cat_tables c) of None \<Rightarrow> Inl (UndefinedTable n)
      | Some (t, _) \<Rightarrow> (case find (\<lambda>k. k \<notin> set (map col_name (tab_columns t))) cols of
          Some k \<Rightarrow> Inl (UndefinedColumn k)
        | None \<Rightarrow> Inr (c\<lparr>cat_indexes := cat_indexes c @ [(i, n, cols, pred)]\<rparr>)))"
| "apply_op now (Create_or_replace_function f) c = Inr (c\<lparr>cat_functions := filter ((\<noteq>) f) (cat_functions c) @ [f]\<rparr>)"
| "apply_op now (Create_constraint_trigger g n f) c =
     (if n \<notin> set (table_names c) then Inl (UndefinedTable n)
      else if f \<notin> set (cat_functions c) then Inl (UndefinedFunction f)
      else if (g, n) \<in> (\<lambda>(g, n, _). (g, n)) ` set (cat_triggers c) then Inl (DuplicateObject g)
      else Inr (c\<lparr>cat_triggers := cat_triggers c @ [(g, n, f)]\<rparr>))"
| "apply_op now (Insert_on_conflict_do_nothing n new) c =
     (case row_of entry_name n (cat_tables c) of None \<Rightarrow> Inl (UndefinedTable n)
      | Some (t, rows) \<Rightarrow> let rows' = insert_rows now t new rows in
          if table_ok (set_row entry_name n (\<lambda>_. (t, rows')) (cat_tables c)) t rows'
          then Inr (c\<lparr>cat_tables := set_row entry_name n (\<lambda>_. (t, rows')) (cat_tables c)\<rparr>)
          else Inl (InvalidRow n))"
| "apply_op now (Drop_trigger_if_exists g n) c =
     Inr (c\<lparr>cat_triggers := filter (\<lambda>(h, m, _). (h, m) \<noteq> (g, n)) (cat_triggers c)\<rparr>)"
| "apply_op now (Drop_function_if_exists f) c =
     (if list_ex (\<lambda>(_, _, f'). f' = f) (cat_triggers c) then Inl (DependentObjects f)
      else Inr (c\<lparr>cat_functions := filter ((\<noteq>) f) (cat_functions c)\<rparr>))"
| "apply_op now (Drop_table n) c =
     (if n \<notin> set (table_names c) then Inl (UndefinedTable n)
      else if list_ex (\<lambda>(t, _). tab_name t \<noteq> n \<and> refers_to n t) (cat_tables c) then Inl (DependentObjects n)
      else Inr (c\<lparr>cat_tables := filter (\<lambda>e. entry_name e \<noteq> n) (cat_tables c),
             cat_indexes := filter (\<lambda>(_, m, _). m \<noteq> n) (cat_indexes c),
             cat_triggers := filter (\<lambda>(_, m, _). m \<noteq> n) (cat_triggers c)\<rparr>))"

fun apply_ops :: "int \<Rightarrow> schema_op list \<Rightarrow> catalog \<Rightarrow> catalog_error + catalog" where
  "apply_ops now [] c = Inr c"
| "apply_ops now (x # xs) c = (case apply_op now x c of Inl e \<Rightarrow> Inl e | Inr c' \<Rightarrow> apply_ops now xs c')"

section \<open>The first migration\<close>

definition accounts_table :: table where
  "accounts_table = (table_of ''accounts''
     [primary (col ''id'' UUID_type),
      col ''owner_type'' (String_type 50),
      col ''owner_id'' (String_type 255),
      col ''type'' (String_type 50),
      col ''currency'' (String_type 3),
      default_now (col ''created_at'' DateTime_type)])
     \<lparr>tab_uniques := [(''uq_accounts_owner_type_currency'', [''owner_type'', ''owner_id'', ''type'', ''currency''])]\<rparr>"

definition account_balances_table :: table where
  "account_balances_table = (table_of ''account_balances''
     [primary (cascade (references ''accounts'' ''id'' (col ''account_id'' UUID_type))),
      default_zero (col ''balance'' BigInteger_type),
      default_zero (col ''version'' BigInteger_type),
      default_now (col ''updated_at'' DateTime_type)])
     \<lparr>tab_checks := [Check_non_negative ''non_negative_balance'' ''balance'']\<rparr>"

definition ledger_transactions_table :: table where
  "ledger_transactions_table = table_of ''ledger_transactions''
     [primary (col ''id'' UUID_type),
      col ''type'' (String_type 50),
      col ''reference_id'' UUID_type,
      default_now (col ''created_at'' DateTime_type)]"

definition ledger_entries_table :: table where
  "ledger_entries_table = (table_of ''ledger_entries''
     [primary (autoincrement (col ''id'' BigInteger_type)),
      references ''ledger_transactions'' ''id'' (col ''transaction_id'' UUID_type),
      references ''accounts'' ''id'' (col ''account_id'' UUID_type),
      col ''direction'' (String_type 20),
      col ''amount'' BigInteger_type,
      default_now (col ''created_at'' DateTime_type)])
     \<lparr>tab_checks := [Check_positive ''positive_amount'' ''amount'']\<rparr>"

definition payments_table :: table where
  "payments_table = table_of ''payments''
     [primary (col ''id'' UUID_type),
      col ''merchant_id'' (String_type 255),
      references ''accounts'' ''id'' (col ''payer_account'' UUID_type),
      references ''accounts'' ''id'' (col ''payee_account'' UUID_type),
      col ''amount'' BigInteger_type,
      col ''currency'' (String_type 3),
      col ''status'' (String_type 50),
      nullable (col ''psp_reference'' (String_type 255)),
      default_zero (col ''refunded_amount'' BigInteger_type),
      default_zero (col ''version'' BigInteger_type),
      default_now (col ''created_at'' DateTime_type),
      default_now (col ''updated_at'' DateTime_type)]"

definition idempotency_keys_table :: table where
  "idempotency_keys_table = (table_of ''idempotency_keys''
     [primary (autoincrement (col ''id'' BigInteger_type)),
      col ''merchant_id'' (String_type 255),
      col ''idem_key'' (String_type 255),
      col ''request_hash'' (String_type 64),
      col ''status'' (String_type 50),
      nullable (col ''resource_id'' UUID_type),
      nullable (col ''response_code'' Integer_type),
      nullable (col ''response_body'' JSONB_type),
      default_now (col ''created_at'' DateTime_type)])
     \<lparr>tab_uniques := [(''uq_idempotency_merchant_key'', [''merchant_id'', ''idem_key''])]\<rparr>"

definition outbox_table :: table where
  "outbox_table = table_of ''outbox''
     [primary (col ''id'' UUID_type),
      col ''aggregate_type'' (String_type 100),
      col ''aggregate_id'' UUID_type,
      col ''event_type'' (String_type 100),
      col ''payload'' JSONB_type,
      default_now (col ''created_at'' DateTime_type),
      nullable (col ''published_at'' DateTime_type)]"

definition webhook_events_table :: table where
  "webhook_events_table = table_of ''webhook_events''
     [primary (col ''psp_event_id'' (String_type 255)),
      col ''payload'' Text_type,
      col ''status'' (String_type 50),
      default_now (col ''received_at'' DateTime_type)]"

definition upgrade_001 :: "schema_op list" where
  "upgrade_001 =
     [Create_table accounts_table,
      Create_table account_balances_table,
      Create_table ledger_transactions_table,
      Create_table ledger_entries_table,
      Create_index ''idx_entries_account_created'' ''ledger_entries'' [''account_id'', ''created_at''] None,
      Create_index ''idx_entries_txn'' ''ledger_entries'' [''transaction_id''] None,
      Create_table payments_table,
      Create_index ''idx_payments_status_created'' ''payments'' [''status'', ''created_at''] None,
      Create_index ''idx_payments_merchant'' ''payments'' [''merchant_id''] None,
      Create_table idempotency_keys_table,
      Create_table outbox_table,
      Create_index ''idx_outbox_unpublished'' ''outbox'' [''created_at''] (Some ''published_at IS NULL''),
      Create_table webhook_events_table,
      Create_or_replace_function ''assert_ledger_balanced'',
      Create_constraint_trigger ''trg_ledger_balanced'' ''ledger_entries'' ''assert_ledger_balanced'',
      Insert_on_conflict_do_nothing ''accounts''
        [[(''id'', V_uuid (UUID 1)), (''owner_type'', V_string ''SYSTEM''), (''owner_id'', V_string ''psp''),
          (''type'', V_string ''PSP_SUSPENSE''), (''currency'', V_string ''INR'')],
         [(''id'', V_uuid (UUID 2)), (''owner_type'', V_string ''SYSTEM''), (''owner_id'', V_string ''fees''),
          (''type'', V_string ''FEE_INCOME''), (''currency'', V_string ''INR'')]],
      Insert_on_conflict_do_nothing ''account_balances''
        [[(''account_id'', V_uuid (UUID 1)), (''balance'', V_int 0), (''version'', V_int 0)],
         [(''account_id'', V_uuid (UUID 2)), (''balance'', V_int 0), (''version'', V_int 0)]]]"

definition downgrade_001 :: "schema_op list" where
  "downgrade_001 =
     [Drop_trigger_if_exists ''trg_ledger_balanced'' ''ledger_entries'',
      Drop_function_if_exists ''assert_ledger_balanced'',
      Drop_table ''webhook_events'',
      Drop_table ''outbox'',
      Drop_table ''idempotency_keys'',
      Drop_table ''payments'',
      Drop_table ''ledger_entries'',
      Drop_table ''ledger_transactions'',
      Drop_table ''account_balances'',
      Drop_table ''accounts'']"

section \<open>The second migration\<close>

definition processed_events_table :: table where
  "processed_events_table = table_of ''processed_events''
     [primary (col ''event_id'' UUID_type),
      default_now (col ''processed_at'' DateTime_type)]"

definition refunds_table :: table where
  "refunds_table = (table_of ''refunds''
     [primary (col ''id'' UUID_type),
      references ''payments'' ''id'' (col ''payment_id'' UUID_type),
      col ''amount'' BigInteger_type,
      col ''status'' (String_type 50),
      default_now (col ''created_at'' DateTime_type)])
     \<lparr>tab_checks := [Check_positive ''positive_refund_amount'' ''amount'']\<rparr>"

definition upgrade_002 :: "schema_op list" where
  "upgrade_002 =
     [Create_table processed_events_table,
      Create_table refunds_table,
      Create_index ''idx_refunds_payment'' ''refunds'' [''payment_id''] None]"

definition downgrade_002 :: "schema_op list" where
  "downgrade_002 = [Drop_table ''refunds'', Drop_table ''processed_events'']"

lemmas table_defs = accounts_table_def account_balances_table_def ledger_transactions_table_def
  ledger_entries_table_def payments_table_def idempotency_keys_table_def outbox_table_def
  webhook_events_table_def processed_events_table_def refunds_table_def table_of_def

lemma tab_name_simps [simp]:
  "tab_name accounts_table = ''accounts''" "tab_name account_balances_table = ''account_balances''"
  "tab_name ledger_transactions_table = ''ledger_transactions''" "tab_name ledger_entries_table = ''ledger_entries''"
  "tab_name payments_table = ''payments''" "tab_name idempotency_keys_table = ''idempotency_keys''"
  "tab_name outbox_table = ''outbox''" "tab_name webhook_events_table = ''webhook_events''"
  "tab_name processed_events_table = ''processed_events''" "tab_name refunds_table = ''refunds''"
  by (simp_all add: table_defs)

section \<open>Rows of the model as rows of the catalog\<close>

text \<open>An enumeration is stored as the name of its member.\<close>

fun OwnerType_value :: "OwnerType \<Rightarrow> string" where
  "OwnerType_value USER = ''USER''"
| "OwnerType_value MERCHANT = ''MERCHANT''"
| "OwnerType_value SYSTEM = ''SYSTEM''"

fun AccountType_value :: "AccountType \<Rightarrow> string" where
  "AccountType_value USER_WALLET = ''USER_WALLET''"
| "AccountType_value MERCHANT_PAYABLE = ''MERCHANT_PAYABLE''"
| "AccountType_value PSP_SUSPENSE = ''PSP_SUSPENSE''"
| "AccountType_value FEE_INCOME = ''FEE_INCOME''"

fun Direction_value :: "Direction \<Rightarrow> string" where
  "Direction_value DEBIT = ''DEBIT''"
| "Direction_value CREDIT = ''CREDIT''"

fun TransactionType_value :: "TransactionType \<Rightarrow> string" where
  "TransactionType_value PAYMENT = ''PAYMENT''"
| "TransactionType_value REFUND = ''REFUND''"
| "TransactionType_value REVERSAL = ''REVERSAL''"
| "TransactionType_value FEE = ''FEE''"

fun WebhookStatus_value :: "WebhookStatus \<Rightarrow> string" where
  "WebhookStatus_value RECEIVED = ''RECEIVED''"
| "WebhookStatus_value PROCESSED = ''PROCESSED''"
| "WebhookStatus_value WebhookStatus.FAILED = ''FAILED''"

fun IdempotencyStatus_value :: "IdempotencyStatus \<Rightarrow> string" where
  "IdempotencyStatus_value IN_PROGRESS = ''IN_PROGRESS''"
| "IdempotencyStatus_value COMPLETED = ''COMPLETED''"

definition optional :: "('a \<Rightarrow> sql_value) \<Rightarrow> 'a option \<Rightarrow> sql_value" where
  "optional f x = (case x of None \<Rightarrow> V_null | Some a \<Rightarrow> f a)"

definition account_row :: "Account \<Rightarrow> sql_row" where
  "account_row a = [(''id'', V_uuid (acc_id a)), (''owner_type'', V_string (OwnerType_value (acc_owner_type a))),
     (''owner_id'', V_string (acc_owner_id a)), (''type'', V_string (AccountType_value (acc_type a))),
     (''currency'', V_string (acc_currency a)), (''created_at'', V_time (acc_created_at a))]"

definition balance_row :: "AccountBalance \<Rightarrow> sql_row" where
  "balance_row b = [(''account_id'', V_uuid (bal_account_id b)), (''balance'', V_int (bal_balance b)),
     (''version'', V_int (bal_version b)), (''updated_at'', V_time (bal_updated_at b))]"

definition transaction_row :: "LedgerTransaction \<Rightarrow> sql_row" where
  "transaction_row t = [(''id'', V_uuid (txn_id t)), (''type'', V_string (TransactionType_value (txn_type t))),
     (''reference_id'', V_uuid (txn_reference_id t)), (''created_at'', V_time (txn_created_at t))]"

definition entry_row :: "LedgerEntry \<Rightarrow> sql_row" where
  "entry_row e = [(''id'', V_int (ent_id e)), (''transaction_id'', V_uuid (ent_transaction_id e)),
     (''account_id'', V_uuid (ent_account_id e)), (''direction'', V_string (Direction_value (ent_direction e))),
     (''amount'', V_int (ent_amount e)), (''created_at'', V_time (ent_created_at e))]"

definition payment_row :: "Payment \<Rightarrow> sql_row" where
  "payment_row p = [(''id'', V_uuid (pay_id p)), (''merchant_id'', V_string (pay_merchant_id p)),
     (''payer_account'', V_uuid (pay_payer_account p)), (''payee_account'', V_uuid (pay_payee_account p)),
     (''amount'', V_int (pay_amount p)), (''currency'', V_string (pay_currency p)),
     (''status'', V_string (PaymentStatus_value (pay_status p))),
     (''psp_reference'', optional V_string (pay_psp_reference p)),
     (''refunded_amount'', V_int (pay_refunded_amount p)), (''version'', V_int (pay_version p)),
     (''created_at'', V_time (pay_created_at p)), (''updated_at'', V_time (pay_updated_at p))]"

definition refund_row :: "Refund \<Rightarrow> sql_row" where
  "refund_row r = [(''id'', V_uuid (rfd_id r)), (''payment_id'', V_uuid (rfd_payment_id r)),
     (''amount'', V_int (rfd_amount r)), (''status'', V_string (RefundStatus_value (rfd_status r))),
     (''created_at'', V_time (rfd_created_at r))]"

definition idempotency_row :: "IdempotencyRecord \<Rightarrow> sql_row" where
  "idempotency_row r = [(''id'', V_int (idem_id r)), (''merchant_id'', V_string (idem_merchant_id r)),
     (''idem_key'', V_string (idem_idem_key r)), (''request_hash'', V_string (idem_request_hash r)),
     (''status'', V_string (IdempotencyStatus_value (idem_status r))),
     (''resource_id'', optional V_uuid (idem_resource_id r)),
     (''response_code'', optional V_int (idem_response_code r)),
     (''response_body'', optional V_json (idem_response_body r)), (''created_at'', V_time (idem_created_at r))]"

definition outbox_row :: "Outbox \<Rightarrow> sql_row" where
  "outbox_row e = [(''id'', V_uuid (obx_id e)), (''aggregate_type'', V_string (obx_aggregate_type e)),
     (''aggregate_id'', V_uuid (obx_aggregate_id e)), (''event_type'', V_string (obx_event_type e)),
     (''payload'', V_json (obx_payload e)), (''created_at'', V_time (obx_created_at e)),
     (''published_at'', optional V_time (obx_published_at e))]"

definition webhook_row :: "WebhookEvent \<Rightarrow> sql_row" where
  "webhook_row e = [(''psp_event_id'', V_string (whk_psp_event_id e)), (''payload'', V_string (whk_payload e)),
     (''status'', V_string (WebhookStatus_value (whk_status e))), (''received_at'', V_time (whk_received_at e))]"

definition processed_row :: "ProcessedEvent \<Rightarrow> sql_row" where
  "processed_row e = [(''event_id'', V_uuid (pev_event_id e)), (''processed_at'', V_time (pev_processed_at e))]"

text \<open>The tables in the order the migrations create them.\<close>

definition store_of :: "database \<Rightarrow> store" where
  "store_of d =
     [(accounts_table, map account_row (accounts d)),
      (account_balances_table, map balance_row (account_balances d)),
      (ledger_transactions_table, map transaction_row (ledger_transactions d)),
      (ledger_entries_table, map entry_row (ledger_entries d)),
      (payments_table, map payment_row (payments d)),
      (idempotency_keys_table, map idempotency_row (idempotency_keys d)),
      (outbox_table, map outbox_row (outbox d)),
      (webhook_events_table, map webhook_row (webhook_events d)),
      (processed_events_table, map processed_row (processed_events d)),
      (refunds_table, map refund_row (refunds d))]"

lemmas row_defs = account_row_def balance_row_def transaction_row_def entry_row_def payment_row_def
  refund_row_def idempotency_row_def outbox_row_def webhook_row_def processed_row_def

section \<open>The schema demands the constraints of the model\<close>

lemma table_ok_cong:
  assumes "\<And>u n k. u \<in> set (tab_columns t) \<Longrightarrow> col_references u = Some (n, k) \<Longrightarrow> rows_of st n = rows_of st' n"
  shows "table_ok st t rows = table_ok st' t rows"
proof -
  have "reference_ok st u r = reference_ok st' u r" if "u \<in> set (tab_columns t)" for u r
    using assms[OF that] by (auto simp: reference_ok_def split: option.splits)
  then have "list_all (\<lambda>u. list_all (reference_ok st u) rows) (tab_columns t) =
      list_all (\<lambda>u. list_all (reference_ok st' u) rows) (tab_columns t)"
    by (simp add: list_all_iff)
  then show ?thesis by (simp add: table_ok_def)
qed

lemma distinct_map_code: "inj f \<Longrightarrow> (\<And>x. g x = f (h x)) \<Longrightarrow> distinct (map g xs) = distinct (map h xs)"
  by (induction xs) (auto simp: inj_def)

lemma distinct_key:
  assumes "inj v" and "\<And>x. map_of (row x) k = Some (v (f x))"
  shows "distinct (map (key_of [k]) (map row xs)) = distinct (map f xs)"
  unfolding map_map by (rule distinct_map_code[where f = "\<lambda>i. [Some (v i)]"])
    (use assms in \<open>auto simp: inj_def key_of_def\<close>)

lemma inj_sql_value: "inj V_uuid" "inj V_string" "inj V_int"
  by (simp_all add: inj_def)

lemma OwnerType_width [simp]: "length (OwnerType_value x) \<le> 50" by (cases x) simp_all
lemma AccountType_width [simp]: "length (AccountType_value x) \<le> 50" by (cases x) simp_all
lemma TransactionType_width [simp]: "length (TransactionType_value x) \<le> 50" by (cases x) simp_all
lemma Direction_width [simp]: "length (Direction_value x) \<le> 20" by (cases x) simp_all
lemma PaymentStatus_width [simp]: "length (PaymentStatus_value x) \<le> 50" by (cases x) simp_all
lemma RefundStatus_width [simp]: "length (RefundStatus_value x) \<le> 50" by (cases x) simp_all
lemma IdempotencyStatus_width [simp]: "length (IdempotencyStatus_value x) \<le> 50" by (cases x) simp_all
lemma WebhookStatus_width [simp]: "length (WebhookStatus_value x) \<le> 50" by (cases x) simp_all

lemma OwnerType_value_inj [simp]: "OwnerType_value x = OwnerType_value y \<longleftrightarrow> x = y"
  by (cases x; cases y) simp_all

lemma AccountType_value_inj [simp]: "AccountType_value x = AccountType_value y \<longleftrightarrow> x = y"
  by (cases x; cases y) simp_all

lemma table_ok_map:
  assumes "\<And>x. row_ok (tab_columns t) (row x) \<longleftrightarrow> R x"
    and "distinct (map (key_of (primary_key t)) (map row xs)) \<longleftrightarrow> K"
    and "list_all (\<lambda>(_, u). distinct (map (key_of u) (map row xs))) (tab_uniques t) \<longleftrightarrow> U"
    and "\<And>x. list_all (\<lambda>c. check_holds c (row x)) (tab_checks t) \<longleftrightarrow> C x"
    and "\<And>x. list_all (\<lambda>c. reference_ok st c (row x)) (tab_columns t) \<longleftrightarrow> F x"
  shows "table_ok st t (map row xs) \<longleftrightarrow> K \<and> U \<and> (\<forall>x\<in>set xs. F x \<and> R x \<and> C x)"
proof -
  have swap: "list_all (\<lambda>c. list_all (P c) (map row xs)) cs \<longleftrightarrow> (\<forall>x\<in>set xs. list_all (\<lambda>c. P c (row x)) cs)"
    for P :: "'c \<Rightarrow> sql_row \<Rightarrow> bool" and cs by (auto simp: list_all_iff)
  have rows: "list_all (row_ok (tab_columns t)) (map row xs) \<longleftrightarrow> (\<forall>x\<in>set xs. R x)"
    using assms(1) by (simp add: list_all_iff)
  show ?thesis unfolding table_ok_def assms(2,3) rows swap assms(4,5) by auto
qed

lemma referenced [simp]:
  "Some (V_uuid i) \<in> (\<lambda>r. map_of r ''id'') ` set (rows_of (store_of d) ''accounts'') \<longleftrightarrow> i \<in> account_ids d"
  "Some (V_uuid i) \<in> (\<lambda>r. map_of r ''id'') ` set (rows_of (store_of d) ''ledger_transactions'') \<longleftrightarrow>
     i \<in> txn_id ` set (ledger_transactions d)"
  "Some (V_uuid i) \<in> (\<lambda>r. map_of r ''id'') ` set (rows_of (store_of d) ''payments'') \<longleftrightarrow> i \<in> pay_id ` set (payments d)"
  by (auto simp: rows_of_def store_of_def table_defs account_ids_def account_row_def transaction_row_def payment_row_def
      image_comp comp_def)

lemmas table_simps = row_ok_def value_ok_def table_defs column_defs row_defs optional_def primary_key_def reference_ok_def

lemmas key_simps = distinct_key[OF inj_sql_value(1)] distinct_key[OF inj_sql_value(2)] distinct_key[OF inj_sql_value(3)]

lemma accounts_conform: "table_ok (store_of d) accounts_table (map account_row (accounts d)) \<longleftrightarrow> accounts_ok d"
proof -
  have key: "distinct (map (key_of (primary_key accounts_table)) (map account_row xs)) = distinct (map acc_id xs)" for xs
    by (simp add: table_simps key_simps(1)[of account_row _ acc_id] del: map_map)
  have uq: "distinct (map (key_of [''owner_type'', ''owner_id'', ''type'', ''currency'']) (map account_row xs)) =
      distinct (map (\<lambda>a. (acc_owner_type a, acc_owner_id a, acc_type a, acc_currency a)) xs)" for xs
    unfolding map_map by (rule distinct_map_code[where f = "\<lambda>(ow, i, ty, cu). [Some (V_string (OwnerType_value ow)),
        Some (V_string i), Some (V_string (AccountType_value ty)), Some (V_string cu)]"])
      (auto simp: inj_def key_of_def row_defs)
  have "list_all (\<lambda>(_, u). distinct (map (key_of u) (map account_row xs))) (tab_uniques accounts_table) =
      distinct (map (\<lambda>a. (acc_owner_type a, acc_owner_id a, acc_type a, acc_currency a)) xs)" for xs
    unfolding uq[symmetric] by (simp add: table_simps)
  note table_ok_map[OF _ key this]
  from this[of _ "\<lambda>_. True" "store_of d" "\<lambda>_. True" "accounts d"] show ?thesis
    unfolding accounts_ok_def by (simp add: table_simps)
qed

lemma account_balances_conform:
  "table_ok (store_of d) account_balances_table (map balance_row (account_balances d)) \<longleftrightarrow> account_balances_ok d"
  unfolding account_balances_ok_def
  by (subst table_ok_map[where K = "distinct (map bal_account_id (account_balances d))" and U = True
        and R = "\<lambda>b. int64 (bal_balance b) \<and> int64 (bal_version b)" and C = "\<lambda>b. 0 \<le> bal_balance b"
        and F = "\<lambda>b. bal_account_id b \<in> account_ids d"])
    (auto simp: table_simps key_simps(1)[of balance_row _ bal_account_id] simp del: map_map)

lemma ledger_transactions_conform: "table_ok (store_of d) ledger_transactions_table (map transaction_row (ledger_transactions d)) \<longleftrightarrow> ledger_transactions_ok d"
  unfolding ledger_transactions_ok_def
  by (subst table_ok_map[where K = "distinct (map txn_id (ledger_transactions d))" and U = "True"
        and R = "\<lambda>_. True" and C = "\<lambda>_. True"
        and F = "\<lambda>_. True"])
    (auto simp: table_simps key_simps(1)[of transaction_row _ txn_id] simp del: map_map split: option.splits)

lemma ledger_entries_conform: "table_ok (store_of d) ledger_entries_table (map entry_row (ledger_entries d)) \<longleftrightarrow> ledger_entries_ok d"
  unfolding ledger_entries_ok_def
  by (subst table_ok_map[where K = "distinct (map ent_id (ledger_entries d))" and U = "True"
        and R = "\<lambda>e. int64 (ent_id e) \<and> int64 (ent_amount e)" and C = "\<lambda>e. 0 < ent_amount e"
        and F = "\<lambda>e. ent_transaction_id e \<in> txn_id ` set (ledger_transactions d) \<and> ent_account_id e \<in> account_ids d"])
    (auto simp: table_simps key_simps(3)[of entry_row _ ent_id] simp del: map_map split: option.splits)

lemma payments_conform: "table_ok (store_of d) payments_table (map payment_row (payments d)) \<longleftrightarrow> payments_ok d"
  unfolding payments_ok_def
  by (subst table_ok_map[where K = "distinct (map pay_id (payments d))" and U = "True"
        and R = "\<lambda>p. int64 (pay_amount p) \<and> int64 (pay_refunded_amount p) \<and> int64 (pay_version p) \<and>
          length (pay_merchant_id p) \<le> 255 \<and> length (pay_currency p) \<le> 3 \<and>
          (case pay_psp_reference p of None \<Rightarrow> True | Some r \<Rightarrow> length r \<le> 255)" and C = "\<lambda>_. True"
        and F = "\<lambda>p. pay_payer_account p \<in> account_ids d \<and> pay_payee_account p \<in> account_ids d"])
    (auto simp: table_simps key_simps(1)[of payment_row _ pay_id] simp del: map_map split: option.splits)

lemma refunds_conform: "table_ok (store_of d) refunds_table (map refund_row (refunds d)) \<longleftrightarrow> refunds_ok d"
  unfolding refunds_ok_def
  by (subst table_ok_map[where K = "distinct (map rfd_id (refunds d))" and U = "True"
        and R = "\<lambda>r. int64 (rfd_amount r)" and C = "\<lambda>r. 0 < rfd_amount r"
        and F = "\<lambda>r. rfd_payment_id r \<in> pay_id ` set (payments d)"])
    (auto simp: table_simps key_simps(1)[of refund_row _ rfd_id] simp del: map_map split: option.splits)

lemma idem_scope_key:
  "distinct (map (key_of [''merchant_id'', ''idem_key'']) (map idempotency_row xs)) = distinct (map idem_scope xs)"
  unfolding map_map by (rule distinct_map_code[where f = "\<lambda>(m, k). [Some (V_string m), Some (V_string k)]"])
    (auto simp: inj_def key_of_def row_defs idem_scope_def)

lemma idempotency_keys_conform: "table_ok (store_of d) idempotency_keys_table (map idempotency_row (idempotency_keys d)) \<longleftrightarrow> idempotency_keys_ok d"
  unfolding idempotency_keys_ok_def
  by (subst table_ok_map[where K = "distinct (map idem_id (idempotency_keys d))" and U = "distinct (map idem_scope (idempotency_keys d))"
        and R = "\<lambda>r. int64 (idem_id r) \<and> length (idem_merchant_id r) \<le> 255 \<and>
          length (idem_idem_key r) \<le> 255 \<and> length (idem_request_hash r) \<le> 64 \<and>
          (case idem_response_code r of None \<Rightarrow> True | Some c \<Rightarrow> int32 c)" and C = "\<lambda>_. True"
        and F = "\<lambda>_. True"])
    (auto simp: table_simps idem_scope_key key_simps(3)[of idempotency_row _ idem_id] simp del: map_map split: option.splits)

lemma outbox_conform: "table_ok (store_of d) outbox_table (map outbox_row (outbox d)) \<longleftrightarrow> outbox_ok d"
  unfolding outbox_ok_def
  by (subst table_ok_map[where K = "distinct (map obx_id (outbox d))" and U = "True"
        and R = "\<lambda>e. length (obx_aggregate_type e) \<le> 100 \<and> length (obx_event_type e) \<le> 100" and C = "\<lambda>_. True"
        and F = "\<lambda>_. True"])
    (auto simp: table_simps key_simps(1)[of outbox_row _ obx_id] simp del: map_map split: option.splits)

lemma webhook_events_conform: "table_ok (store_of d) webhook_events_table (map webhook_row (webhook_events d)) \<longleftrightarrow> webhook_events_ok d"
  unfolding webhook_events_ok_def
  by (subst table_ok_map[where K = "distinct (map whk_psp_event_id (webhook_events d))" and U = "True"
        and R = "\<lambda>e. length (whk_psp_event_id e) \<le> 255" and C = "\<lambda>_. True"
        and F = "\<lambda>_. True"])
    (auto simp: table_simps key_simps(2)[of webhook_row _ whk_psp_event_id] simp del: map_map split: option.splits)

lemma processed_events_conform: "table_ok (store_of d) processed_events_table (map processed_row (processed_events d)) \<longleftrightarrow> processed_events_ok d"
  unfolding processed_events_ok_def
  by (subst table_ok_map[where K = "distinct (map pev_event_id (processed_events d))" and U = "True"
        and R = "\<lambda>_. True" and C = "\<lambda>_. True"
        and F = "\<lambda>_. True"])
    (auto simp: table_simps key_simps(1)[of processed_row _ pev_event_id] simp del: map_map split: option.splits)

text \<open>
  Both predicates translate the same lines of the migrations; the equivalence shows that they were
  translated alike.
\<close>

lemma conforms_constraints: "conforms (store_of d) \<longleftrightarrow> constraints d"
proof -
  have "conforms (store_of d) \<longleftrightarrow> (\<forall>(t, rows)\<in>set (store_of d). table_ok (store_of d) t rows)"
    by (simp add: conforms_def list_all_iff)
  also have "\<dots> \<longleftrightarrow> constraints d"
    unfolding constraints_def accounts_conform[symmetric] account_balances_conform[symmetric]
      ledger_transactions_conform[symmetric] ledger_entries_conform[symmetric] payments_conform[symmetric]
      refunds_conform[symmetric] idempotency_keys_conform[symmetric] outbox_conform[symmetric]
      webhook_events_conform[symmetric] processed_events_conform[symmetric]
    by (subst (1) store_of_def) auto
  finally show ?thesis .
qed

end
