(* ===== verification/Migrations.thy ===== *)
theory Migrations
  imports Schema
begin

text \<open>
  Running the migrations of \<open>alembic/versions\<close>, forth and back, on a catalog that may hold other objects,
  and the comparison of what they build with the declarations of \<open>app/domain/models.py\<close>.
\<close>

section \<open>A catalog beside other objects\<close>

definition empty_catalog :: catalog where
  "empty_catalog = \<lparr>cat_tables = [], cat_indexes = [], cat_functions = [], cat_triggers = []\<rparr>"

definition overlay :: "catalog \<Rightarrow> catalog \<Rightarrow> catalog" where
  "overlay c e = \<lparr>cat_tables = cat_tables c @ cat_tables e, cat_indexes = cat_indexes c @ cat_indexes e,
     cat_functions = cat_functions c @ cat_functions e, cat_triggers = cat_triggers c @ cat_triggers e\<rparr>"

text \<open>No object of a catalog has, refers to or sits on a name of a given list.\<close>

definition unrelated :: "string list \<Rightarrow> catalog \<Rightarrow> bool" where
  "unrelated N c \<longleftrightarrow> list_all (\<lambda>n. n \<notin> set (table_names c) \<and> n \<notin> fst ` set (cat_indexes c) \<and>
     n \<notin> set (cat_functions c) \<and> list_all (\<lambda>(t, _). \<not> refers_to n t) (cat_tables c) \<and>
     list_all (\<lambda>(_, m, _). m \<noteq> n) (cat_indexes c) \<and> list_all (\<lambda>(_, m, f). m \<noteq> n \<and> f \<noteq> n) (cat_triggers c)) N"

definition references_in :: "string list \<Rightarrow> table \<Rightarrow> bool" where
  "references_in N t = list_all (\<lambda>k. case col_references k of None \<Rightarrow> True | Some (u, _) \<Rightarrow> u \<in> set N) (tab_columns t)"

fun op_within :: "string list \<Rightarrow> schema_op \<Rightarrow> bool" where
  "op_within N (Create_table t) \<longleftrightarrow> tab_name t \<in> set N \<and> references_in N t"
| "op_within N (Create_index i n _ _) \<longleftrightarrow> i \<in> set N \<and> n \<in> set N"
| "op_within N (Create_or_replace_function f) \<longleftrightarrow> f \<in> set N"
| "op_within N (Create_constraint_trigger _ n f) \<longleftrightarrow> n \<in> set N \<and> f \<in> set N"
| "op_within N (Insert_on_conflict_do_nothing n _) \<longleftrightarrow> n \<in> set N"
| "op_within N (Drop_trigger_if_exists _ n) \<longleftrightarrow> n \<in> set N"
| "op_within N (Drop_function_if_exists f) \<longleftrightarrow> f \<in> set N"
| "op_within N (Drop_table n) \<longleftrightarrow> n \<in> set N"

definition closed_in :: "string list \<Rightarrow> catalog \<Rightarrow> bool" where
  "closed_in N e \<longleftrightarrow> (\<forall>x\<in>set (cat_tables e). references_in N (fst x))"

lemma unrelatedD:
  assumes "unrelated N c" and "n \<in> set N"
  shows "n \<notin> entry_name ` set (cat_tables c)" "n \<notin> fst ` set (cat_indexes c)" "n \<notin> set (cat_functions c)"
    "row_of entry_name n (cat_tables c) = None"
    "(t, rows) \<in> set (cat_tables c) \<Longrightarrow> \<not> refers_to n t"
    "filter (\<lambda>e. entry_name e \<noteq> n) (cat_tables c) = cat_tables c"
    "filter ((\<noteq>) n) (cat_functions c) = cat_functions c"
    "filter (\<lambda>(_, m, _). m \<noteq> n) (cat_indexes c) = cat_indexes c"
    "filter (\<lambda>(_, m, _). m \<noteq> n) (cat_triggers c) = cat_triggers c"
    "filter (\<lambda>(h, m, _). (h, m) \<noteq> (g, n)) (cat_triggers c) = cat_triggers c"
    "\<not> list_ex (\<lambda>(_, _, f'). f' = n) (cat_triggers c)"
    "(g, n) \<notin> (\<lambda>(g, n, _). (g, n)) ` set (cat_triggers c)"
proof -
  have *: "n \<notin> set (table_names c)" "n \<notin> fst ` set (cat_indexes c)" "n \<notin> set (cat_functions c)"
    "list_all (\<lambda>(t, _). \<not> refers_to n t) (cat_tables c)" "list_all (\<lambda>(_, m, _). m \<noteq> n) (cat_indexes c)"
    "list_all (\<lambda>(_, m, f). m \<noteq> n \<and> f \<noteq> n) (cat_triggers c)"
    using assms by (simp_all add: unrelated_def list_all_iff)
  then show "n \<notin> fst ` set (cat_indexes c)" "n \<notin> set (cat_functions c)" by simp_all
  show tn: "n \<notin> entry_name ` set (cat_tables c)" using *(1) by (simp add: table_names_def)
  show "row_of entry_name n (cat_tables c) = None" using tn by (simp add: row_of_None_iff)
  show "filter (\<lambda>e. entry_name e \<noteq> n) (cat_tables c) = cat_tables c" using tn by (force simp: filter_id_conv)
  show "filter ((\<noteq>) n) (cat_functions c) = cat_functions c" using *(3) by (auto simp: filter_id_conv)
  show "(t, rows) \<in> set (cat_tables c) \<Longrightarrow> \<not> refers_to n t" using *(4) by (auto simp: list_all_iff)
  show "filter (\<lambda>(_, m, _). m \<noteq> n) (cat_indexes c) = cat_indexes c" using *(5) by (auto simp: filter_id_conv list_all_iff)
  show "filter (\<lambda>(_, m, _). m \<noteq> n) (cat_triggers c) = cat_triggers c"
    "filter (\<lambda>(h, m, _). (h, m) \<noteq> (g, n)) (cat_triggers c) = cat_triggers c"
    using *(6) by (auto simp: filter_id_conv list_all_iff)
  show "\<not> list_ex (\<lambda>(_, _, f'). f' = n) (cat_triggers c)" using *(6) by (auto simp: list_ex_iff list_all_iff)
  show "(g, n) \<notin> (\<lambda>(g, n, _). (g, n)) ` set (cat_triggers c)" using *(6) by (auto simp: list_all_iff)
qed

lemma set_row_append: "set_row key k f (xs @ ys) = set_row key k f xs @ set_row key k f ys"
  by (simp add: set_row_def)

lemma rows_of_overlay:
  "unrelated N c \<Longrightarrow> n \<in> set N \<Longrightarrow> rows_of (cat_tables c @ st) n = rows_of st n"
  using unrelatedD(4)[of N c n] by (simp add: rows_of_def row_of_append)

lemma table_ok_overlay:
  assumes "unrelated N c" and "references_in N t"
  shows "table_ok (cat_tables c @ st) t rows = table_ok st t rows"
  using assms by (intro table_ok_cong rows_of_overlay) (auto simp: references_in_def list_all_iff split: option.splits)

lemma apply_op_overlay:
  assumes c: "unrelated N c" and e: "closed_in N e" and w: "op_within N x"
  shows "apply_op now x (overlay c e) = map_sum id (overlay c) (apply_op now x e)"
proof (cases x)
  case (Create_table t)
  have "undefined_reference (overlay c e) t = undefined_reference e t"
    unfolding undefined_reference_def using w unrelatedD(1)[OF c]
    by (intro find_cong) (auto simp: Create_table references_in_def list_all_iff table_names_def overlay_def split: option.splits)
  with unrelatedD(1,2)[OF c, of "tab_name t"] w show ?thesis
    by (auto simp: Create_table table_names_def overlay_def split: option.split)
next
  case (Create_index i n cols pred)
  with w unrelatedD(1,2)[OF c, of i] unrelatedD(4)[OF c, of n] show ?thesis
    by (auto simp: overlay_def table_names_def row_of_append split: option.split)
next
  case (Create_or_replace_function f)
  with w unrelatedD(7)[OF c, of f] show ?thesis by (simp add: overlay_def)
next
  case (Create_constraint_trigger g n f)
  with w unrelatedD(1,12)[OF c, of n] unrelatedD(3)[OF c, of f] show ?thesis
    by (simp add: overlay_def table_names_def image_Un)
next
  case (Insert_on_conflict_do_nothing n new)
  show ?thesis
  proof (cases "row_of entry_name n (cat_tables e)")
    case None
    with w unrelatedD(4)[OF c, of n] show ?thesis
      by (simp add: Insert_on_conflict_do_nothing overlay_def row_of_append)
  next
    case (Some p)
    obtain t rows where p: "p = (t, rows)" by (cases p)
    from Some have "(t, rows) \<in> set (cat_tables e)" by (auto simp: p dest: row_of_SomeD)
    with e have "references_in N t" by (auto simp: closed_in_def)
    with w Some unrelatedD(1,4)[OF c, of n] table_ok_overlay[OF c] show ?thesis
      by (simp add: Insert_on_conflict_do_nothing overlay_def row_of_append p Let_def set_row_append set_row_absent)
  qed
next
  case (Drop_trigger_if_exists g n)
  with w unrelatedD(10)[OF c, of n g] show ?thesis by (simp add: overlay_def)
next
  case (Drop_function_if_exists f)
  with w unrelatedD(7,11)[OF c, of f] show ?thesis by (simp add: overlay_def)
next
  case (Drop_table n)
  have "\<not> list_ex (\<lambda>(t, _). tab_name t \<noteq> n \<and> refers_to n t) (cat_tables c)"
    using w unrelatedD(5)[OF c, of n] by (auto simp: Drop_table list_ex_iff)
  with w unrelatedD(1,6,8,9)[OF c, of n] show ?thesis
    by (simp add: Drop_table overlay_def table_names_def)
qed

lemma closed_in_apply:
  assumes "apply_op now x e = Inr e'" and "closed_in N e" and "op_within N x"
  shows "closed_in N e'"
proof -
  have m: "references_in N t" if "(t, rows) \<in> set (cat_tables e)" for t rows
    using assms(2) that by (force simp: closed_in_def)
  show ?thesis
    using assms(1,3)
    by (cases x; auto simp: closed_in_def set_row_def Let_def split: if_splits option.splits dest!: row_of_SomeD)
      (rule m, assumption)+
qed

lemma apply_ops_overlay:
  "unrelated N c \<Longrightarrow> closed_in N e \<Longrightarrow> list_all (op_within N) xs \<Longrightarrow>
   apply_ops now xs (overlay c e) = map_sum id (overlay c) (apply_ops now xs e)"
proof (induction xs arbitrary: e)
  case (Cons x xs)
  with apply_op_overlay[of N c e x now] closed_in_apply[of now x e _ N] show ?case
    by (cases "apply_op now x e") auto
qed simp

section \<open>Forth and back\<close>

definition table_names_used :: "string list" where
  "table_names_used = [''accounts'', ''account_balances'', ''ledger_transactions'', ''ledger_entries'', ''payments'',
     ''idempotency_keys'', ''outbox'', ''webhook_events'', ''processed_events'', ''refunds'']"

definition migration_names :: "string list" where
  "migration_names = table_names_used @ [''idx_entries_account_created'', ''idx_entries_txn'', ''idx_payments_status_created'',
     ''idx_payments_merchant'', ''idx_outbox_unpublished'', ''idx_refunds_payment'', ''assert_ledger_balanced'']"

definition engine_catalog :: "database \<Rightarrow> catalog" where
  "engine_catalog d = \<lparr>cat_tables = store_of d,
     cat_indexes = [(''idx_entries_account_created'', ''ledger_entries'', [''account_id'', ''created_at''], None),
       (''idx_entries_txn'', ''ledger_entries'', [''transaction_id''], None),
       (''idx_payments_status_created'', ''payments'', [''status'', ''created_at''], None),
       (''idx_payments_merchant'', ''payments'', [''merchant_id''], None),
       (''idx_outbox_unpublished'', ''outbox'', [''created_at''], Some ''published_at IS NULL''),
       (''idx_refunds_payment'', ''refunds'', [''payment_id''], None)],
     cat_functions = [''assert_ledger_balanced''],
     cat_triggers = [(''trg_ledger_balanced'', ''ledger_entries'', ''assert_ledger_balanced'')]\<rparr>"

lemma ops_within: "list_all (op_within migration_names) (upgrade_001 @ upgrade_002)"
  "list_all (op_within migration_names) (downgrade_002 @ downgrade_001)"
  by code_simp+

lemma closed_in_engine: "closed_in migration_names (engine_catalog d)"
  by (simp add: closed_in_def engine_catalog_def store_of_def references_in_def table_defs column_defs
      migration_names_def table_names_used_def)

lemma apply_ops_append:
  "apply_ops now (xs @ ys) c = (case apply_ops now xs c of Inl e \<Rightarrow> Inl e | Inr c' \<Rightarrow> apply_ops now ys c')"
  by (induction xs arbitrary: c) (simp_all split: sum.split)

lemmas ddl_simps = table_names_def undefined_reference_def table_defs column_defs

lemma create_tables: "apply_ops now (take 15 upgrade_001) empty_catalog = Inr (engine_catalog empty_database
    \<lparr>cat_tables := butlast (butlast (store_of empty_database)), cat_indexes := butlast (cat_indexes (engine_catalog empty_database))\<rparr>)"
  by (simp add: upgrade_001_def empty_catalog_def engine_catalog_def store_of_def empty_database_def ddl_simps)

lemma seed_conforms: "constraints (upgrade now)" "constraints (upgrade now\<lparr>account_balances := []\<rparr>)"
  by (simp_all add: constraint_defs upgrade_def empty_database_def int64_def)

lemma seed_accounts: "insert_rows now accounts_table
    [[(''id'', V_uuid (UUID 1)), (''owner_type'', V_string ''SYSTEM''), (''owner_id'', V_string ''psp''),
      (''type'', V_string ''PSP_SUSPENSE''), (''currency'', V_string ''INR'')],
     [(''id'', V_uuid (UUID 2)), (''owner_type'', V_string ''SYSTEM''), (''owner_id'', V_string ''fees''),
      (''type'', V_string ''FEE_INCOME''), (''currency'', V_string ''INR'')]] [] = map account_row (accounts (upgrade now))"
  by (simp add: insert_rows_def complete_row_def conflicts_def default_value_def key_of_def primary_key_def
      table_defs column_defs upgrade_def account_row_def)

lemma seed_balances: "insert_rows now account_balances_table
    [[(''account_id'', V_uuid (UUID 1)), (''balance'', V_int 0), (''version'', V_int 0)],
     [(''account_id'', V_uuid (UUID 2)), (''balance'', V_int 0), (''version'', V_int 0)]] [] =
   map balance_row (account_balances (upgrade now))"
  by (simp add: insert_rows_def complete_row_def conflicts_def default_value_def key_of_def primary_key_def
      table_defs column_defs upgrade_def balance_row_def)

lemma seed_accounts_ok: "table_ok st accounts_table (map account_row (accounts (upgrade now)))"
proof -
  have "table_ok (store_of (upgrade now)) accounts_table (map account_row (accounts (upgrade now)))"
    unfolding accounts_conform using seed_conforms(1)[of now] by (simp add: constraints_def)
  then show ?thesis
    by (subst table_ok_cong[where st' = "store_of (upgrade now)"]) (auto simp: table_defs column_defs)
qed

lemma seed_balances_ok:
  assumes "rows_of st ''accounts'' = map account_row (accounts (upgrade now))"
  shows "table_ok st account_balances_table (map balance_row (account_balances (upgrade now)))"
proof -
  have "table_ok (store_of (upgrade now)) account_balances_table (map balance_row (account_balances (upgrade now)))"
    unfolding account_balances_conform using seed_conforms(1)[of now] by (simp add: constraints_def)
  moreover have "rows_of (store_of (upgrade now)) ''accounts'' = rows_of st ''accounts''"
    unfolding assms by (simp add: rows_of_def store_of_def)
  ultimately show ?thesis
    by (subst table_ok_cong[where st' = "store_of (upgrade now)"]) (auto simp: table_defs column_defs)
qed

lemma upgrade_others [simp]:
  "ledger_transactions (upgrade now) = []" "ledger_entries (upgrade now) = []" "payments (upgrade now) = []"
  "refunds (upgrade now) = []" "idempotency_keys (upgrade now) = []" "outbox (upgrade now) = []"
  "webhook_events (upgrade now) = []" "processed_events (upgrade now) = []"
  by (simp_all add: upgrade_def empty_database_def)

lemma create_second_tables:
  "undefined_reference c processed_events_table = None"
  "''payments'' \<in> set (table_names c) \<Longrightarrow> undefined_reference c refunds_table = None"
  "''payment_id'' \<in> col_name ` set (tab_columns refunds_table)"
  by (simp_all add: undefined_reference_def table_defs column_defs)

lemma upgrade_empty: "apply_ops now (upgrade_001 @ upgrade_002) empty_catalog = Inr (engine_catalog (upgrade now))"
proof -
  let ?k = "engine_catalog empty_database\<lparr>cat_tables := butlast (butlast (store_of empty_database)),
    cat_indexes := butlast (cat_indexes (engine_catalog empty_database))\<rparr>"
  let ?rest = "drop 15 upgrade_001 @ upgrade_002"
  have "upgrade_001 @ upgrade_002 = take 15 upgrade_001 @ ?rest" by simp
  then have "apply_ops now (upgrade_001 @ upgrade_002) empty_catalog = apply_ops now ?rest ?k"
    by (simp only: apply_ops_append create_tables sum.case)
  also have "\<dots> = Inr (engine_catalog (upgrade now))"
    by (simp add: upgrade_001_def upgrade_002_def engine_catalog_def store_of_def Let_def empty_database_def
        seed_accounts seed_balances seed_accounts_ok seed_balances_ok rows_of_def table_names_def
        create_second_tables[unfolded table_names_def])
  finally show ?thesis .
qed

lemma downgrade_engine: "apply_ops now (downgrade_002 @ downgrade_001) (engine_catalog d) = Inr empty_catalog"
  by (simp add: downgrade_001_def downgrade_002_def engine_catalog_def empty_catalog_def table_names_def store_of_def
      refers_to_def table_defs column_defs)

lemma upgrade_beside:
  assumes "unrelated migration_names c"
  shows "apply_ops now (upgrade_001 @ upgrade_002) c = Inr (overlay c (engine_catalog (upgrade now)))"
proof -
  have empty: "overlay c empty_catalog = c" by (simp add: overlay_def empty_catalog_def)
  have "closed_in migration_names empty_catalog" by (simp add: closed_in_def empty_catalog_def)
  from apply_ops_overlay[OF assms this ops_within(1), of now] upgrade_empty[of now] show ?thesis
    by (simp add: empty)
qed

text \<open>
  C25. The migrations build the schema and take it down again. On any catalog whose objects have nothing
  to do with the names of the engine, both upgrades succeed and add exactly the ten tables, with the two
  system accounts and their zero balances as their only rows, the indexes and the trigger; and from any
  content of the tables both downgrades succeed and leave what was there before.
\<close>

theorem migrations_round_trip:
  assumes "unrelated migration_names c"
  shows "apply_ops now (upgrade_001 @ upgrade_002) c = Inr (overlay c (engine_catalog (upgrade now))) \<and>
    apply_ops later (downgrade_002 @ downgrade_001) (overlay c (engine_catalog d)) = Inr c"
proof -
  have empty: "overlay c empty_catalog = c" by (simp add: overlay_def empty_catalog_def)
  from apply_ops_overlay[OF assms closed_in_engine ops_within(2), of later d] downgrade_engine[of later d]
  have "apply_ops later (downgrade_002 @ downgrade_001) (overlay c (engine_catalog d)) = Inr c"
    by (simp add: empty)
  with upgrade_beside[OF assms] show ?thesis ..
qed

text \<open>The table Alembic keeps its revision in.\<close>

definition alembic_catalog :: catalog where
  "alembic_catalog = empty_catalog\<lparr>cat_tables := [(table_of ''alembic_version''
     [primary (col ''version_num'' (String_type 32))], [[(''version_num'', V_string ''001_initial_schema'')]])]\<rparr>"

theorem migrations_round_trip_witness:
  "apply_ops 0 (upgrade_001 @ upgrade_002) alembic_catalog = Inr (overlay alembic_catalog (engine_catalog (upgrade 0))) \<and>
   apply_ops 1 (downgrade_002 @ downgrade_001) (overlay alembic_catalog (engine_catalog (upgrade 0))) = Inr alembic_catalog"
proof (rule migrations_round_trip)
  show "unrelated migration_names alembic_catalog" by code_simp
qed

section \<open>The declarations of the models\<close>

text \<open>\<open>SQLEnum(E, native_enum=False)\<close> is a string as wide as the longest member of \<open>E\<close>.\<close>

definition enum_type :: "string list \<Rightarrow> sql_type" where
  "enum_type members = String_type (foldr max (map length members) 0)"

definition model_tables :: "table list" where
  "model_tables =
     [(table_of ''accounts''
        [primary (col ''id'' UUID_type),
         col ''owner_type'' (enum_type (map OwnerType_value [USER, MERCHANT, SYSTEM])),
         col ''owner_id'' (String_type 255),
         col ''type'' (enum_type (map AccountType_value [USER_WALLET, MERCHANT_PAYABLE, PSP_SUSPENSE, FEE_INCOME])),
         col ''currency'' (String_type 3),
         col ''created_at'' DateTime_type])
        \<lparr>tab_uniques := [(''uq_accounts_owner_type_currency'', [''owner_type'', ''owner_id'', ''type'', ''currency''])]\<rparr>,
      (table_of ''account_balances''
        [primary (cascade (references ''accounts'' ''id'' (col ''account_id'' UUID_type))),
         col ''balance'' BigInteger_type,
         col ''version'' BigInteger_type,
         col ''updated_at'' DateTime_type])
        \<lparr>tab_checks := [Check_non_negative ''non_negative_balance'' ''balance'']\<rparr>,
      table_of ''ledger_transactions''
        [primary (col ''id'' UUID_type),
         col ''type'' (enum_type (map TransactionType_value [PAYMENT, REFUND, REVERSAL, FEE])),
         col ''reference_id'' UUID_type,
         col ''created_at'' DateTime_type],
      (table_of ''ledger_entries''
        [primary (autoincrement (col ''id'' BigInteger_type)),
         references ''ledger_transactions'' ''id'' (col ''transaction_id'' UUID_type),
         references ''accounts'' ''id'' (col ''account_id'' UUID_type),
         col ''direction'' (enum_type (map Direction_value [DEBIT, CREDIT])),
         col ''amount'' BigInteger_type,
         col ''created_at'' DateTime_type])
        \<lparr>tab_checks := [Check_positive ''positive_amount'' ''amount'']\<rparr>,
      table_of ''payments''
        [primary (col ''id'' UUID_type),
         col ''merchant_id'' (String_type 255),
         references ''accounts'' ''id'' (col ''payer_account'' UUID_type),
         references ''accounts'' ''id'' (col ''payee_account'' UUID_type),
         col ''amount'' BigInteger_type,
         col ''currency'' (String_type 3),
         col ''status'' (enum_type (map PaymentStatus_value [PaymentStatus.CREATED, PaymentStatus.PROCESSING,
           PaymentStatus.AUTHORIZED, PaymentStatus.SUCCEEDED, PaymentStatus.FAILED, PaymentStatus.FUNDS_LOCKED,
           PaymentStatus.REFUND_PENDING, PaymentStatus.REFUNDED])),
         nullable (col ''psp_reference'' (String_type 255)),
         col ''refunded_amount'' BigInteger_type,
         col ''version'' BigInteger_type,
         col ''created_at'' DateTime_type,
         col ''updated_at'' DateTime_type],
      (table_of ''refunds''
        [primary (col ''id'' UUID_type),
         references ''payments'' ''id'' (col ''payment_id'' UUID_type),
         col ''amount'' BigInteger_type,
         col ''status'' (enum_type (map RefundStatus_value [RefundStatus.PENDING, RefundStatus.SUCCEEDED, RefundStatus.FAILED])),
         col ''created_at'' DateTime_type])
        \<lparr>tab_checks := [Check_positive ''positive_refund_amount'' ''amount'']\<rparr>,
      (table_of ''idempotency_keys''
        [primary (autoincrement (col ''id'' BigInteger_type)),
         col ''merchant_id'' (String_type 255),
         col ''idem_key'' (String_type 255),
         col ''request_hash'' (String_type 64),
         col ''status'' (enum_type (map IdempotencyStatus_value [IN_PROGRESS, COMPLETED])),
         nullable (col ''resource_id'' UUID_type),
         nullable (col ''response_code'' Integer_type),
         nullable (col ''response_body'' JSONB_type),
         col ''created_at'' DateTime_type])
        \<lparr>tab_uniques := [(''uq_idempotency_merchant_key'', [''merchant_id'', ''idem_key''])]\<rparr>,
      table_of ''outbox''
        [primary (col ''id'' UUID_type),
         col ''aggregate_type'' (String_type 100),
         col ''aggregate_id'' UUID_type,
         col ''event_type'' (String_type 100),
         col ''payload'' JSONB_type,
         col ''created_at'' DateTime_type,
         nullable (col ''published_at'' DateTime_type)],
      table_of ''webhook_events''
        [primary (col ''psp_event_id'' (String_type 255)),
         col ''payload'' Text_type,
         col ''status'' (enum_type (map WebhookStatus_value [RECEIVED, PROCESSED, WebhookStatus.FAILED])),
         col ''received_at'' DateTime_type],
      table_of ''processed_events''
        [primary (col ''event_id'' UUID_type),
         col ''processed_at'' DateTime_type]]"

text \<open>The indexes of the models: \<open>index=True\<close> columns and \<open>Index\<close> arguments.\<close>

definition model_indexes :: "(string \<times> string list) list" where
  "model_indexes =
     [(''ledger_entries'', [''transaction_id'']), (''ledger_entries'', [''account_id'']),
      (''ledger_entries'', [''account_id'', ''created_at'']),
      (''payments'', [''merchant_id'']), (''payments'', [''status'']), (''payments'', [''psp_reference'']),
      (''payments'', [''status'', ''created_at'']),
      (''refunds'', [''payment_id'']), (''outbox'', [''created_at''])]"

text \<open>What the models store fits the column of the migration; defaults are filled in by the models.\<close>

fun type_within :: "sql_type \<Rightarrow> sql_type \<Rightarrow> bool" where
  "type_within (String_type m) (String_type n) = (m \<le> n)"
| "type_within s t = (s = t)"

definition column_agrees :: "column \<Rightarrow> column \<Rightarrow> bool" where
  "column_agrees m c \<longleftrightarrow> type_within (col_type m) (col_type c) \<and>
     m\<lparr>col_type := col_type c, col_default := col_default c\<rparr> = c"

definition table_agrees :: "table \<Rightarrow> table \<Rightarrow> bool" where
  "table_agrees m t \<longleftrightarrow> tab_name m = tab_name t \<and> list_all2 column_agrees (tab_columns m) (tab_columns t) \<and>
     tab_uniques m = tab_uniques t \<and> tab_checks m = tab_checks t"

definition index_covered :: "catalog \<Rightarrow> string \<times> string list \<Rightarrow> bool" where
  "index_covered c i = list_ex (\<lambda>(_, n, cols, pred). n = fst i \<and> take (length (snd i)) cols = snd i \<and> pred = None) (cat_indexes c)"

text \<open>
  C37. The models and the migrations agree. Each model declares, column by column, the table that the
  migrations build: the same names in the same order, keys, references, nullability, checks and unique
  constraints, and types whose values fit; and every index of the models is a prefix of one the migrations
  create, except the index on payments.psp_reference, which no migration creates, and the index on
  outbox.created_at, which is created for unpublished rows only.
\<close>

theorem models_agree_with_migrations:
  "list_all (\<lambda>m. list_ex (table_agrees m) (map fst (cat_tables (engine_catalog d)))) model_tables \<and>
   length model_tables = length (cat_tables (engine_catalog d)) \<and> distinct (map tab_name model_tables) \<and>
   filter (\<lambda>i. \<not> index_covered (engine_catalog d) i) model_indexes =
     [(''payments'', [''psp_reference'']), (''outbox'', [''created_at''])]"
proof -
  let ?ts = "[accounts_table, account_balances_table, ledger_transactions_table, ledger_entries_table, payments_table,
    idempotency_keys_table, outbox_table, webhook_events_table, processed_events_table, refunds_table]"
  have "map fst (cat_tables (engine_catalog d)) = ?ts" by (simp add: engine_catalog_def store_of_def)
  moreover have "list_all (\<lambda>m. list_ex (table_agrees m) ?ts) model_tables \<and> distinct (map tab_name model_tables)"
    by code_simp
  moreover have "length model_tables = length (cat_tables (engine_catalog d))"
    by (simp add: engine_catalog_def store_of_def model_tables_def)
  moreover have "filter (\<lambda>i. \<not> index_covered (engine_catalog d) i) model_indexes =
     [(''payments'', [''psp_reference'']), (''outbox'', [''created_at''])]"
    by (simp add: engine_catalog_def model_indexes_def index_covered_def)
  ultimately show ?thesis by simp
qed

end
