(* ===== verification/App.thy ===== *)
theory App
  imports Api
begin

text \<open>
  The application: the settings of \<open>app/config.py\<close>, the wiring of \<open>app/api/dependencies.py\<close>, the routes of
  \<open>app/main.py\<close> and \<open>app/api\<close> behind one function \<open>serve\<close>, the Redis client of
  \<open>app/infrastructure/redis_client.py\<close>, and the lifespan of the application with the task that runs the
  outbox relay. Reading the environment into the settings, logging and metrics are left out.
\<close>

section \<open>Settings\<close>

record Settings =
  cfg_APP_NAME :: string
  cfg_APP_ENV :: string
  cfg_PORT :: int
  cfg_HOST :: string
  cfg_DB_HOST :: string
  cfg_DB_PORT :: int
  cfg_DB_NAME :: string
  cfg_DB_USER :: string
  cfg_DB_PASSWORD :: string
  cfg_DB_POOL_SIZE :: int
  cfg_DB_MAX_OVERFLOW :: int
  cfg_REDIS_HOST :: string
  cfg_REDIS_PORT :: int
  cfg_PSP_PROVIDER :: string
  cfg_PSP_WEBHOOK_SECRET :: string
  cfg_STRIPE_API_KEY :: string
  cfg_STRIPE_WEBHOOK_SECRET :: string
  cfg_OUTBOX_RELAY_INTERVAL_MS :: int
  cfg_RECONCILIATION_INTERVAL_MS :: int
  cfg_AUTHORIZED_HOLD_TIMEOUT_MINUTES :: int

definition default_settings :: Settings where
  "default_settings =
     \<lparr>cfg_APP_NAME = ''apex-payments-engine'', cfg_APP_ENV = ''development'', cfg_PORT = 8080,
      cfg_HOST = ''0.0.0.0'', cfg_DB_HOST = ''localhost'', cfg_DB_PORT = 5432, cfg_DB_NAME = ''payments'',
      cfg_DB_USER = ''payments'', cfg_DB_PASSWORD = ''payments'', cfg_DB_POOL_SIZE = 20, cfg_DB_MAX_OVERFLOW = 10,
      cfg_REDIS_HOST = ''localhost'', cfg_REDIS_PORT = 6379, cfg_PSP_PROVIDER = ''stripe'',
      cfg_PSP_WEBHOOK_SECRET = ''dev-webhook-secret'', cfg_STRIPE_API_KEY = [],
      cfg_STRIPE_WEBHOOK_SECRET = ''whsec_dev'', cfg_OUTBOX_RELAY_INTERVAL_MS = 1000,
      cfg_RECONCILIATION_INTERVAL_MS = 60000, cfg_AUTHORIZED_HOLD_TIMEOUT_MINUTES = 30\<rparr>"

definition database_address :: "Settings \<Rightarrow> string" where
  "database_address st = cfg_DB_USER st @ '':'' @ cfg_DB_PASSWORD st @ ''@'' @ cfg_DB_HOST st @ '':'' @
     str_int (cfg_DB_PORT st) @ ''/'' @ cfg_DB_NAME st"

definition DATABASE_URL :: "Settings \<Rightarrow> string" where
  "DATABASE_URL st = ''postgresql+asyncpg://'' @ database_address st"

definition SYNC_DATABASE_URL :: "Settings \<Rightarrow> string" where
  "SYNC_DATABASE_URL st = ''postgresql://'' @ database_address st"

definition REDIS_URL :: "Settings \<Rightarrow> string" where
  "REDIS_URL st = ''redis://'' @ cfg_REDIS_HOST st @ '':'' @ str_int (cfg_REDIS_PORT st) @ ''/0''"

section \<open>The Redis client\<close>

text \<open>The module variable \<open>redis_pool\<close>: \<open>None\<close> or the client \<open>from_url\<close> returned, and the clients closed.\<close>

record 'c redis_module =
  redis_pool :: "'c option"
  closed_pools :: "'c list"

definition get_redis_client :: "(string \<Rightarrow> 'c) \<Rightarrow> Settings \<Rightarrow> 'c redis_module \<Rightarrow> 'c \<times> 'c redis_module" where
  "get_redis_client from_url st m = (case redis_pool m of
     None \<Rightarrow> (from_url (REDIS_URL st), m\<lparr>redis_pool := Some (from_url (REDIS_URL st))\<rparr>)
   | Some c \<Rightarrow> (c, m))"

definition close_redis :: "'c redis_module \<Rightarrow> 'c redis_module" where
  "close_redis m = (case redis_pool m of
     None \<Rightarrow> m | Some c \<Rightarrow> m\<lparr>redis_pool := None, closed_pools := c # closed_pools m\<rparr>)"

lemma redis_client_single:
  assumes "get_redis_client from_url st m = (c, m')"
  shows "get_redis_client from_url st' m' = (c, m')" "redis_pool (close_redis m') = None"
  using assms by (auto simp: get_redis_client_def close_redis_def split: option.splits)

section \<open>Wiring\<close>

text \<open>
  What the application takes from outside: \<open>external\<close> holds the codec of pydantic (\<open>ext_codec\<close>, whose own
  lock is replaced), the Redis server behind the client, the Stripe server, \<open>stripe.Webhook.construct_event\<close>,
  what \<open>json.loads\<close> makes of values beyond the model, and the dump of the read-only responses.
\<close>

record external =
  ext_codec :: env
  ext_redis :: redis_set
  ext_create_intent :: "intent_request \<Rightarrow> stripe_reply"
  ext_construct_event :: "string \<Rightarrow> string \<Rightarrow> string \<Rightarrow> int \<Rightarrow> exn + unit"
  ext_loads_beyond :: "string \<Rightarrow> exn + json"
  ext_dump_balance :: "BalanceResponse \<Rightarrow> json"
  ext_dump_page :: "LedgerPageResponse \<Rightarrow> json"
  ext_dump_report :: "IntegrityResponse \<Rightarrow> json"


definition provider_of :: "Settings \<Rightarrow> external \<Rightarrow> provider" where
  "provider_of st ext = get_payment_provider (cfg_PSP_PROVIDER st) (cfg_STRIPE_API_KEY st) (ext_create_intent ext)"





section \<open>Routes\<close>







section \<open>The lifespan of the application\<close>

text \<open>
  The relay task is a coroutine that the event loop resumes. \<open>Created\<close> has not run yet; \<open>Draining\<close> waits
  for a batch and \<open>Sleeping\<close> for the poll interval, both inside the \<open>try\<close> of the loop; \<open>Backoff\<close> waits in the
  clause that handled an exception. The task ends by returning, or by an exception that leaves the coroutine.
  An exception arrives where the coroutine waits: the failure of the batch it waits for, or the
  \<open>CancelledError\<close> of \<open>Task.cancel\<close>. A batch that is cancelled has committed, beside the rows other workers
  locked, or not.
\<close>

datatype thrown = CancelledError | Exception

datatype relay_phase = Created | Draining | Sleeping | Backoff | Returned | Died thrown

datatype relay_event =
    Resume "UUID set"
  | Batch_fails
  | Cancel "UUID set option"

record relay_task =
  relay_running :: bool
  relay_phase :: relay_phase
  relay_store :: world

definition task_done :: "relay_task \<Rightarrow> bool" where
  "task_done w \<longleftrightarrow> (case relay_phase w of Returned \<Rightarrow> True | Died _ \<Rightarrow> True | _ \<Rightarrow> False)"

definition loop_test :: "relay_task \<Rightarrow> relay_task" where
  "loop_test w = w\<lparr>relay_phase := if relay_running w then Draining else Returned\<rparr>"

text \<open>
  The two clauses after the \<open>try\<close>: \<open>break\<close>, after which the coroutine returns, and the report of the error,
  which ends in a sleep. An exception elsewhere has no handler.
\<close>

definition in_try :: "relay_phase \<Rightarrow> bool" where
  "in_try phase \<longleftrightarrow> phase \<in> {Draining, Sleeping}"

definition except_clauses :: "thrown \<Rightarrow> relay_task \<Rightarrow> relay_task" where
  "except_clauses exc w = (case exc of
     CancelledError \<Rightarrow> w\<lparr>relay_phase := Returned\<rparr>
   | Exception \<Rightarrow> w\<lparr>relay_phase := Backoff\<rparr>)"

definition throw :: "thrown \<Rightarrow> relay_task \<Rightarrow> relay_task" where
  "throw exc w =
     (if task_done w then w
      else if in_try (relay_phase w) then except_clauses exc w
      else w\<lparr>relay_phase := Died exc\<rparr>)"

text \<open>The batch is over: its transaction has returned a count or raised.\<close>

definition finish_batch :: "UUID set \<Rightarrow> relay_task \<Rightarrow> relay_task" where
  "finish_batch locked w = (case drain_batch locked 50 (relay_store w) of
     (Inr drained, s) \<Rightarrow> if drained = 0 then w\<lparr>relay_phase := Sleeping, relay_store := s\<rparr> else loop_test (w\<lparr>relay_store := s\<rparr>)
   | (Inl _, s) \<Rightarrow> throw Exception (w\<lparr>relay_store := s\<rparr>))"

fun relay_step :: "relay_event \<Rightarrow> relay_task \<Rightarrow> relay_task" where
  "relay_step (Resume locked) w = (case relay_phase w of
     Created \<Rightarrow> loop_test (w\<lparr>relay_running := True\<rparr>)
   | Draining \<Rightarrow> finish_batch locked w
   | Sleeping \<Rightarrow> loop_test w
   | Backoff \<Rightarrow> loop_test w
   | _ \<Rightarrow> w)"
| "relay_step Batch_fails w = (if relay_phase w = Draining then throw Exception w else w)"
| "relay_step (Cancel outcome) w = throw CancelledError
     (case outcome of
        Some locked \<Rightarrow> if relay_phase w = Draining then w\<lparr>relay_store := poll locked (relay_store w)\<rparr> else w
      | None \<Rightarrow> w)"

definition stop :: "relay_task \<Rightarrow> relay_task" where
  "stop w = w\<lparr>relay_running := False\<rparr>"

record 'c application =
  relay :: relay_task
  redis :: "'c redis_module"

text \<open>
  \<open>OutboxRelay.__init__\<close> and \<open>create_task\<close>; then \<open>stop\<close>, \<open>cancel\<close> and \<open>await\<close>. Redis is closed when the
  awaited task has returned or has ended with the \<open>CancelledError\<close> that is passed over; while the task runs
  on, or if it ended with another exception, that line is not reached.
\<close>

definition startup :: "world \<Rightarrow> 'c redis_module \<Rightarrow> 'c application" where
  "startup s m = \<lparr>relay = \<lparr>relay_running = False, relay_phase = Created, relay_store = s\<rparr>, redis = m\<rparr>"

definition shutdown :: "UUID set option \<Rightarrow> 'c application \<Rightarrow> 'c application" where
  "shutdown outcome a = (let w = relay_step (Cancel outcome) (stop (relay a)) in
     \<lparr>relay = w, redis = (if relay_phase w \<in> {Returned, Died CancelledError} then close_redis (redis a) else redis a)\<rparr>)"

section \<open>The defaults\<close>

text \<open>With the default settings no payment reaches Stripe, and every authorization is a capture.\<close>

lemma default_provider_captures:
  "\<exists>r t. provider_of default_settings ext p s = (Inr (captured (''stripe_mock_'' @ r)), t) \<and> length r = 12"
  by (simp add: provider_of_def get_payment_provider_def default_settings_def lower_char_def stripe_authorize_def
      uuid4_hex12_def and_then_def uuid4_def ret_def)
    (rule exI[of _ "take 12 (hex_digits 32 (uint (uuid_int (uuid_source s (uuids_drawn s)))))"], simp)

text \<open>The two database URLs name the same database.\<close>

lemma database_urls_agree: "drop (length ''postgresql+asyncpg'') (DATABASE_URL st) = drop (length ''postgresql'') (SYNC_DATABASE_URL st)"
  by (simp add: DATABASE_URL_def SYNC_DATABASE_URL_def)

section \<open>What a failed request leaves behind\<close>









section \<open>Properties\<close>




section \<open>The relay task\<close>

lemma drain_batch_result:
  assumes "constraints (db s)"
  shows "fst (drain_batch {} 50 s) = Inr (int (min 50 (length (unpublished {} (outbox (db s))))))"
    and "snd (drain_batch {} 50 s) = poll {} s"
proof -
  obtain now t where "drain_batch {} 50 s = (Inr (int (length (select_batch {} 50 (outbox (db s))))), t)"
    using assms by (rule drain_batch_runs)
  then show "fst (drain_batch {} 50 s) = Inr (int (min 50 (length (unpublished {} (outbox (db s))))))"
    by (simp add: length_select_batch)
  show "snd (drain_batch {} 50 s) = poll {} s" by (simp add: poll_def)
qed

definition todo :: "relay_task \<Rightarrow> nat" where
  "todo w = length (unpublished {} (outbox (db (relay_store w))))"

definition relay_alive :: "relay_task \<Rightarrow> bool" where
  "relay_alive w \<longleftrightarrow> \<not> task_done w \<and> (relay_phase w \<noteq> Created \<longrightarrow> relay_running w)"

definition relay_live :: "relay_task \<Rightarrow> bool" where
  "relay_live w \<longleftrightarrow> constraints (db (relay_store w)) \<and> relay_alive w"

lemmas relay_defs = task_done_def loop_test_def in_try_def except_clauses_def throw_def finish_batch_def relay_alive_def

lemma resume_effect:
  assumes "relay_live w"
  shows "relay_live (relay_step (Resume {}) w)"
    and "todo (relay_step (Resume {}) w) = (if relay_phase w = Draining then todo w - 50 else todo w)"
    and "relay_phase (relay_step (Resume {}) w) = (if relay_phase w = Draining \<and> todo w = 0 then Sleeping else Draining)"
proof -
  have con: "constraints (db (relay_store w))" using assms by (simp add: relay_live_def)
  note d = drain_batch_result[OF con]
  have drain: "drain_batch {} 50 (relay_store w) = (Inr (int (min 50 (todo w))), poll {} (relay_store w))"
    using d by (simp add: prod_eq_iff todo_def)
  note p = poll_effect[OF con]
  show "relay_live (relay_step (Resume {}) w)"
    using assms p(1) by (cases "relay_phase w") (auto simp: relay_live_def relay_defs drain)
  show "todo (relay_step (Resume {}) w) = (if relay_phase w = Draining then todo w - 50 else todo w)"
    using assms p(2) by (cases "relay_phase w") (auto simp: relay_live_def relay_defs drain todo_def)
  show "relay_phase (relay_step (Resume {}) w) = (if relay_phase w = Draining \<and> todo w = 0 then Sleeping else Draining)"
    using assms by (cases "relay_phase w") (auto simp: relay_live_def relay_defs drain)
qed

lemma failure_effect:
  "relay_live w \<Longrightarrow> relay_live (relay_step Batch_fails w)" "todo (relay_step Batch_fails w) = todo w"
  "relay_phase (relay_step Batch_fails w) = (if relay_phase w = Draining then Backoff else relay_phase w)"
  by (auto simp: relay_live_def relay_defs todo_def)

text \<open>Turns of the event loop: the task is resumed, or the batch it waits for fails.\<close>

definition turn :: "bool \<Rightarrow> relay_event" where
  "turn ok = (if ok then Resume {} else Batch_fails)"

definition turns_needed :: "nat \<Rightarrow> relay_task \<Rightarrow> nat" where
  "turns_needed batches w = batches + (if relay_phase w = Draining then 0 else 1)"

lemma turn_effect:
  assumes "relay_live w"
  shows "relay_live (relay_step (turn ok) w)" and "todo (relay_step (turn ok) w) \<le> todo w"
  using resume_effect[OF assms] failure_effect[of w] assms by (cases ok; simp add: turn_def del: relay_step.simps)+

lemma relay_stays_drained: "relay_live w \<Longrightarrow> todo w = 0 \<Longrightarrow> todo (fold relay_step (map turn evs) w) = 0"
proof (induction evs arbitrary: w)
  case (Cons ok evs)
  with turn_effect[OF Cons.prems(1), of ok] show ?case by (simp del: relay_step.simps)
qed simp

lemma relay_drains:
  assumes "relay_live w" and "todo w \<le> 50 * batches"
    and "turns_needed batches w + 2 * length (filter Not evs) \<le> length evs"
  shows "todo (fold relay_step (map turn evs) w) = 0"
  using assms
proof (induction evs arbitrary: w batches)
  case Nil
  then show ?case by (simp add: turns_needed_def)
next
  case (Cons ok evs)
  show ?case
  proof (cases "todo w = 0")
    case True
    with relay_stays_drained[OF Cons.prems(1), of "ok # evs"] show ?thesis by simp
  next
    case False
    let ?w = "relay_step (turn ok) w"
    let ?b = "if ok \<and> relay_phase w = Draining then batches - 1 else batches"
    have "todo ?w \<le> 50 * ?b \<and> turns_needed ?b ?w + 2 * length (filter Not evs) \<le> length evs"
      using Cons.prems False resume_effect(2,3)[OF Cons.prems(1)] failure_effect(2,3)[of w]
      by (cases ok; cases batches) (auto simp: turn_def turns_needed_def simp del: relay_step.simps split: if_splits)
    with Cons.IH[OF turn_effect(1)[OF Cons.prems(1), of ok], of ?b] show ?thesis by (simp del: relay_step.simps)
  qed
qed

section \<open>The end of the relay task\<close>

definition is_resume :: "relay_event \<Rightarrow> bool" where
  "is_resume ev = (case ev of Resume _ \<Rightarrow> True | _ \<Rightarrow> False)"

definition uncancelled :: "relay_event \<Rightarrow> bool" where
  "uncancelled ev = (case ev of Cancel _ \<Rightarrow> False | _ \<Rightarrow> True)"

text \<open>Left to itself the task runs on, whatever fails.\<close>

lemma alive_step: "relay_alive w \<Longrightarrow> uncancelled ev \<Longrightarrow> relay_alive (relay_step ev w)"
  by (cases ev; cases "relay_phase w") (auto simp: relay_defs uncancelled_def split: prod.split sum.split)

lemma alive_run: "relay_alive w \<Longrightarrow> list_all uncancelled evs \<Longrightarrow> relay_alive (fold relay_step evs w)"
  by (induction evs arbitrary: w) (simp_all add: alive_step del: relay_step.simps)

text \<open>A stopped task needs at most two more resumptions, one of them with a batch.\<close>

fun resumptions_left :: "relay_phase \<Rightarrow> nat" where
  "resumptions_left Draining = 2"
| "resumptions_left Sleeping = 1"
| "resumptions_left Backoff = 1"
| "resumptions_left _ = 0"

definition stopping :: "relay_task \<Rightarrow> bool" where
  "stopping w \<longleftrightarrow> \<not> relay_running w \<and> relay_phase w \<in> {Draining, Sleeping, Backoff, Returned}"

lemma finish_batch_effect:
  assumes "relay_phase w = Draining"
  shows "relay_store (finish_batch locked w) = poll locked (relay_store w)"
    and "relay_running (finish_batch locked w) = relay_running w"
    and "relay_phase (finish_batch locked w) \<in> {Sleeping, Backoff, if relay_running w then Draining else Returned}"
  using assms by (auto simp: relay_defs poll_def split: prod.split sum.split)

lemma stopping_step:
  assumes "stopping w" and "uncancelled ev"
  shows "stopping (relay_step ev w)"
    and "resumptions_left (relay_phase (relay_step ev w)) \<le> resumptions_left (relay_phase w) - (if is_resume ev then 1 else 0)"
    and "relay_store (relay_step ev w) = relay_store w \<or> (\<exists>locked. relay_phase w = Draining \<and>
      relay_phase (relay_step ev w) \<noteq> Draining \<and> relay_store (relay_step ev w) = poll locked (relay_store w))"
    and "relay_phase w \<noteq> Draining \<Longrightarrow> relay_phase (relay_step ev w) \<noteq> Draining"
proof -
  note defs = task_done_def loop_test_def in_try_def except_clauses_def throw_def stopping_def is_resume_def
  have drain: "stopping (finish_batch locked w) \<and> resumptions_left (relay_phase (finish_batch locked w)) \<le> 1 \<and>
      relay_phase (finish_batch locked w) \<noteq> Draining \<and> relay_store (finish_batch locked w) = poll locked (relay_store w)"
    if "relay_phase w = Draining" for locked
    using finish_batch_effect[OF that, of locked] assms(1) by (auto simp: stopping_def)
  show "stopping (relay_step ev w)"
    and "resumptions_left (relay_phase (relay_step ev w)) \<le> resumptions_left (relay_phase w) - (if is_resume ev then 1 else 0)"
    and "relay_store (relay_step ev w) = relay_store w \<or> (\<exists>locked. relay_phase w = Draining \<and>
      relay_phase (relay_step ev w) \<noteq> Draining \<and> relay_store (relay_step ev w) = poll locked (relay_store w))"
    and "relay_phase w \<noteq> Draining \<Longrightarrow> relay_phase (relay_step ev w) \<noteq> Draining"
    using assms drain by (cases ev; cases "relay_phase w"; auto simp: defs uncancelled_def)+
qed

lemma stopping_run:
  assumes "stopping w" and "list_all uncancelled evs"
  shows "stopping (fold relay_step evs w) \<and>
    resumptions_left (relay_phase (fold relay_step evs w)) \<le> resumptions_left (relay_phase w) - length (filter is_resume evs) \<and>
    (relay_store (fold relay_step evs w) = relay_store w \<or>
     (\<exists>locked. relay_phase w = Draining \<and> relay_store (fold relay_step evs w) = poll locked (relay_store w)))"
  using assms
proof (induction evs arbitrary: w)
  case (Cons ev evs)
  let ?w = "relay_step ev w"
  note s = stopping_step[OF Cons.prems(1), of ev]
  have ev: "uncancelled ev" "list_all uncancelled evs" using Cons.prems(2) by simp_all
  from Cons.IH[OF s(1)[OF ev(1)] ev(2)] s(2-4)[OF ev(1)] show ?case by (auto simp del: relay_step.simps)
qed simp

lemma stopping_returned: "stopping w \<Longrightarrow> resumptions_left (relay_phase w) = 0 \<Longrightarrow> relay_phase w = Returned"
  by (auto simp: stopping_def)

lemma resumptions_left_le: "resumptions_left phase \<le> 2"
  by (cases phase) simp_all

lemma done_stays: "task_done w \<Longrightarrow> fold relay_step evs w = w"
proof (induction evs)
  case (Cons ev evs)
  then have "relay_step ev w = w" by (cases ev; cases "relay_phase w") (auto simp: relay_defs split: option.split)
  with Cons show ?case by (simp del: relay_step.simps)
qed simp

lemma cancel_effect:
  assumes "relay_alive w"
  shows "relay_phase (relay_step (Cancel outcome) (stop w)) =
      (if relay_phase w \<in> {Draining, Sleeping} then Returned else Died CancelledError)"
    and "\<exists>locked. relay_store (relay_step (Cancel outcome) (stop w)) \<in> {relay_store w, poll locked (relay_store w)}"
  using assms by (cases "relay_phase w"; auto simp: relay_defs stop_def split: option.split)+

text \<open>
  C28. The relay runs until it is told to end, and then it ends. From the start of the application, whatever
  batches drain or fail, the task is never done by itself. After \<open>stop\<close> it returns at the latest when it has
  been resumed twice, having drained one more batch at most; but a \<open>stop\<close> before the task has run at all is
  lost, and no number of resumptions ends it. The shutdown, which also cancels the task, ends it in every
  phase, before its first run too: the Redis client is then closed, no later event does anything, and
  the tables are as they were or as one whole batch left them.
\<close>

theorem shutdown_ends_relay:
  assumes "list_all uncancelled evs" and "w = fold relay_step evs (relay (startup s m))"
    and "list_all uncancelled rest" and "a = shutdown outcome \<lparr>relay = w, redis = m'\<rparr>"
  shows "\<not> task_done w \<and>
    (relay_phase w \<noteq> Created \<and> 2 \<le> length (filter is_resume rest) \<longrightarrow>
       relay_phase (fold relay_step rest (stop w)) = Returned \<and>
       (\<exists>locked. relay_store (fold relay_step rest (stop w)) \<in> {relay_store w, poll locked (relay_store w)})) \<and>
    (relay_phase w = Created \<longrightarrow> \<not> task_done (fold relay_step rest (stop w))) \<and>
    task_done (relay a) \<and> redis_pool (redis a) = None \<and> fold relay_step after (relay a) = relay a \<and>
    (\<exists>locked. relay_store (relay a) \<in> {relay_store w, poll locked (relay_store w)})"
proof -
  have "relay_alive (relay (startup s m))" by (simp add: startup_def relay_alive_def task_done_def)
  from alive_run[OF this assms(1)] have alive: "relay_alive w" by (simp add: assms(2))
  have stopped: "relay_phase (fold relay_step rest (stop w)) = Returned \<and>
      (\<exists>locked. relay_store (fold relay_step rest (stop w)) \<in> {relay_store w, poll locked (relay_store w)})"
    if "relay_phase w \<noteq> Created" "2 \<le> length (filter is_resume rest)"
  proof -
    have "stopping (stop w)" using alive that(1) by (cases "relay_phase w") (auto simp: relay_defs stopping_def stop_def)
    from stopping_run[OF this assms(3)] resumptions_left_le[of "relay_phase (stop w)"] that(2) show ?thesis
      by (auto simp: stop_def intro: stopping_returned)
  qed
  have lost: "\<not> task_done (fold relay_step rest (stop w))" if "relay_phase w = Created"
  proof -
    have "relay_alive (stop w)" using alive that by (simp add: relay_defs stop_def)
    from alive_run[OF this assms(3)] show ?thesis by (simp add: relay_alive_def)
  qed
  have r: "relay a = relay_step (Cancel outcome) (stop w)" by (simp add: assms(4) shutdown_def Let_def del: relay_step.simps)
  have "task_done (relay a)" using cancel_effect(1)[OF alive] by (simp add: r task_done_def del: relay_step.simps)
  moreover have "redis_pool (redis a) = None"
    using cancel_effect(1)[OF alive, of outcome]
    by (simp add: assms(4) shutdown_def Let_def close_redis_def del: relay_step.simps split: option.split)
  ultimately show ?thesis
    using alive stopped lost done_stays[of "relay a"] cancel_effect(2)[OF alive, of outcome]
    by (simp add: r relay_alive_def del: relay_step.simps)
qed

theorem shutdown_ends_relay_witness:
  "relay_phase (fold relay_step [Batch_fails, Resume {}, Resume {}]
     (stop (fold relay_step [Resume {}] (relay (startup sample_outbox \<lparr>redis_pool = None, closed_pools = [] :: nat list\<rparr>))))) = Returned \<and>
   task_done (relay (shutdown (Some {}) \<lparr>relay = fold relay_step [Resume {}] (relay (startup sample_outbox
     \<lparr>redis_pool = None, closed_pools = [] :: nat list\<rparr>)), redis = \<lparr>redis_pool = Some (0 :: nat), closed_pools = []\<rparr>\<rparr>))"
proof -
  let ?m = "\<lparr>redis_pool = None, closed_pools = [] :: nat list\<rparr>"
  let ?w = "fold relay_step [Resume {}] (relay (startup sample_outbox ?m))"
  let ?more = "[Batch_fails, Resume {}, Resume {}]"
  have "relay_phase ?w \<noteq> Created" by (simp add: startup_def loop_test_def)
  moreover have "list_all uncancelled [Resume {}]" "list_all uncancelled ?more" "2 \<le> length (filter is_resume ?more)"
    by (simp_all add: uncancelled_def is_resume_def)
  ultimately show ?thesis
    using shutdown_ends_relay[where evs = "[Resume {}]" and w = ?w and s = sample_outbox and m = ?m and rest = ?more
        and outcome = "Some {}" and m' = "\<lparr>redis_pool = Some 0, closed_pools = []\<rparr>", OF _ refl _ refl] by blast
qed

section \<open>The relay publishes\<close>

text \<open>
  C27. The relay publishes everything in spite of failures. From the start of the application, if at most
  50 * n events wait and f of the batches the event loop runs fail, then after n + 1 + 2 * f turns every
  event of the outbox is published.
\<close>

theorem relay_publishes_all:
  assumes "constraints (db s)" and "length (unpublished {} (outbox (db s))) \<le> 50 * n"
    and "n + 1 + 2 * length (filter Not turns) \<le> length turns"
  shows "unpublished {} (outbox (db (relay_store (fold relay_step (map turn turns) (relay (startup s m)))))) = []"
proof -
  have "relay_live (relay (startup s m))" "todo (relay (startup s m)) \<le> 50 * n"
    using assms(1,2) by (simp_all add: startup_def relay_live_def relay_alive_def task_done_def todo_def)
  from relay_drains[OF this, of turns] assms(3) show ?thesis by (simp add: turns_needed_def startup_def todo_def)
qed

theorem relay_publishes_all_witness:
  "unpublished {} (outbox (db (relay_store (fold relay_step (map turn [True, False, True, True])
     (relay (startup sample_outbox \<lparr>redis_pool = None, closed_pools = []\<rparr>)))))) = []"
proof (rule relay_publishes_all[OF sample_outbox_constraints, of 1])
  show "length (unpublished {} (outbox (db sample_outbox))) \<le> 50 * 1"
    by (simp add: sample_outbox_def unpublished_def sample_event_def)
qed simp

end
