(* ===== verification/Environment.thy ===== *)
theory Environment
  imports Migrations App "HOL-Library.AList"
begin

text \<open>
  The migration environment \<open>alembic/env.py\<close>, the script Alembic runs for every command: it puts the URL of
  the application into the configuration and runs the migrations, offline (printing SQL) or on a
  connection. The options live in a \<open>ConfigParser\<close> of the standard library, whose interpolation of \<open>%\<close> is
  written out; what Alembic does inside \<open>context.run_migrations\<close> is an argument.
\<close>

section \<open>Options\<close>

datatype env_error =
    Invalid_interpolation
  | Interpolation_syntax
  | Interpolation_missing string
  | Interpolation_depth
  | Option_missing string
  | Connection_refused
  | Migration_failed catalog_error

text \<open>A reference \<open>%(name)s\<close> at the start of a text, and the rest.\<close>

definition match_key :: "string \<Rightarrow> (string \<times> string) option" where
  "match_key s = (case s of
     c # d # r \<Rightarrow> if c = CHR ''%'' \<and> d = CHR ''('' then
         (let name = takeWhile (\<lambda>x. x \<noteq> CHR '')'') r; t = dropWhile (\<lambda>x. x \<noteq> CHR '')'') r in
          if name \<noteq> [] \<and> prefix '')s'' t then Some (name, drop 2 t) else None)
       else None
   | _ \<Rightarrow> None)"

lemma match_key_shorter: "match_key s = Some (n, r) \<Longrightarrow> length r < length s"
proof -
  assume "match_key s = Some (n, r)"
  then obtain c d u where s: "s = c # d # u" and r: "r = drop 2 (dropWhile (\<lambda>x. x \<noteq> CHR '')'') u)"
    by (auto simp: match_key_def Let_def split: list.splits if_splits)
  have "length r \<le> length u" unfolding r using length_dropWhile_le[of "\<lambda>x. x \<noteq> CHR '')''" u] by simp
  with s show ?thesis by simp
qed

text \<open>\<open>before_set\<close>: \<open>value.replace('%%', '')\<close>, then the references; a percent sign that is left is refused.\<close>

fun drop_escaped :: "string \<Rightarrow> string" where
  "drop_escaped (c # d # s) = (if c = CHR ''%'' \<and> d = CHR ''%'' then drop_escaped s else c # drop_escaped (d # s))"
| "drop_escaped s = s"

function drop_keys :: "string \<Rightarrow> string" where
  "drop_keys s = (case match_key s of
     Some (_, r) \<Rightarrow> drop_keys r
   | None \<Rightarrow> (case s of [] \<Rightarrow> [] | c # cs \<Rightarrow> c # drop_keys cs))"
  by pat_completeness auto
termination drop_keys
  by (relation "measure length") (auto dest: match_key_shorter)

definition before_set :: "string \<Rightarrow> env_error + string" where
  "before_set value = (if CHR ''%'' \<in> set (drop_keys (drop_escaped value)) then Inl Invalid_interpolation else Inr value)"

text \<open>\<open>before_get\<close>: the references are replaced by the other options, up to a depth of 10.\<close>

function interpolate :: "nat \<Rightarrow> (string \<rightharpoonup> string) \<Rightarrow> string \<Rightarrow> env_error + string" where
  "interpolate depth options s = (case s of
     [] \<Rightarrow> Inr []
   | c # cs \<Rightarrow>
       if c \<noteq> CHR ''%'' then map_sum id ((#) c) (interpolate depth options cs)
       else (case cs of
          [] \<Rightarrow> Inl Interpolation_syntax
        | d # ds \<Rightarrow>
            if d = CHR ''%'' then map_sum id ((#) (CHR ''%'')) (interpolate depth options ds)
            else if d = CHR ''('' then (case match_key s of
                None \<Rightarrow> Inl Interpolation_syntax
              | Some (name, r) \<Rightarrow> (case options (map lower_char name) of
                  None \<Rightarrow> Inl (Interpolation_missing (map lower_char name))
                | Some v \<Rightarrow> (case (if CHR ''%'' \<in> set v
                      then (case depth of 0 \<Rightarrow> Inl Interpolation_depth | Suc n \<Rightarrow> interpolate n options v) else Inr v) of
                    Inl e \<Rightarrow> Inl e
                  | Inr x \<Rightarrow> map_sum id ((@) x) (interpolate depth options r))))
            else Inl Interpolation_syntax))"
  by pat_completeness auto
termination interpolate
  by (relation "measures [fst, length \<circ> snd \<circ> snd]") (auto dest: match_key_shorter)

declare drop_keys.simps [simp del] interpolate.simps [simp del]

definition get_option :: "(string \<times> string) list \<Rightarrow> string \<Rightarrow> env_error + string" where
  "get_option options name = (case map_of options name of
     None \<Rightarrow> Inl (Option_missing name) | Some v \<Rightarrow> interpolate 9 (map_of options) v)"

fun get_section :: "(string \<rightharpoonup> string) \<Rightarrow> (string \<times> string) list \<Rightarrow> env_error + (string \<times> string) list" where
  "get_section options [] = Inr []"
| "get_section options ((k, v) # kvs) = (case interpolate 9 options v of
     Inl e \<Rightarrow> Inl e | Inr x \<Rightarrow> map_sum id ((#) (k, x)) (get_section options kvs))"

section \<open>The script\<close>

text \<open>
  \<open>options\<close> is the section of the ini file that Alembic runs with. \<open>databases\<close> are the databases that answer
  under a URL; \<open>printed\<close> what offline runs have written.
\<close>

record alembic_config =
  config_file_name :: "string option"
  options :: "(string \<times> string) list"

record env_world =
  databases :: "string \<rightharpoonup> catalog"
  printed :: "string list"
  logging_from :: "string option"
  connections :: nat
  engines :: nat

definition run_migrations_offline :: "(string \<Rightarrow> env_error + string) \<Rightarrow> alembic_config \<Rightarrow> env_world \<Rightarrow>
    (env_error + unit) \<times> env_world" where
  "run_migrations_offline sql cfg w = (case get_option (options cfg) ''sqlalchemy.url'' of
     Inl e \<Rightarrow> (Inl e, w)
   | Inr url \<Rightarrow> (case sql url of Inl e \<Rightarrow> (Inl e, w) | Inr text \<Rightarrow> (Inr (), w\<lparr>printed := printed w @ [text]\<rparr>)))"

text \<open>\<open>with context.begin_transaction()\<close>: what the migrations did is committed when they return, and undone when they raise.\<close>

definition do_run_migrations :: "(catalog \<Rightarrow> catalog_error + catalog) \<Rightarrow> string \<Rightarrow> catalog \<Rightarrow> env_world \<Rightarrow>
    (env_error + unit) \<times> env_world" where
  "do_run_migrations scripts url c w = (case scripts c of
     Inl e \<Rightarrow> (Inl (Migration_failed e), w)
   | Inr c' \<Rightarrow> (Inr (), w\<lparr>databases := (databases w)(url \<mapsto> c')\<rparr>))"

text \<open>
  The engine is made from the options with prefix \<open>sqlalchemy.\<close>. \<open>async with\<close> closes the connection in any
  case; the engine is disposed of only when the migrations have returned.
\<close>

definition run_async_migrations :: "(catalog \<Rightarrow> catalog_error + catalog) \<Rightarrow> alembic_config \<Rightarrow> env_world \<Rightarrow>
    (env_error + unit) \<times> env_world" where
  "run_async_migrations scripts cfg w = (case get_section (map_of (options cfg)) (options cfg) of
     Inl e \<Rightarrow> (Inl e, w)
   | Inr section \<Rightarrow> (case map_of section ''sqlalchemy.url'' of
       None \<Rightarrow> (Inl (Option_missing ''sqlalchemy.url''), w)
     | Some url \<Rightarrow> (let w1 = w\<lparr>engines := engines w + 1\<rparr> in case databases w url of
         None \<Rightarrow> (Inl Connection_refused, w1)
       | Some c \<Rightarrow> (let w2 = w1\<lparr>connections := connections w1 + 1\<rparr>; (r, w3) = do_run_migrations scripts url c w2;
             w4 = w3\<lparr>connections := connections w3 - 1\<rparr> in
           (r, case r of Inl _ \<Rightarrow> w4 | Inr _ \<Rightarrow> w4\<lparr>engines := engines w4 - 1\<rparr>)))))"

definition env_py :: "Settings \<Rightarrow> bool \<Rightarrow> (string \<Rightarrow> env_error + string) \<Rightarrow> (catalog \<Rightarrow> catalog_error + catalog) \<Rightarrow>
    alembic_config \<Rightarrow> env_world \<Rightarrow> (env_error + unit) \<times> env_world" where
  "env_py st offline sql scripts cfg w = (let
       w1 = (case config_file_name cfg of None \<Rightarrow> w | Some f \<Rightarrow> w\<lparr>logging_from := Some f\<rparr>) in
     case before_set (DATABASE_URL st) of
       Inl e \<Rightarrow> (Inl e, w1)
     | Inr url \<Rightarrow> (let cfg1 = cfg\<lparr>options := AList.update ''sqlalchemy.url'' url (options cfg)\<rparr> in
         if offline then run_migrations_offline sql cfg1 w1 else run_async_migrations scripts cfg1 w1))"

section \<open>Options without percent signs\<close>

abbreviation no_percent :: "string \<Rightarrow> bool" where
  "no_percent s \<equiv> CHR ''%'' \<notin> set s"

lemma match_key_percent: "match_key s = Some x \<Longrightarrow> \<exists>r. s = CHR ''%'' # CHR ''('' # r"
  by (auto simp: match_key_def split: list.splits if_splits)

lemma drop_escaped_plain: "no_percent s \<Longrightarrow> drop_escaped s = s"
  by (induction s rule: drop_escaped.induct) auto

lemma drop_keys_plain: "no_percent s \<Longrightarrow> drop_keys s = s"
proof (induction s)
  case Nil
  then show ?case by (simp add: drop_keys.simps match_key_def)
next
  case (Cons c cs)
  then have "match_key (c # cs) = None" using match_key_percent[of "c # cs"] by (cases "match_key (c # cs)") auto
  with Cons show ?case by (simp add: drop_keys.simps[of "c # cs"])
qed

lemma before_set_plain: "no_percent s \<Longrightarrow> before_set s = Inr s"
  by (simp add: before_set_def drop_escaped_plain drop_keys_plain)

lemma interpolate_plain: "no_percent s \<Longrightarrow> interpolate n m s = Inr s"
proof (induction s)
  case Nil
  then show ?case by (simp add: interpolate.simps)
next
  case (Cons c cs)
  then have "c \<noteq> CHR ''%''" by auto
  with Cons show ?case by (simp add: interpolate.simps[of n m "c # cs"])
qed

lemma get_section_plain: "list_all (\<lambda>(k, v). no_percent v) kvs \<Longrightarrow> get_section m kvs = Inr kvs"
  by (induction kvs rule: get_section.induct) (auto simp: interpolate_plain)

lemma update_plain: "no_percent v \<Longrightarrow> list_all (\<lambda>(k, v). no_percent v) kvs \<Longrightarrow>
    list_all (\<lambda>(k, v). no_percent v) (AList.update k v kvs)"
  by (induction kvs) auto

text \<open>A percent sign that is not part of \<open>%%\<close> or \<open>%(\<close> is refused, wherever the first one stands.\<close>

lemma before_set_percent:
  assumes "no_percent a" and "c \<noteq> CHR ''%''" and "c \<noteq> CHR ''(''"
  shows "before_set (a @ CHR ''%'' # c # b) = Inl Invalid_interpolation"
proof -
  obtain r where r: "drop_escaped (c # b) = c # r" using assms(2) by (cases b) auto
  have "drop_escaped (a @ CHR ''%'' # c # b) = a @ CHR ''%'' # c # r"
    using assms(1)
  proof (induction a)
    case Nil
    then show ?case using assms(2) r by simp
  next
    case (Cons x xs)
    then show ?case by (cases xs) auto
  qed
  moreover have "CHR ''%'' \<in> set (drop_keys (a @ CHR ''%'' # c # r))"
    using assms(1)
  proof (induction a)
    case Nil
    have "match_key (CHR ''%'' # c # r) = None"
      using assms(3) match_key_percent[of "CHR ''%'' # c # r"] by (cases "match_key (CHR ''%'' # c # r)") auto
    then show ?case by (simp add: drop_keys.simps[of "CHR ''%'' # c # r"])
  next
    case (Cons x xs)
    let ?s = "(x # xs) @ CHR ''%'' # c # r"
    have "match_key ?s = None" using Cons.prems match_key_percent[of ?s] by (cases "match_key ?s") auto
    then have "drop_keys ?s = x # drop_keys (xs @ CHR ''%'' # c # r)" by (simp add: drop_keys.simps[of "x # xs @ CHR ''%'' # c # r"])
    with Cons show ?case by simp
  qed
  ultimately show ?thesis by (simp add: before_set_def)
qed

section \<open>Properties\<close>

text \<open>
  C26. The migrations run where the application runs, and all or nothing. When neither the URL of the
  settings nor another option has a percent sign, an online run of the environment runs the migrations on
  the database at \<open>DATABASE_URL\<close> and on no other: when they return, their result is committed, when they
  raise, every database is as before; in both cases the connection is closed, and an offline run prints
  and changes no database.
\<close>

theorem env_runs_migrations:
  assumes "no_percent (DATABASE_URL st)" and "list_all (\<lambda>(k, v). no_percent v) (options cfg)"
    and "databases w (DATABASE_URL st) = Some c" and "sql (DATABASE_URL st) = Inr text"
  shows "(case env_py st False sql scripts cfg w of (r, w') \<Rightarrow> connections w' = connections w \<and> (case scripts c of
       Inl e \<Rightarrow> r = Inl (Migration_failed e) \<and> databases w' = databases w
     | Inr c' \<Rightarrow> r = Inr () \<and> databases w' = (databases w)(DATABASE_URL st \<mapsto> c') \<and> engines w' = engines w)) \<and>
    (case env_py st True sql scripts cfg w of (r, w') \<Rightarrow> r = Inr () \<and> databases w' = databases w \<and>
       printed w' = printed w @ [text])"
proof -
  let ?url = "DATABASE_URL st" and ?o = "AList.update ''sqlalchemy.url'' (DATABASE_URL st) (options cfg)"
  have "map_of ?o ''sqlalchemy.url'' = Some ?url" by (simp add: update_conv')
  moreover have "get_section m ?o = Inr ?o" for m using assms(1,2) by (intro get_section_plain update_plain)
  moreover have "get_option ?o ''sqlalchemy.url'' = Inr ?url"
    using assms(1) by (simp add: get_option_def update_conv' interpolate_plain)
  ultimately show ?thesis
    using assms by (simp add: env_py_def before_set_plain run_async_migrations_def run_migrations_offline_def
        do_run_migrations_def Let_def split: sum.split option.split)
qed

definition sample_ini :: alembic_config where
  "sample_ini = \<lparr>config_file_name = Some ''alembic.ini'', options = [(''script_location'', ''alembic'')]\<rparr>"

definition sample_env_world :: env_world where
  "sample_env_world = \<lparr>databases = [DATABASE_URL default_settings \<mapsto> alembic_catalog], printed = [],
     logging_from = None, connections = 0, engines = 0\<rparr>"

theorem env_runs_migrations_witness:
  "\<exists>w. env_py default_settings False Inr (apply_ops 0 (upgrade_001 @ upgrade_002)) sample_ini sample_env_world = (Inr (), w) \<and>
     databases w (DATABASE_URL default_settings) = Some (overlay alembic_catalog (engine_catalog (upgrade 0)))"
proof -
  let ?scripts = "apply_ops 0 (upgrade_001 @ upgrade_002)"
  have "no_percent (DATABASE_URL default_settings)" by code_simp
  moreover have "list_all (\<lambda>(k, v). no_percent v) (options sample_ini)" by code_simp
  moreover have "databases sample_env_world (DATABASE_URL default_settings) = Some alembic_catalog"
    by (simp add: sample_env_world_def)
  moreover have "?scripts alembic_catalog = Inr (overlay alembic_catalog (engine_catalog (upgrade 0)))"
  proof -
    have "unrelated migration_names alembic_catalog" by code_simp
    from upgrade_beside[OF this] show ?thesis by simp
  qed
  ultimately show ?thesis
    using env_runs_migrations[of default_settings sample_ini sample_env_world alembic_catalog Inr _ ?scripts]
    by (fastforce split: prod.splits)
qed

text \<open>
  A percent sign in a setting stops every migration, although the URL is good for the application: the
  options refuse it unless it is doubled or starts a reference.
\<close>

lemma percent_stops_migrations:
  assumes "DATABASE_URL st = a @ CHR ''%'' # c # b" and "no_percent a" and "c \<noteq> CHR ''%''" and "c \<noteq> CHR ''(''"
  shows "fst (env_py st offline sql scripts cfg w) = Inl Invalid_interpolation"
    and "databases (snd (env_py st offline sql scripts cfg w)) = databases w"
    and "printed (snd (env_py st offline sql scripts cfg w)) = printed w"
  using before_set_percent[OF assms(2-4), of b]
  by (simp_all add: env_py_def assms(1) Let_def split: option.split)

lemma percent_password:
  "fst (env_py (default_settings\<lparr>cfg_DB_PASSWORD := ''p%40ss''\<rparr>) offline sql scripts cfg w) = Inl Invalid_interpolation"
proof (rule percent_stops_migrations(1))
  show "DATABASE_URL (default_settings\<lparr>cfg_DB_PASSWORD := ''p%40ss''\<rparr>) =
      ''postgresql+asyncpg://payments:p'' @ CHR ''%'' # CHR ''4'' # ''0ss@localhost:5432/payments''" by code_simp
qed simp_all

end
