(* ===== verification/Locks.thy ===== *)
theory Locks
  imports Reconciliation
begin

text \<open>
  Row locks of concurrent transactions. Each \<open>SELECT ... FOR UPDATE\<close> of the services takes one row and
  keeps it until the transaction ends. The program of a transaction is the list of rows it locks, in
  the order of the code; sessions run their programs side by side. A session waits while another
  owns the row it wants next. With programs that go up in one order no set of sessions can block
  itself; the programs of hold, settle, reverse, refund and of the webhook are of this kind, and the
  expiry of several holds is not. The lists are read off the statements of the code, \<open>expire_locks\<close> from the
  query and the loop of \<open>expire_stale_holds\<close>; they are not derived from the functions of the services.
\<close>

section \<open>Rows and their order\<close>

datatype lock_row = Payment_row UUID | Balance_row UUID

fun lock_key :: "lock_row \<Rightarrow> bool \<times> UUID" where
  "lock_key (Payment_row i) = (False, i)"
| "lock_key (Balance_row i) = (True, i)"

instantiation lock_row :: linorder
begin

definition less_eq_lock_row :: "lock_row \<Rightarrow> lock_row \<Rightarrow> bool" where
  "less_eq_lock_row a b \<longleftrightarrow> fst (lock_key a) < fst (lock_key b) \<or>
     fst (lock_key a) = fst (lock_key b) \<and> snd (lock_key a) \<le> snd (lock_key b)"

definition less_lock_row :: "lock_row \<Rightarrow> lock_row \<Rightarrow> bool" where
  "less_lock_row a b \<longleftrightarrow> a \<le> b \<and> \<not> b \<le> (a :: lock_row)"

instance
proof
  fix a b c :: lock_row
  show "a < b \<longleftrightarrow> a \<le> b \<and> \<not> b \<le> a" by (simp add: less_lock_row_def)
  show "a \<le> a" by (simp add: less_eq_lock_row_def)
  show "a \<le> b \<Longrightarrow> b \<le> c \<Longrightarrow> a \<le> c" by (auto simp: less_eq_lock_row_def)
  show "a \<le> b \<Longrightarrow> b \<le> a \<Longrightarrow> a = b" by (cases a; cases b) (auto simp: less_eq_lock_row_def)
  show "a \<le> b \<or> b \<le> a" by (auto simp: less_eq_lock_row_def)
qed

end

section \<open>Sessions\<close>

record 'l session =
  owns :: "'l list"
  wants :: "'l list"

definition begin_session :: "'l list \<Rightarrow> 'l session" where
  "begin_session prog = \<lparr>owns = [], wants = prog\<rparr>"

definition ended :: "'l session \<Rightarrow> bool" where
  "ended s \<longleftrightarrow> owns s = [] \<and> wants s = []"

definition owned_elsewhere :: "'l session list \<Rightarrow> nat \<Rightarrow> 'l \<Rightarrow> bool" where
  "owned_elsewhere ss i l \<longleftrightarrow> (\<exists>j < length ss. j \<noteq> i \<and> l \<in> set (owns (ss ! j)))"

inductive lock_step :: "'l session list \<Rightarrow> 'l session list \<Rightarrow> bool" where
  acquire: "i < length ss \<Longrightarrow> wants (ss ! i) = l # ls \<Longrightarrow> \<not> owned_elsewhere ss i l \<Longrightarrow>
    lock_step ss (ss[i := \<lparr>owns = l # owns (ss ! i), wants = ls\<rparr>])"
| finish: "i < length ss \<Longrightarrow> wants (ss ! i) = [] \<Longrightarrow> owns (ss ! i) \<noteq> [] \<Longrightarrow>
    lock_step ss (ss[i := \<lparr>owns = [], wants = []\<rparr>])"

inductive_cases lock_stepE: "lock_step ss ss'"

section \<open>Ordered programs\<close>

text \<open>What every reachable state of ordered sessions satisfies.\<close>

definition ordered_session :: "'l :: linorder session \<Rightarrow> bool" where
  "ordered_session s \<longleftrightarrow> sorted (wants s) \<and> (\<forall>a \<in> set (owns s). \<forall>b \<in> set (wants s). a \<le> b)"

definition locks_inv :: "'l :: linorder session list \<Rightarrow> bool" where
  "locks_inv ss \<longleftrightarrow> (\<forall>i < length ss. ordered_session (ss ! i)) \<and>
     (\<forall>i < length ss. \<forall>l \<in> set (owns (ss ! i)). \<not> owned_elsewhere ss i l)"

lemma locks_inv_begin: "\<forall>prog \<in> set progs. sorted prog \<Longrightarrow> locks_inv (map begin_session progs)"
  by (auto simp: locks_inv_def ordered_session_def begin_session_def owned_elsewhere_def)

lemma locks_inv_step:
  assumes "lock_step ss ss'" and "locks_inv ss"
  shows "locks_inv ss'"
  using assms(1)
proof cases
  case (acquire i l ls)
  have o: "ordered_session (ss ! i)" using assms(2) acquire(2) by (simp add: locks_inv_def)
  have "ordered_session \<lparr>owns = l # owns (ss ! i), wants = ls\<rparr>"
    using o acquire(3) by (auto simp: ordered_session_def)
  moreover have "\<not> owned_elsewhere ss' j x" if jx: "j < length ss" "x \<in> set (owns (ss' ! j))" for j x
  proof
    assume "owned_elsewhere ss' j x"
    then obtain k where k: "k < length ss" "k \<noteq> j" "x \<in> set (owns (ss' ! k))"
      by (auto simp: owned_elsewhere_def acquire(1))
    consider "j = i" "x = l" | "k = i" "x = l" | "x \<in> set (owns (ss ! j))" "x \<in> set (owns (ss ! k))"
      using jx k acquire(1,2) by (auto simp: nth_list_update split: if_splits)
    then show False
    proof cases
      case 1
      with k acquire(1,4) show False by (auto simp: owned_elsewhere_def)
    next
      case 2
      with jx k acquire(1,4) show False by (auto simp: owned_elsewhere_def)
    next
      case 3
      with jx k assms(2) show False by (auto simp: locks_inv_def owned_elsewhere_def)
    qed
  qed
  ultimately show ?thesis using assms(2) by (auto simp: locks_inv_def acquire(1,2) nth_list_update)
next
  case (finish i)
  have "ordered_session (ss' ! j)" if "j < length ss" for j
    using assms(2) that by (auto simp: locks_inv_def finish(1,2) nth_list_update ordered_session_def)
  moreover have "\<not> owned_elsewhere ss' j x" if "j < length ss" "x \<in> set (owns (ss' ! j))" for j x
    using assms(2) that by (auto simp: locks_inv_def owned_elsewhere_def finish(1,2) nth_list_update split: if_splits)
  ultimately show ?thesis by (simp add: locks_inv_def finish(1))
qed

text \<open>No deadlock: the session that waits for the greatest row waits for one that can go on.\<close>

lemma ordered_progress:
  assumes "locks_inv ss" and "i < length ss" and "\<not> ended (ss ! i)"
  shows "\<exists>ss'. lock_step ss ss'"
proof (rule ccontr)
  assume stuck: "\<nexists>ss'. lock_step ss ss'"
  let ?W = "{(l, i). i < length ss \<and> (\<exists>ls. wants (ss ! i) = l # ls)}"
  have wants: "\<exists>l ls. wants (ss ! j) = l # ls" if "j < length ss" "\<not> ended (ss ! j)" for j
    using stuck that finish[of j ss] by (cases "wants (ss ! j)") (auto simp: ended_def)
  have "finite ?W"
    by (rule finite_subset[of _ "(\<Union>s \<in> set ss. set (wants s)) \<times> {..<length ss}"])
      (auto, metis list.set_intros(1) nth_mem)
  moreover have "?W \<noteq> {}" using wants[OF assms(2,3)] assms(2) by blast
  ultimately have fin: "finite (fst ` ?W)" "fst ` ?W \<noteq> {}" by simp_all
  let ?m = "Max (fst ` ?W)"
  from Max_in[OF fin] obtain j ls where j: "j < length ss" "wants (ss ! j) = ?m # ls" by auto
  have "owned_elsewhere ss j ?m" using stuck j acquire[of j ss ?m ls] by blast
  then obtain k where k: "k < length ss" "k \<noteq> j" "?m \<in> set (owns (ss ! k))" by (auto simp: owned_elsewhere_def)
  then have "\<not> ended (ss ! k)" by (auto simp: ended_def)
  from wants[OF k(1) this] obtain l ls' where l: "wants (ss ! k) = l # ls'" by blast
  have "?m \<le> l" using assms(1) k l by (auto simp: locks_inv_def ordered_session_def)
  moreover have "l \<le> ?m" using fin(1) k(1) l by (intro Max_ge) force+
  ultimately have "l = ?m" by simp
  moreover have "owned_elsewhere ss k l" using stuck k l acquire[of k ss l ls'] by blast
  ultimately show False using assms(1) k by (auto simp: locks_inv_def)
qed

text \<open>Every run ends: a step uses up a wanted row or a session.\<close>

definition work :: "'l session \<Rightarrow> nat" where
  "work s = 2 * length (wants s) + (if owns s = [] then 0 else 1)"

lemma lock_step_work:
  assumes "lock_step ss ss'"
  shows "sum_list (map work ss') < sum_list (map work ss)"
  using assms by cases (auto intro!: sum_list_update_less simp: work_def)

lemma locks_inv_run: "lock_step\<^sup>*\<^sup>* ss ss' \<Longrightarrow> locks_inv ss \<Longrightarrow> locks_inv ss'"
  by (induction rule: rtranclp_induct) (auto intro: locks_inv_step)

lemma ordered_runs_end:
  assumes "locks_inv ss"
  shows "\<exists>ss'. lock_step\<^sup>*\<^sup>* ss ss' \<and> list_all ended ss'"
  using assms
proof (induction "sum_list (map work ss)" arbitrary: ss rule: less_induct)
  case less
  show ?case
  proof (cases "list_all ended ss")
    case True
    then show ?thesis by blast
  next
    case False
    then obtain i where "i < length ss" "\<not> ended (ss ! i)" by (auto simp: list_all_length)
    with less.prems obtain ss1 where s1: "lock_step ss ss1" by (auto dest: ordered_progress)
    from less.hyps[OF lock_step_work[OF s1] locks_inv_step[OF s1 less.prems]] s1 show ?thesis
      by (auto intro: converse_rtranclp_into_rtranclp)
  qed
qed

section \<open>Schedules\<close>

text \<open>The same steps as a function of the session that moves, to run concrete schedules.\<close>

definition try_step :: "nat \<Rightarrow> 'l session list \<Rightarrow> 'l session list option" where
  "try_step i ss = (if i < length ss then (case wants (ss ! i) of
       l # ls \<Rightarrow> if owned_elsewhere ss i l then None else Some (ss[i := \<lparr>owns = l # owns (ss ! i), wants = ls\<rparr>])
     | [] \<Rightarrow> if owns (ss ! i) = [] then None else Some (ss[i := \<lparr>owns = [], wants = []\<rparr>]))
   else None)"

fun run_schedule :: "nat list \<Rightarrow> 'l session list \<Rightarrow> 'l session list option" where
  "run_schedule [] ss = Some ss"
| "run_schedule (i # is) ss = (case try_step i ss of None \<Rightarrow> None | Some ss' \<Rightarrow> run_schedule is ss')"

lemma try_step_sound: "try_step i ss = Some ss' \<Longrightarrow> lock_step ss ss'"
  using acquire[of i ss] finish[of i ss]
  by (cases "wants (ss ! i)") (auto simp: try_step_def split: if_splits)

lemma try_step_complete:
  assumes "lock_step ss ss'"
  shows "\<exists>i < length ss. try_step i ss = Some ss'"
  using assms
proof cases
  case (acquire i l ls)
  then have "try_step i ss = Some ss'" by (simp add: try_step_def)
  with acquire(2) show ?thesis by blast
next
  case (finish i)
  then have "try_step i ss = Some ss'" by (simp add: try_step_def)
  with finish(2) show ?thesis by blast
qed

lemma run_schedule_sound: "run_schedule is ss = Some ss' \<Longrightarrow> lock_step\<^sup>*\<^sup>* ss ss'"
  by (induction "is" arbitrary: ss)
    (auto split: option.splits intro: converse_rtranclp_into_rtranclp dest: try_step_sound)

lemma no_step_iff: "(\<nexists>ss'. lock_step ss ss') \<longleftrightarrow> list_all (\<lambda>i. try_step i ss = None) [0..<length ss]"
proof
  assume "\<nexists>ss'. lock_step ss ss'"
  then have "try_step i ss = None" for i using try_step_sound[of i ss] by (cases "try_step i ss") auto
  then show "list_all (\<lambda>i. try_step i ss = None) [0..<length ss]" by (simp add: list_all_iff)
next
  assume "list_all (\<lambda>i. try_step i ss = None) [0..<length ss]"
  then show "\<nexists>ss'. lock_step ss ss'" using try_step_complete[of ss] by (fastforce simp: list_all_iff)
qed

section \<open>The programs of the services\<close>

definition post_locks :: "Posting list \<Rightarrow> lock_row list" where
  "post_locks ps = map Balance_row (sorted_account_ids ps)"

definition hold_locks :: "Payment \<Rightarrow> lock_row list" where
  "hold_locks p = post_locks (transfer (pay_payer_account p) PSP_SUSPENSE_ACCOUNT_ID (pay_amount p))"

definition settle_locks :: "Payment \<Rightarrow> lock_row list" where
  "settle_locks p = Payment_row (pay_id p) #
     post_locks (transfer PSP_SUSPENSE_ACCOUNT_ID (pay_payee_account p) (pay_amount p))"

definition reverse_locks :: "Payment \<Rightarrow> lock_row list" where
  "reverse_locks p = Payment_row (pay_id p) #
     post_locks (transfer PSP_SUSPENSE_ACCOUNT_ID (pay_payer_account p) (pay_amount p))"

fun resolve_locks :: "AuthorizationOutcome \<Rightarrow> Payment \<Rightarrow> lock_row list" where
  "resolve_locks CAPTURED p = settle_locks p"
| "resolve_locks DECLINED p = reverse_locks p"
| "resolve_locks AuthorizationOutcome.PENDING p = [Payment_row (pay_id p)]"

definition webhook_locks :: "AuthorizationOutcome \<Rightarrow> Payment \<Rightarrow> lock_row list" where
  "webhook_locks out p = Payment_row (pay_id p) # resolve_locks out p"

definition refund_locks :: "Payment \<Rightarrow> int \<Rightarrow> lock_row list" where
  "refund_locks p x = Payment_row (pay_id p) #
     post_locks (transfer (pay_payee_account p) (pay_payer_account p) x)"

definition expire_locks :: "Payment list \<Rightarrow> lock_row list" where
  "expire_locks ps = map (\<lambda>p. Payment_row (pay_id p)) ps @ concat (map reverse_locks ps)"

datatype tx =
    Hold_tx Payment
  | Resolve_tx AuthorizationOutcome Payment
  | Webhook_tx AuthorizationOutcome Payment
  | Refund_tx Payment int

fun tx_locks :: "tx \<Rightarrow> lock_row list" where
  "tx_locks (Hold_tx p) = hold_locks p"
| "tx_locks (Resolve_tx out p) = resolve_locks out p"
| "tx_locks (Webhook_tx out p) = webhook_locks out p"
| "tx_locks (Refund_tx p x) = refund_locks p x"

locale ordered_locking =
  fixes program :: "'op \<Rightarrow> 'l :: linorder list"
  assumes program_sorted: "sorted (program t)"
begin

lemma run_inv: "lock_step\<^sup>*\<^sup>* (map (\<lambda>t. begin_session (program t)) ts) ss \<Longrightarrow> locks_inv ss"
  using locks_inv_begin[of "map program ts"] by (auto simp: program_sorted comp_def intro: locks_inv_run)

lemma never_stuck:
  assumes "lock_step\<^sup>*\<^sup>* (map (\<lambda>t. begin_session (program t)) ts) ss"
  shows "list_all ended ss \<or> (\<exists>ss'. lock_step ss ss')"
  using ordered_progress[OF run_inv[OF assms]] by (auto simp: list_all_length)

lemma all_end:
  assumes "lock_step\<^sup>*\<^sup>* (map (\<lambda>t. begin_session (program t)) ts) ss"
  shows "\<exists>ss'. lock_step\<^sup>*\<^sup>* ss ss' \<and> list_all ended ss'"
  using ordered_runs_end[OF run_inv[OF assms]] .

end

lemma post_locks_sorted: "sorted (post_locks ps)" "l \<in> set (post_locks ps) \<Longrightarrow> \<exists>i. l = Balance_row i"
proof -
  have "sorted (sorted_account_ids ps)" by (simp add: sorted_account_ids_def)
  moreover have "sorted (map Balance_row xs) = sorted xs" for xs
    by (induction xs) (auto simp: less_eq_lock_row_def)
  ultimately show "sorted (post_locks ps)" by (simp add: post_locks_def)
  show "l \<in> set (post_locks ps) \<Longrightarrow> \<exists>i. l = Balance_row i" by (auto simp: post_locks_def)
qed

lemma payment_first_sorted: "sorted (Payment_row i # post_locks ps)"
  using post_locks_sorted(1)[of ps] by (auto simp: less_eq_lock_row_def dest!: post_locks_sorted(2))

lemma resolve_locks_sorted: "sorted (resolve_locks out p)" "\<forall>l \<in> set (resolve_locks out p). Payment_row (pay_id p) \<le> l"
  using payment_first_sorted[of "pay_id p"]
  by (cases out; simp add: settle_locks_def reverse_locks_def)+

interpretation services: ordered_locking tx_locks
proof
  fix t
  show "sorted (tx_locks t)"
    using post_locks_sorted(1) payment_first_sorted resolve_locks_sorted
    by (cases t) (simp_all add: hold_locks_def webhook_locks_def refund_locks_def)
qed

section \<open>Properties\<close>

text \<open>
  Transactions of the services cannot block one another for ever. Holds, resolutions, webhooks and
  refunds, any number of them at once and on any accounts, lock their rows in one common order
  (payments before balances, balances by account); in every state they reach together either all
  have ended or one can go on, and all of them can end.
\<close>

theorem transactions_deadlock_free:
  assumes "lock_step\<^sup>*\<^sup>* (map (\<lambda>t. begin_session (tx_locks t)) txs) ss"
  shows "(list_all ended ss \<or> (\<exists>ss'. lock_step ss ss')) \<and> (\<exists>ss'. lock_step\<^sup>*\<^sup>* ss ss' \<and> list_all ended ss')"
  using services.never_stuck[OF assms] services.all_end[OF assms] by blast

definition lock_payment :: "UUID \<Rightarrow> UUID \<Rightarrow> UUID \<Rightarrow> Payment" where
  "lock_payment i payer payee = \<lparr>pay_id = i, pay_merchant_id = ''m'', pay_payer_account = payer,
     pay_payee_account = payee, pay_amount = 40, pay_currency = ''INR'', pay_status = PaymentStatus.AUTHORIZED,
     pay_psp_reference = None, pay_refunded_amount = 0, pay_version = 0, pay_created_at = 0, pay_updated_at = 0\<rparr>"

theorem transactions_deadlock_free_witness:
  "\<exists>ss ss'. run_schedule [0, 1, 0] (map (\<lambda>t. begin_session (tx_locks t))
       [Refund_tx (lock_payment (UUID 50) (UUID 3) (UUID 4)) 10, Refund_tx (lock_payment (UUID 51) (UUID 4) (UUID 3)) 10]) = Some ss \<and>
     lock_step ss ss'"
proof -
  let ?txs = "[Refund_tx (lock_payment (UUID 50) (UUID 3) (UUID 4)) 10, Refund_tx (lock_payment (UUID 51) (UUID 4) (UUID 3)) 10]"
  obtain ss where ss: "run_schedule [0, 1, 0] (map (\<lambda>t. begin_session (tx_locks t)) ?txs) = Some ss"
    and "\<not> list_all ended ss"
  proof -
    have "case run_schedule [0, 1, 0] (map (\<lambda>t. begin_session (tx_locks t)) ?txs) of
        None \<Rightarrow> False | Some ss \<Rightarrow> \<not> list_all ended ss" by code_simp
    with that show thesis by (auto split: option.splits)
  qed
  with transactions_deadlock_free[OF run_schedule_sound[OF ss]] show ?thesis by blast
qed

text \<open>
  C38. The expiry of several holds can deadlock with a refund. It reverses its payments in one
  transaction, so it locks the balances of a later payment after those of an earlier one, out of
  order: with two stale holds and a refund between their payers there is a state in which the expiry
  and the refund wait for each other and no session can go on.
\<close>

theorem expire_can_deadlock:
  "\<exists>ss. lock_step\<^sup>*\<^sup>* (map begin_session
       [expire_locks [lock_payment (UUID 50) (UUID 4) (UUID 5), lock_payment (UUID 51) (UUID 3) (UUID 5)],
        tx_locks (Refund_tx (lock_payment (UUID 52) (UUID 4) (UUID 3)) 10)]) ss \<and>
     \<not> list_all ended ss \<and> (\<nexists>ss'. lock_step ss ss')"
proof -
  let ?ss = "map begin_session
       [expire_locks [lock_payment (UUID 50) (UUID 4) (UUID 5), lock_payment (UUID 51) (UUID 3) (UUID 5)],
        tx_locks (Refund_tx (lock_payment (UUID 52) (UUID 4) (UUID 3)) 10)]"
  have "case run_schedule [0, 0, 0, 0, 0, 0, 0, 1, 1] ?ss of
      None \<Rightarrow> False | Some ss \<Rightarrow> \<not> list_all ended ss \<and> list_all (\<lambda>i. try_step i ss = None) [0..<length ss]"
    by code_simp
  then obtain ss where "run_schedule [0, 0, 0, 0, 0, 0, 0, 1, 1] ?ss = Some ss"
    and "\<not> list_all ended ss" "list_all (\<lambda>i. try_step i ss = None) [0..<length ss]"
    by (auto split: option.splits)
  then show ?thesis using run_schedule_sound no_step_iff by metis
qed

end
