(* ===== verification/Contention.thy ===== *)
theory Contention
  imports Locks Foundations
begin

text \<open>
  Sessions that post at the same time. Each session runs the statements of \<open>LedgerService.post\<close> on the
  balance rows one by one: \<open>SELECT ... FOR UPDATE\<close> of an account, in the order of the identifiers; one
  posting after the other on the rows it read; the commit, which publishes what it wrote, or the
  exception, which throws it away. Between any two statements other sessions run. The theorems say
  that the row locks make this equal to one call after the other, and that money is never sold twice.
\<close>

section \<open>Sessions\<close>

datatype fate = Running | Raised exn | Committed

text \<open>
  \<open>balances_map\<close> is the dictionary of the rows the session holds, with what it has written to them and
  not committed; \<open>row_missing\<close> is set between a \<open>SELECT\<close> that found no row and the \<open>INSERT\<close> that follows.
\<close>

record poster =
  call_postings :: "Posting list"
  todo_locks :: "UUID list"
  row_missing :: bool
  balances_map :: "UUID \<rightharpoonup> int"
  todo_postings :: "Posting list"
  fate :: fate

record traffic =
  committed :: "UUID \<rightharpoonup> int"
  posters :: "poster list"
  endings :: "nat list"

definition begin_post :: "Posting list \<Rightarrow> poster" where
  "begin_post ps = \<lparr>call_postings = ps, todo_locks = sorted_account_ids ps, row_missing = False,
     balances_map = Map.empty, todo_postings = ps, fate = Running\<rparr>"

definition begin_traffic :: "(UUID \<rightharpoonup> int) \<Rightarrow> Posting list list \<Rightarrow> traffic" where
  "begin_traffic c pss = \<lparr>committed = c, posters = map begin_post pss, endings = []\<rparr>"

definition holds_elsewhere :: "traffic \<Rightarrow> nat \<Rightarrow> UUID \<Rightarrow> bool" where
  "holds_elsewhere st i a \<longleftrightarrow> (\<exists>j < length (posters st). j \<noteq> i \<and> balances_map (posters st ! j) a \<noteq> None)"

definition put_poster :: "nat \<Rightarrow> poster \<Rightarrow> traffic \<Rightarrow> traffic" where
  "put_poster i p st = st\<lparr>posters := (posters st)[i := p]\<rparr>"

text \<open>The end of a session releases its rows; the order of the ends is kept for the specification.\<close>

definition end_session :: "nat \<Rightarrow> fate \<Rightarrow> traffic \<Rightarrow> traffic" where
  "end_session i f st = st\<lparr>posters := (posters st)[i := (posters st ! i)\<lparr>balances_map := Map.empty, fate := f\<rparr>],
     endings := endings st @ [i]\<rparr>"

section \<open>Statements\<close>

text \<open>
  One round of the locking loop. A row that exists is read when nobody else holds it. A row that does
  not exist cannot be locked: the session goes on to insert it, waits while another session has
  inserted it and not ended, and violates the primary key when that session committed.
\<close>

definition lock_statement :: "nat \<Rightarrow> UUID \<Rightarrow> UUID list \<Rightarrow> traffic \<Rightarrow> traffic option" where
  "lock_statement i a as st = (let p = posters st ! i in
     if row_missing p then
       if holds_elsewhere st i a then None
       else (case committed st a of
          Some _ \<Rightarrow> Some (end_session i (Raised DBAPIError) st)
        | None \<Rightarrow> Some (put_poster i (p\<lparr>todo_locks := as, row_missing := False,
            balances_map := (balances_map p)(a \<mapsto> 0)\<rparr>) st))
     else (case committed st a of
          None \<Rightarrow> Some (put_poster i (p\<lparr>row_missing := True\<rparr>) st)
        | Some v \<Rightarrow> if holds_elsewhere st i a then None
            else Some (put_poster i (p\<lparr>todo_locks := as, balances_map := (balances_map p)(a \<mapsto> v)\<rparr>) st)))"

definition posting_statement :: "nat \<Rightarrow> Posting \<Rightarrow> Posting list \<Rightarrow> traffic \<Rightarrow> traffic" where
  "posting_statement i q qs st = (let p = posters st ! i in
     case balances_map p (pst_account_id q) of
       None \<Rightarrow> end_session i (Raised KeyError) st
     | Some v \<Rightarrow> (case posting_result v q of
         Inl e \<Rightarrow> end_session i (Raised e) st
       | Inr w \<Rightarrow> put_poster i (p\<lparr>todo_postings := qs,
           balances_map := (balances_map p)(pst_account_id q \<mapsto> w)\<rparr>) st))"

definition commit_statement :: "nat \<Rightarrow> traffic \<Rightarrow> traffic" where
  "commit_statement i st =
     end_session i Committed (st\<lparr>committed := committed st ++ balances_map (posters st ! i)\<rparr>)"

text \<open>The next statement of a session; \<open>None\<close> when it waits, has ended or does not exist.\<close>

definition statement :: "nat \<Rightarrow> traffic \<Rightarrow> traffic option" where
  "statement i st = (if i < length (posters st) \<and> fate (posters st ! i) = Running then
     (case todo_locks (posters st ! i) of
        a # as \<Rightarrow> lock_statement i a as st
      | [] \<Rightarrow> (case todo_postings (posters st ! i) of
          q # qs \<Rightarrow> Some (posting_statement i q qs st)
        | [] \<Rightarrow> Some (commit_statement i st)))
   else None)"

inductive interleave :: "traffic \<Rightarrow> traffic \<Rightarrow> bool" where
  run: "statement i st = Some st' \<Longrightarrow> interleave st st'"

fun run_statements :: "nat list \<Rightarrow> traffic \<Rightarrow> traffic option" where
  "run_statements [] st = Some st"
| "run_statements (i # is) st = (case statement i st of None \<Rightarrow> None | Some st' \<Rightarrow> run_statements is st')"

lemma run_statements_sound: "run_statements is st = Some st' \<Longrightarrow> interleave\<^sup>*\<^sup>* st st'"
  by (induction "is" arbitrary: st)
    (auto split: option.splits intro: converse_rtranclp_into_rtranclp interleave.run)

section \<open>Specification\<close>

text \<open>The calls one after the other, each on the balances its predecessors left.\<close>

definition balance_in :: "(UUID \<rightharpoonup> int) \<Rightarrow> UUID \<Rightarrow> int" where
  "balance_in c a = (case c a of None \<Rightarrow> 0 | Some v \<Rightarrow> v)"

fun one_by_one :: "(UUID \<Rightarrow> int) \<Rightarrow> Posting list list \<Rightarrow> fate list \<times> (UUID \<Rightarrow> int)" where
  "one_by_one f [] = ([], f)"
| "one_by_one f (ps # pss) = (case run_postings f ps of
     Inl e \<Rightarrow> (let (rs, g) = one_by_one f pss in (Raised e # rs, g))
   | Inr f' \<Rightarrow> (let (rs, g) = one_by_one f' pss in (Committed # rs, g)))"

lemma one_by_one_snoc:
  "one_by_one f pss = (rs, g) \<Longrightarrow> one_by_one f (pss @ [ps]) = (case run_postings g ps of
     Inl e \<Rightarrow> (rs @ [Raised e], g) | Inr h \<Rightarrow> (rs @ [Committed], h))"
proof (induction pss arbitrary: f rs)
  case Nil
  then show ?case by (auto split: sum.split)
next
  case (Cons qs pss)
  then show ?case by (fastforce split: sum.splits prod.splits)
qed

text \<open>A posting list reads and writes only its own accounts.\<close>

lemma run_postings_outside:
  "run_postings f ps = Inr g \<Longrightarrow> a \<notin> pst_account_id ` set ps \<Longrightarrow> g a = f a"
  by (induction ps arbitrary: f) (auto split: sum.splits)

lemma run_postings_agree:
  assumes "\<forall>a \<in> A. f a = f' a" and "pst_account_id ` set ps \<subseteq> A" and "run_postings f ps = Inr g"
  shows "\<exists>g'. run_postings f' ps = Inr g' \<and> (\<forall>a \<in> A. g a = g' a)"
  using assms
proof (induction ps arbitrary: f f')
  case Nil
  then show ?case by simp
next
  case (Cons p ps)
  then obtain v where v: "posting_result (f' (pst_account_id p)) p = Inr v"
    and run: "run_postings (f(pst_account_id p := v)) ps = Inr g" by (auto split: sum.splits)
  have "\<exists>g'. run_postings (f'(pst_account_id p := v)) ps = Inr g' \<and> (\<forall>a \<in> A. g a = g' a)"
    using Cons.prems(1,2) by (intro Cons.IH[OF _ _ run]) auto
  with v show ?case by simp
qed

lemma run_postings_snoc:
  "run_postings f (ps @ [q]) = (case run_postings f ps of Inl e \<Rightarrow> Inl e
     | Inr g \<Rightarrow> (case posting_result (g (pst_account_id q)) q of Inl e \<Rightarrow> Inl e
         | Inr v \<Rightarrow> Inr (g(pst_account_id q := v))))"
  by (induction ps arbitrary: f) (auto split: sum.split)

lemma run_postings_append_Inl:
  "run_postings f ps = Inl e \<Longrightarrow> run_postings f (ps @ qs) = Inl e"
  by (induction ps arbitrary: f) (auto split: sum.splits)

section \<open>The invariant of the interleaved sessions\<close>

definition call_accounts :: "poster \<Rightarrow> UUID set" where
  "call_accounts p = pst_account_id ` set (call_postings p)"

definition exclusive :: "poster list \<Rightarrow> bool" where
  "exclusive ps \<longleftrightarrow> (\<forall>j < length ps. \<forall>k < length ps. j \<noteq> k \<longrightarrow>
     dom (balances_map (ps ! j)) \<inter> dom (balances_map (ps ! k)) = {})"

lemma exclusive_update:
  assumes "exclusive ps" and "\<And>k. k < length ps \<Longrightarrow> k \<noteq> i \<Longrightarrow> dom (balances_map p) \<inter> dom (balances_map (ps ! k)) = {}"
  shows "exclusive (ps[i := p])"
  unfolding exclusive_def
proof (intro allI impI)
  fix j k
  assume "j < length (ps[i := p])" "k < length (ps[i := p])" "j \<noteq> k"
  with assms show "dom (balances_map (ps[i := p] ! j)) \<inter> dom (balances_map (ps[i := p] ! k)) = {}"
    by (cases "j = i"; cases "k = i") (simp_all add: exclusive_def Int_commute)
qed

text \<open>
  A running session holds the rows below those it still has to lock, and has in its dictionary what
  the postings it has applied make of the committed balances.
\<close>

definition poster_ok :: "(UUID \<Rightarrow> int) \<Rightarrow> poster \<Rightarrow> bool" where
  "poster_ok f p \<longleftrightarrow> \<not> row_missing p \<and> sorted (todo_locks p) \<and> distinct (todo_locks p) \<and>
     dom (balances_map p) \<union> set (todo_locks p) = call_accounts p \<and>
     (\<forall>a \<in> dom (balances_map p). \<forall>b \<in> set (todo_locks p). a < b) \<and>
     (\<exists>before g. call_postings p = before @ todo_postings p \<and> (todo_locks p \<noteq> [] \<longrightarrow> before = []) \<and>
        run_postings f before = Inr g \<and> (\<forall>a \<in> dom (balances_map p). balances_map p a = Some (g a)))"

definition session_ok :: "(UUID \<rightharpoonup> int) \<Rightarrow> poster \<Rightarrow> bool" where
  "session_ok c p \<longleftrightarrow> call_accounts p \<subseteq> dom c \<and>
     (if fate p = Running then poster_ok (balance_in c) p else balances_map p = Map.empty)"

definition traffic_ok :: "(UUID \<Rightarrow> int) \<Rightarrow> Posting list list \<Rightarrow> traffic \<Rightarrow> bool" where
  "traffic_ok f pss st \<longleftrightarrow> map call_postings (posters st) = pss \<and>
     (\<forall>p \<in> set (posters st). session_ok (committed st) p) \<and>
     exclusive (posters st) \<and>
     distinct (endings st) \<and> set (endings st) = {i. i < length (posters st) \<and> fate (posters st ! i) \<noteq> Running} \<and>
     one_by_one f (map (\<lambda>i. pss ! i) (endings st)) =
       (map (\<lambda>i. fate (posters st ! i)) (endings st), balance_in (committed st))"

lemma poster_ok_agree:
  assumes "poster_ok f p" and "\<forall>a \<in> dom (balances_map p). f a = f' a"
  shows "poster_ok f' p"
proof -
  from assms(1) obtain before g where b: "call_postings p = before @ todo_postings p"
    "todo_locks p \<noteq> [] \<longrightarrow> before = []" "run_postings f before = Inr g"
    "\<forall>a \<in> dom (balances_map p). balances_map p a = Some (g a)" by (auto simp: poster_ok_def)
  have "pst_account_id ` set before \<subseteq> dom (balances_map p)"
    using b(1,2) assms(1) by (cases "todo_locks p = []") (auto simp: poster_ok_def call_accounts_def)
  with assms(2) b(3) obtain g' where "run_postings f' before = Inr g'" "\<forall>a \<in> dom (balances_map p). g a = g' a"
    by (blast dest: run_postings_agree)
  with b have "\<exists>before g. call_postings p = before @ todo_postings p \<and> (todo_locks p \<noteq> [] \<longrightarrow> before = []) \<and>
        run_postings f' before = Inr g \<and> (\<forall>a \<in> dom (balances_map p). balances_map p a = Some (g a))"
    by (intro exI[of _ before] exI[of _ g']) auto
  with assms(1) show ?thesis by (simp add: poster_ok_def)
qed

lemma begin_post_ok: "poster_ok f (begin_post ps)"
  by (auto simp: poster_ok_def begin_post_def call_accounts_def sorted_account_ids_def)

lemma traffic_ok_begin:
  assumes "\<forall>ps \<in> set pss. pst_account_id ` set ps \<subseteq> dom c"
  shows "traffic_ok (balance_in c) pss (begin_traffic c pss)"
proof -
  have "begin_post ps = p \<Longrightarrow> fate p = Running \<and> call_postings p = ps \<and> balances_map p = Map.empty" for ps p
    by (auto simp: begin_post_def)
  with assms begin_post_ok show ?thesis
    by (auto simp: traffic_ok_def session_ok_def begin_traffic_def exclusive_def call_accounts_def comp_def)
qed

lemma traffic_okD:
  assumes "traffic_ok f pss st" and "i < length (posters st)" and "fate (posters st ! i) = Running"
  shows "poster_ok (balance_in (committed st)) (posters st ! i)" and "i \<notin> set (endings st)"
    and "call_postings (posters st ! i) = pss ! i" and "call_accounts (posters st ! i) \<subseteq> dom (committed st)"
proof -
  have "posters st ! i \<in> set (posters st)" using assms(2) by simp
  with assms show "poster_ok (balance_in (committed st)) (posters st ! i)" "i \<notin> set (endings st)"
    "call_accounts (posters st ! i) \<subseteq> dom (committed st)" by (auto simp: traffic_ok_def session_ok_def)
  show "call_postings (posters st ! i) = pss ! i" using assms(1,2) by (auto simp: traffic_ok_def)
qed

lemma endings_update:
  "i \<notin> set is \<Longrightarrow> map (\<lambda>j. fate (ps[i := p] ! j)) is = map (\<lambda>j. fate (ps ! j)) is"
  by (intro map_cong refl arg_cong[of _ _ fate] nth_list_update_neq) auto

lemma traffic_ok_put:
  assumes ok: "traffic_ok f pss st" and i: "i < length (posters st)" "fate (posters st ! i) = Running"
    and p: "fate p = Running" "call_postings p = call_postings (posters st ! i)"
    "poster_ok (balance_in (committed st)) p"
    and new: "\<And>a. a \<in> dom (balances_map p) \<Longrightarrow> a \<in> dom (balances_map (posters st ! i)) \<or> \<not> holds_elsewhere st i a"
  shows "traffic_ok f pss (put_poster i p st)"
proof -
  have "map call_postings ((posters st)[i := p]) = pss"
    using ok i(1) p(2) by (auto simp: traffic_ok_def map_update) (metis list_update_id map_update)
  moreover have "session_ok (committed st) p"
    using p traffic_okD(4)[OF ok i] by (simp add: session_ok_def call_accounts_def)
  then have "\<forall>q \<in> set ((posters st)[i := p]). session_ok (committed st) q"
    using ok by (auto simp: traffic_ok_def dest!: set_update_subset_insert[THEN subsetD])
  moreover have "exclusive ((posters st)[i := p])"
  proof (rule exclusive_update)
    show ex: "exclusive (posters st)" using ok by (simp add: traffic_ok_def)
    show "dom (balances_map p) \<inter> dom (balances_map (posters st ! k)) = {}"
      if "k < length (posters st)" "k \<noteq> i" for k
    proof -
      have "dom (balances_map (posters st ! i)) \<inter> dom (balances_map (posters st ! k)) = {}"
        using ex i(1) that by (simp add: exclusive_def)
      with new that show ?thesis unfolding holds_elsewhere_def by blast
    qed
  qed
  moreover have "{j. j < length (posters st) \<and> fate ((posters st)[i := p] ! j) \<noteq> Running} =
      {j. j < length (posters st) \<and> fate (posters st ! j) \<noteq> Running}"
    using i p(1) by (auto simp: nth_list_update split: if_splits)
  ultimately show ?thesis
    using ok endings_update[OF traffic_okD(2)[OF ok i], of "posters st" p]
    by (auto simp: traffic_ok_def put_poster_def)
qed

text \<open>Ending a session, with what it publishes: the committed balances of other sessions' rows stay.\<close>

lemma traffic_ok_end:
  assumes ok: "traffic_ok f pss st" and i: "i < length (posters st)" "fate (posters st ! i) = Running"
    and c: "c = committed st ++ w" "\<And>a. w a \<noteq> None \<Longrightarrow> balances_map (posters st ! i) a \<noteq> None"
    and r: "r \<noteq> Running" "(case run_postings (balance_in (committed st)) (pss ! i) of
      Inl e \<Rightarrow> r = Raised e \<and> c = committed st | Inr g \<Rightarrow> r = Committed \<and> balance_in c = g)"
  shows "traffic_ok f pss (end_session i r (st\<lparr>committed := c\<rparr>))"
proof -
  let ?p = "(posters st ! i)\<lparr>balances_map := Map.empty, fate := r\<rparr>"
  have "map call_postings ((posters st)[i := ?p]) = pss"
    using ok i(1) by (auto simp: traffic_ok_def map_update) (metis list_update_id map_update)
  moreover have "\<forall>q \<in> set ((posters st)[i := ?p]). session_ok c q"
  proof
    fix q
    assume "q \<in> set ((posters st)[i := ?p])"
    then obtain j where j: "j < length (posters st)" "q = (if j = i then ?p else posters st ! j)"
      by (auto simp: in_set_conv_nth nth_list_update split: if_splits)
    have old: "call_accounts (posters st ! j) \<subseteq> dom (committed st)"
      "fate (posters st ! j) = Running \<Longrightarrow> poster_ok (balance_in (committed st)) (posters st ! j)"
      "fate (posters st ! j) \<noteq> Running \<Longrightarrow> balances_map (posters st ! j) = Map.empty"
      using ok j(1) nth_mem[OF j(1)] by (auto simp: traffic_ok_def session_ok_def split: if_splits)
    have "\<forall>a \<in> dom (balances_map (posters st ! j)). balance_in (committed st) a = balance_in c a" if "j \<noteq> i"
    proof
      fix a
      assume "a \<in> dom (balances_map (posters st ! j))"
      with ok j(1) i(1) that have "a \<notin> dom (balances_map (posters st ! i))"
        unfolding traffic_ok_def exclusive_def by blast
      with c(2)[of a] have "w a = None" by auto
      with c(1) show "balance_in (committed st) a = balance_in c a"
        by (simp add: balance_in_def map_add_def)
    qed
    with old j r(1) c(1) show "session_ok c q"
      by (auto simp: session_ok_def call_accounts_def intro: poster_ok_agree)
  qed
  moreover have "exclusive ((posters st)[i := ?p])"
    using ok by (intro exclusive_update) (simp_all add: traffic_ok_def)
  moreover have "insert i (set (endings st)) =
      {j. j < length (posters st) \<and> fate ((posters st)[i := ?p] ! j) \<noteq> Running}"
    using ok i r(1) by (auto simp: traffic_ok_def nth_list_update split: if_splits)
  moreover have "one_by_one f (map (\<lambda>j. pss ! j) (endings st @ [i])) =
      (map (\<lambda>j. fate ((posters st)[i := ?p] ! j)) (endings st @ [i]), balance_in c)"
  proof -
    have "one_by_one f (map (\<lambda>j. pss ! j) (endings st)) =
        (map (\<lambda>j. fate (posters st ! j)) (endings st), balance_in (committed st))"
      using ok by (simp add: traffic_ok_def)
    from one_by_one_snoc[OF this, of "pss ! i"] r(2) i(1) show ?thesis
      using endings_update[OF traffic_okD(2)[OF ok i], of "posters st" ?p] by (auto split: sum.splits)
  qed
  ultimately show ?thesis
    using ok traffic_okD(2)[OF ok i]
    by (auto simp: traffic_ok_def end_session_def)
qed

lemma poster_lockD:
  assumes "poster_ok f p" and "todo_locks p = a # as"
  shows "a \<in> call_accounts p" and "\<not> row_missing p" and "todo_postings p = call_postings p"
    and "a \<notin> dom (balances_map p)"
    and "poster_ok f (p\<lparr>todo_locks := as, balances_map := (balances_map p)(a \<mapsto> f a)\<rparr>)"
proof -
  show "a \<in> call_accounts p" "\<not> row_missing p" "a \<notin> dom (balances_map p)"
    using assms by (auto simp: poster_ok_def)
  show "todo_postings p = call_postings p" using assms by (auto simp: poster_ok_def)
  have "insert a (dom (balances_map p)) \<union> set as = call_accounts p" "sorted as" "distinct as"
    "\<forall>x \<in> insert a (dom (balances_map p)). \<forall>y \<in> set as. x < y"
    using assms by (auto simp: poster_ok_def order.strict_iff_order)
  moreover have "\<forall>x \<in> dom (balances_map p). balances_map p x = Some (f x)"
    "call_postings p = todo_postings p"
    using assms by (auto simp: poster_ok_def)
  ultimately show "poster_ok f (p\<lparr>todo_locks := as, balances_map := (balances_map p)(a \<mapsto> f a)\<rparr>)"
    using \<open>\<not> row_missing p\<close> by (auto simp: poster_ok_def call_accounts_def intro!: exI[of _ "[]"])
qed

lemma poster_postingD:
  assumes "poster_ok f p" and "todo_locks p = []" and "todo_postings p = q # qs"
  obtains v where "balances_map p (pst_account_id q) = Some v"
    and "\<And>e. posting_result v q = Inl e \<Longrightarrow> run_postings f (call_postings p) = Inl e"
    and "\<And>w. posting_result v q = Inr w \<Longrightarrow> poster_ok f (p\<lparr>todo_postings := qs,
      balances_map := (balances_map p)(pst_account_id q \<mapsto> w)\<rparr>)"
proof -
  let ?m = "balances_map p" and ?a = "pst_account_id q"
  from assms obtain before g where b: "call_postings p = before @ q # qs" "run_postings f before = Inr g"
    "\<forall>a \<in> dom ?m. ?m a = Some (g a)" by (auto simp: poster_ok_def)
  have dom: "dom ?m = call_accounts p" using assms(1,2) by (simp add: poster_ok_def)
  with b(1) have "?a \<in> dom ?m" by (simp add: call_accounts_def)
  with b(3) have m: "?m ?a = Some (g ?a)" by blast
  have snoc: "run_postings f (before @ [q]) = (case posting_result (g ?a) q of Inl e \<Rightarrow> Inl e
      | Inr v \<Rightarrow> Inr (g(?a := v)))" using b(2) by (simp add: run_postings_snoc)
  show thesis
  proof (rule that[OF m])
    fix e
    assume "posting_result (g ?a) q = Inl e"
    with snoc have "run_postings f (before @ [q]) = Inl e" by simp
    from run_postings_append_Inl[OF this, of qs] b(1) show "run_postings f (call_postings p) = Inl e" by simp
  next
    fix w
    assume "posting_result (g ?a) q = Inr w"
    with snoc have "run_postings f (before @ [q]) = Inr (g(?a := w))" by simp
    moreover have "dom (?m(?a \<mapsto> w)) = call_accounts p" using dom m by auto
    ultimately show "poster_ok f (p\<lparr>todo_postings := qs, balances_map := ?m(?a \<mapsto> w)\<rparr>)"
      using assms(1,2) b by (auto simp: poster_ok_def call_accounts_def intro!: exI[of _ "before @ [q]"] exI[of _ "g(?a := w)"])
  qed
qed

lemma poster_commitD:
  assumes "poster_ok (balance_in c) p" and "todo_locks p = []" and "todo_postings p = []"
  shows "run_postings (balance_in c) (call_postings p) = Inr (balance_in (c ++ balances_map p))"
proof -
  from assms obtain g where g: "run_postings (balance_in c) (call_postings p) = Inr g"
    "\<forall>a \<in> dom (balances_map p). balances_map p a = Some (g a)" "dom (balances_map p) = call_accounts p"
    by (auto simp: poster_ok_def)
  have "balance_in (c ++ balances_map p) a = g a" for a
  proof (cases "a \<in> dom (balances_map p)")
    case True
    with g(2) have "balances_map p a = Some (g a)" by blast
    then show ?thesis by (simp add: balance_in_def map_add_def)
  next
    case False
    with g(1,3) have "g a = balance_in c a" by (auto simp: call_accounts_def dest: run_postings_outside)
    with False show ?thesis by (auto simp: balance_in_def map_add_def dom_def)
  qed
  with g(1) show ?thesis by (simp add: fun_eq_iff)
qed

lemma traffic_ok_statement:
  assumes ok: "traffic_ok f pss st" and st: "statement i st = Some st'"
  shows "traffic_ok f pss st'"
proof -
  let ?p = "posters st ! i" and ?c = "committed st"
  from st have i: "i < length (posters st)" "fate ?p = Running" by (auto simp: statement_def split: if_splits)
  note p = traffic_okD[OF ok i]
  consider (lock) a as where "todo_locks ?p = a # as" | (posting) q qs where "todo_locks ?p = []" "todo_postings ?p = q # qs"
    | (commit) "todo_locks ?p = []" "todo_postings ?p = []" by (meson neq_Nil_conv)
  then show ?thesis
  proof cases
    case lock
    note l = poster_lockD[OF p(1) lock]
    from l(1) p(4) obtain v where v: "?c a = Some v" by blast
    with st i lock l(2) have free: "\<not> holds_elsewhere st i a"
      and st': "st' = put_poster i (?p\<lparr>todo_locks := as, balances_map := (balances_map ?p)(a \<mapsto> v)\<rparr>) st"
      by (auto simp: statement_def lock_statement_def Let_def split: if_splits)
    have "poster_ok (balance_in ?c) (?p\<lparr>todo_locks := as, balances_map := (balances_map ?p)(a \<mapsto> v)\<rparr>)"
      using l(5) v by (simp add: balance_in_def)
    then show ?thesis unfolding st'
      by (intro traffic_ok_put[OF ok i]) (use i(2) free in \<open>auto simp: dom_def split: if_splits\<close>)
  next
    case posting
    then obtain v where v: "balances_map ?p (pst_account_id q) = Some v"
      "\<And>e. posting_result v q = Inl e \<Longrightarrow> run_postings (balance_in ?c) (call_postings ?p) = Inl e"
      "\<And>w. posting_result v q = Inr w \<Longrightarrow> poster_ok (balance_in ?c) (?p\<lparr>todo_postings := qs,
        balances_map := (balances_map ?p)(pst_account_id q \<mapsto> w)\<rparr>)"
      using p(1) by (rule_tac poster_postingD[of "balance_in ?c" ?p q qs]) auto
    from st i posting have st': "st' = posting_statement i q qs st" by (simp add: statement_def)
    show ?thesis
    proof (cases "posting_result v q")
      case (Inl e)
      have "traffic_ok f pss (end_session i (Raised e) (st\<lparr>committed := ?c\<rparr>))"
        using v(2)[OF Inl] p(3) by (intro traffic_ok_end[OF ok i, where w = Map.empty]) simp_all
      with Inl v(1) st' show ?thesis by (simp add: posting_statement_def)
    next
      case (Inr w)
      with v(1) st' have st'': "st' = put_poster i (?p\<lparr>todo_postings := qs,
          balances_map := (balances_map ?p)(pst_account_id q \<mapsto> w)\<rparr>) st"
        by (simp add: posting_statement_def Let_def)
      show ?thesis unfolding st''
        by (rule traffic_ok_put[OF ok i]) (use v(1) v(3)[OF Inr] i(2) in \<open>auto simp: dom_def split: if_splits\<close>)
    qed
  next
    case commit
    with st i have "st' = commit_statement i st" by (simp add: statement_def)
    moreover have "traffic_ok f pss (end_session i Committed (st\<lparr>committed := ?c ++ balances_map ?p\<rparr>))"
      using poster_commitD[OF p(1) commit] p(3)
      by (intro traffic_ok_end[OF ok i, where w = "balances_map ?p"]) simp_all
    ultimately show ?thesis by (simp add: commit_statement_def)
  qed
qed

lemma traffic_ok_run: "interleave\<^sup>*\<^sup>* st st' \<Longrightarrow> traffic_ok f pss st \<Longrightarrow> traffic_ok f pss st'"
  by (induction rule: rtranclp_induct) (auto elim!: interleave.cases intro: traffic_ok_statement)

text \<open>A balance row, once committed, stays.\<close>

lemma rows_stay: "interleave\<^sup>*\<^sup>* st st' \<Longrightarrow> dom (committed st) \<subseteq> dom (committed st')"
proof (induction rule: rtranclp_induct)
  case base
  then show ?case by simp
next
  case (step y z)
  from step(2) obtain i where "statement i y = Some z" by (auto elim: interleave.cases)
  then have "committed z = committed y \<or> (\<exists>w. committed z = committed y ++ w)"
    by (auto simp: statement_def lock_statement_def posting_statement_def commit_statement_def Let_def
        put_poster_def end_session_def split: if_splits list.splits option.splits sum.splits)
  then have "dom (committed y) \<subseteq> dom (committed z)" by (metis dom_map_add subset_refl Un_upper2)
  with step(3) show ?case by blast
qed

section \<open>Progress\<close>

text \<open>The rows a session holds and wants, as the lock sessions have them.\<close>

definition locks_of :: "poster \<Rightarrow> UUID session" where
  "locks_of p = \<lparr>owns = filter (\<lambda>a. balances_map p a \<noteq> None) (sorted_account_ids (call_postings p)),
     wants = (if fate p = Running then todo_locks p else [])\<rparr>"

lemma owns_locks_of: "session_ok c p \<Longrightarrow> set (owns (locks_of p)) = dom (balances_map p)"
  by (auto simp: session_ok_def poster_ok_def locks_of_def sorted_account_ids_def call_accounts_def split: if_splits)

lemma owned_elsewhere_locks_of:
  assumes "traffic_ok f pss st"
  shows "owned_elsewhere (map locks_of (posters st)) i a = holds_elsewhere st i a"
proof -
  have "a \<in> set (owns (locks_of (posters st ! j))) \<longleftrightarrow> balances_map (posters st ! j) a \<noteq> None"
    if "j < length (posters st)" for j
    using assms that owns_locks_of[of "committed st" "posters st ! j"] by (auto simp: traffic_ok_def)
  then show ?thesis by (auto simp: owned_elsewhere_def holds_elsewhere_def)
qed

lemma locks_inv_traffic:
  assumes "traffic_ok f pss st"
  shows "locks_inv (map locks_of (posters st))"
proof -
  have ok: "session_ok (committed st) (posters st ! i)" if "i < length (posters st)" for i
    using assms that by (simp add: traffic_ok_def)
  have "ordered_session (locks_of p)" if "session_ok (committed st) p" for p
    unfolding ordered_session_def owns_locks_of[OF that]
    using that by (auto simp: session_ok_def poster_ok_def locks_of_def) (meson domI less_imp_le)
  with ok have "\<forall>i < length (posters st). ordered_session (locks_of (posters st ! i))" by blast
  moreover have "\<not> holds_elsewhere st i a"
    if i: "i < length (posters st)" and a: "a \<in> set (owns (locks_of (posters st ! i)))" for i a
  proof
    assume "holds_elsewhere st i a"
    then obtain j where "j < length (posters st)" "j \<noteq> i" "a \<in> dom (balances_map (posters st ! j))"
      by (auto simp: holds_elsewhere_def)
    moreover have "a \<in> dom (balances_map (posters st ! i))" using a owns_locks_of[OF ok[OF i]] by simp
    ultimately show False using assms i unfolding traffic_ok_def exclusive_def by blast
  qed
  ultimately show ?thesis by (simp add: locks_inv_def owned_elsewhere_locks_of[OF assms])
qed

lemma traffic_progress:
  assumes ok: "traffic_ok f pss st" and i: "i < length (posters st)" "fate (posters st ! i) = Running"
  shows "\<exists>st'. interleave st st'"
proof (cases "todo_locks (posters st ! i)")
  case Nil
  then have "statement i st \<noteq> None" using i by (auto simp: statement_def split: list.split)
  then show ?thesis by (auto intro: interleave.run)
next
  case (Cons a as)
  then have "\<not> ended (map locks_of (posters st) ! i)" using i by (simp add: ended_def locks_of_def)
  from ordered_progress[OF locks_inv_traffic[OF ok] _ this] i obtain ss where
    "lock_step (map locks_of (posters st)) ss" by auto
  then show ?thesis
  proof cases
    case (acquire j b bs)
    then have j: "j < length (posters st)" "fate (posters st ! j) = Running" "todo_locks (posters st ! j) = b # bs"
      by (auto simp: locks_of_def split: if_splits)
    note l = poster_lockD[OF traffic_okD(1)[OF ok j(1,2)] j(3)]
    from l(1) traffic_okD(4)[OF ok j(1,2)] obtain v where "committed st b = Some v" by blast
    moreover have "\<not> holds_elsewhere st j b" using acquire(4) owned_elsewhere_locks_of[OF ok] by simp
    ultimately have "statement j st \<noteq> None" using j l(2) by (simp add: statement_def lock_statement_def Let_def)
    then show ?thesis by (auto intro: interleave.run)
  next
    case (finish j)
    then have j: "j < length (posters st)" "owns (locks_of (posters st ! j)) \<noteq> []"
      "wants (locks_of (posters st ! j)) = []" by simp_all
    have s: "session_ok (committed st) (posters st ! j)" using ok j(1) by (simp add: traffic_ok_def)
    from j(2) owns_locks_of[OF s] have "balances_map (posters st ! j) \<noteq> Map.empty" by auto
    with s have r: "fate (posters st ! j) = Running" by (auto simp: session_ok_def split: if_splits)
    with j have "statement j st \<noteq> None" by (auto simp: statement_def locks_of_def split: list.split)
    then show ?thesis by (auto intro: interleave.run)
  qed
qed

text \<open>Every run ends: a statement uses up a lock, a posting, the \<open>SELECT\<close> of a missing row or the session.\<close>

definition statements_left :: "poster \<Rightarrow> nat" where
  "statements_left p = (if fate p = Running then
     1 + length (todo_postings p) + (2 * length (todo_locks p) - (if row_missing p then 1 else 0)) else 0)"

lemma statement_uses_up:
  assumes "statement i st = Some st'"
  shows "sum_list (map statements_left (posters st')) < sum_list (map statements_left (posters st))"
proof -
  from assms have i: "i < length (posters st)" "fate (posters st ! i) = Running"
    by (auto simp: statement_def split: if_splits)
  have "\<exists>p. posters st' = (posters st)[i := p] \<and> statements_left p < statements_left (posters st ! i)"
  proof (cases "todo_locks (posters st ! i)")
    case (Cons a as)
    with assms i show ?thesis
      by (force simp: statement_def lock_statement_def Let_def put_poster_def end_session_def statements_left_def
          split: if_splits option.splits)
  next
    case Nil
    with assms i show ?thesis
      by (force simp: statement_def posting_statement_def commit_statement_def Let_def put_poster_def
          end_session_def statements_left_def split: list.splits option.splits sum.splits)
  qed
  with sum_list_update_less[OF i(1)] show ?thesis by metis
qed

definition all_ended :: "traffic \<Rightarrow> bool" where
  "all_ended st \<longleftrightarrow> list_all (\<lambda>p. fate p \<noteq> Running) (posters st)"

lemma traffic_can_end:
  assumes "traffic_ok f pss st"
  shows "\<exists>st'. interleave\<^sup>*\<^sup>* st st' \<and> all_ended st'"
  using assms
proof (induction "sum_list (map statements_left (posters st))" arbitrary: st rule: less_induct)
  case less
  show ?case
  proof (cases "all_ended st")
    case True
    then show ?thesis by blast
  next
    case False
    then obtain i where "i < length (posters st)" "fate (posters st ! i) = Running"
      by (auto simp: all_ended_def list_all_length)
    with less.prems obtain st1 where s1: "interleave st st1" by (blast dest: traffic_progress)
    then obtain j where j: "statement j st = Some st1" by (auto elim: interleave.cases)
    from less.hyps[OF statement_uses_up[OF j] traffic_ok_statement[OF less.prems j]] s1 show ?thesis
      by (auto intro: converse_rtranclp_into_rtranclp)
  qed
qed

section \<open>Calls of post, one transaction after the other\<close>

fun post_each :: "(TransactionType \<times> UUID \<times> Posting list) list \<Rightarrow> world \<Rightarrow> fate list \<times> world" where
  "post_each [] s = ([], s)"
| "post_each ((ty, r, ps) # calls) s = (case transaction (post ty r ps) s of (res, t) \<Rightarrow>
     (let (fs, u) = post_each calls t in
       ((case res of Inl e \<Rightarrow> Raised e | Inr txn \<Rightarrow> Committed) # fs, u)))"

fun postings_of :: "TransactionType \<times> UUID \<times> Posting list \<Rightarrow> Posting list" where
  "postings_of (ty, r, ps) = ps"

definition can_post :: "int \<Rightarrow> nat \<Rightarrow> world \<Rightarrow> bool" where
  "can_post n m s \<longleftrightarrow> constraints (db s) \<and> ledger_balanced (db s) \<and> total_balance (db s) < 2 ^ 63 \<and>
     counters_ok n s \<and> fresh_uuids m s"

definition valid_call :: "database \<Rightarrow> Posting list \<Rightarrow> bool" where
  "valid_call d ps \<longleftrightarrow> validate_balanced ps = Inr () \<and> pst_account_id ` set ps \<subseteq> account_ids d \<and>
     (\<forall>p \<in> set ps. int64 (pst_amount p))"

lemma run_postings_bounded:
  assumes run: "run_postings (balance d) ps = Inr f" and val: "validate_balanced ps = Inr ()"
    and con: "constraints d" and tot: "total_balance d < 2 ^ 63"
  shows "f a < 2 ^ 63"
proof -
  let ?A = "insert a (balance_keys d \<union> pst_account_id ` set ps)"
  have fin: "finite ?A" by (simp add: balance_keys_def)
  have nonneg: "0 \<le> f x" for x
    using run_postings_nonneg[OF run] val constraints_balance_range[OF con]
    by (auto simp: validate_balanced_Inr list_all_iff)
  have "f a \<le> sum f ?A" using fin nonneg by (intro member_le_sum) auto
  also have "\<dots> = (\<Sum>x \<in> ?A. balance d x) + (\<Sum>x \<in> ?A. posting_delta ps x)"
    using run_postings_delta[OF run] by (simp add: sum.distrib)
  also have "(\<Sum>x \<in> ?A. posting_delta ps x) = 0"
    using sum_posting_delta[OF fin, of ps] val by (auto simp: validate_balanced_Inr)
  also have "(\<Sum>x \<in> ?A. balance d x) = total_balance d"
    using con fin by (intro total_balance_sum[symmetric]) (auto simp: constraint_defs)
  finally show ?thesis using tot by simp
qed

lemma post_transaction:
  assumes room: "can_post (n + int (length ps)) (Suc m) s" and "0 \<le> n" and val: "valid_call (db s) ps"
  obtains (insufficient) e t where "run_postings (balance (db s)) ps = Inl e"
      and "transaction (post ty r ps) s = (Inl e, t)" and "db t = db s" and "can_post n m t"
  | (posted) f txn t where "run_postings (balance (db s)) ps = Inr f"
      and "transaction (post ty r ps) s = (Inr txn, t)" and "balance (db t) = f"
      and "accounts (db t) = accounts (db s)" and "can_post n m t"
proof -
  let ?s = "s\<lparr>pending := []\<rparr>"
  have new: "uuid_source ?s (uuids_drawn ?s) \<notin> txn_id ` set (ledger_transactions (db (flushed ?s)))"
    using fresh_uuidsD(1)[of "Suc m" s 0] room by (simp add: can_post_def)
  have cnt: "counters_ok (int (length ps)) (flushed ?s)" "counters_ok (n + int (length ps)) (flushed ?s)"
    using room assms(2) by (auto simp: can_post_def counters_ok_def)
  show thesis
  proof (cases "run_postings (balance (db s)) ps")
    case (Inl e)
    then obtain t where t: "post ty r ps ?s = (Inl e, t)" "uuid_source t = uuid_source s"
      "uuids_drawn t = Suc (uuids_drawn s)" "entry_seq t = entry_seq s"
      using post_insufficient[of ps ?s e ty r] new cnt(1) room val by (auto simp: can_post_def valid_call_def)
    have "fresh_uuids m (rollback s t)"
      by (rule fresh_uuids_used[of 1 m s]) (use room t in \<open>auto simp: can_post_def rollback_def\<close>)
    moreover have "counters_ok n (rollback s t)"
      using room t(4) by (auto simp: can_post_def counters_ok_def rollback_def)
    ultimately have "can_post n m (rollback s t)" using room by (simp add: can_post_def rollback_def)
    with Inl transaction_InlI[of "post ty r ps" s e t, OF t(1)] show thesis
      by (intro insufficient) (simp_all add: rollback_def)
  next
    case (Inr f)
    have "\<exists>txn t. post ty r ps ?s = (Inr txn, t)"
      using Inr val room new cnt(1) run_postings_bounded[OF Inr]
      by (intro ledger.post_total[where f = f]) (auto simp: can_post_def valid_call_def)
    then obtain txn t where t: "post ty r ps ?s = (Inr txn, t)" by blast
    from ledger.post_effect[OF t] have p: "posted ty r ps txn (db s) (db t)" and pe: "pending t = []" by simp_all
    note con = posted_constraints[OF p]
    have tx: "transaction (post ty r ps) s = (Inr txn, t)"
      using transaction_succeeds[OF ledger_frame_post t] con pe room by (simp add: can_post_def)
    have id: "txn_id txn = uuid_source s (uuids_drawn s)" using post_Inr_steps[OF t] by simp
    have "fresh_uuids m t"
      using post_draws[OF t] posted_frame(5,8)[OF p] id room
      by (intro fresh_uuids_used[of 1 m s]) (auto simp: can_post_def)
    moreover have "counters_ok n t" using post_counters[OF t cnt(2) assms(2)] .
    moreover have "total_balance (db t) = total_balance (db s)"
      using posted_total_balance[OF p] room by (simp add: can_post_def constraint_defs)
    ultimately have "can_post n m t"
      using room con posted_ledger_balanced[OF p] by (simp add: can_post_def)
    with Inr tx p posted_frame(1)[OF p] show thesis by (intro posted) (auto simp: posted_def)
  qed
qed

lemma post_each_one_by_one:
  assumes "can_post ((\<Sum>c \<leftarrow> calls. int (length (postings_of c)))) (length calls) s"
    and "\<forall>call \<in> set calls. valid_call (db s) (postings_of call)"
  shows "\<exists>t. post_each calls s = (fst (one_by_one (balance (db s)) (map postings_of calls)), t) \<and>
    balance (db t) = snd (one_by_one (balance (db s)) (map postings_of calls))"
  using assms
proof (induction calls arbitrary: s)
  case Nil
  then show ?case by simp
next
  case (Cons call calls)
  obtain ty r ps where call: "call = (ty, r, ps)" by (cases call)
  let ?n = "(\<Sum>c \<leftarrow> calls. int (length (postings_of c)))"
  have "can_post (?n + int (length ps)) (Suc (length calls)) s"
    using Cons.prems(1) by (simp add: call add.commute)
  moreover have "0 \<le> ?n" by (induction calls) simp_all
  moreover have "valid_call (db s) ps" using Cons.prems(2) by (simp add: call)
  ultimately show ?case
  proof (cases rule: post_transaction[of ?n ps "length calls" s ty r])
    case (insufficient e t)
    with Cons.IH[of t] Cons.prems(2) show ?thesis
      by (auto simp: call split: prod.splits)
  next
    case (posted f txn t)
    then have "\<forall>c \<in> set calls. valid_call (db t) (postings_of c)"
      using Cons.prems(2) by (simp add: valid_call_def account_ids_def)
    with posted Cons.IH[of t] show ?thesis
      by (auto simp: call split: prod.splits)
  qed
qed

lemma can_post_less:
  assumes "can_post n m s" and "n' \<le> n" and "m' \<le> m"
  shows "can_post n' m' s"
proof -
  have "fresh_uuids m' s" using assms(1,3) by (auto simp: can_post_def fresh_uuids_def inj_on_def)
  moreover have "counters_ok n' s" using assms(1,2) by (fastforce simp: can_post_def counters_ok_def)
  ultimately show ?thesis using assms(1) by (simp add: can_post_def)
qed

text \<open>What is enough for a list of calls is enough for any of them, in any order.\<close>

lemma can_post_selected:
  assumes room: "can_post (\<Sum>c \<leftarrow> calls. int (length (postings_of c))) (length calls) s"
    and "distinct is" and "set is \<subseteq> {..<length calls}"
  shows "can_post (\<Sum>c \<leftarrow> map (\<lambda>i. calls ! i) is. int (length (postings_of c))) (length (map (\<lambda>i. calls ! i) is)) s"
proof (rule can_post_less[OF room])
  let ?g = "\<lambda>i. int (length (postings_of (calls ! i)))"
  have "(\<Sum>c \<leftarrow> map (\<lambda>i. calls ! i) is. int (length (postings_of c))) = sum ?g (set is)"
    using assms(2) by (simp add: comp_def sum_list_distinct_conv_sum_set)
  also have "\<dots> \<le> sum ?g {..<length calls}" using assms(3) by (intro sum_mono2) auto
  also have "\<dots> = (\<Sum>c \<leftarrow> calls. int (length (postings_of c)))"
    by (simp add: sum_list_sum_nth atLeast0LessThan)
  finally show "(\<Sum>c \<leftarrow> map (\<lambda>i. calls ! i) is. int (length (postings_of c))) \<le>
      (\<Sum>c \<leftarrow> calls. int (length (postings_of c)))" .
  show "length (map (\<lambda>i. calls ! i) is) \<le> length calls"
    using assms(2) card_mono[OF _ assms(3)] by (simp add: distinct_card)
qed

section \<open>Debits of one account\<close>

lemma one_by_one_debits:
  assumes "0 < x" and "0 \<le> f a" and "a \<notin> set bs" and "k = min (length bs) (nat (f a div x))"
  shows "\<exists>g. one_by_one f (map (\<lambda>b. transfer a b x) bs) = (replicate k Committed @
      replicate (length bs - k) (Raised (InsufficientFundsException a (f a - int k * x) x)), g) \<and>
    g a = f a - int k * x"
  using assms
proof (induction bs arbitrary: f k)
  case Nil
  then show ?case by simp
next
  case (Cons b bs)
  show ?case
  proof (cases "f a < x")
    case True
    then have "f a div x = 0" using Cons.prems(2) by simp
    with Cons.IH[of f 0] Cons.prems True show ?thesis
      by (auto simp: run_transfer simp del: run_postings.simps)
  next
    case False
    let ?f = "f(a := f a - x, b := (f(a := f a - x)) b + x)"
    have fa: "?f a = f a - x" using Cons.prems(3) by auto
    define m where "m = min (length bs) (nat (?f a div x))"
    have "f a div x = 1 + ?f a div x"
      unfolding fa using Cons.prems(1) div_add_self1[of x "f a - x"] by simp
    moreover have "0 \<le> ?f a div x"
      unfolding fa using False Cons.prems(1) by (simp add: pos_imp_zdiv_nonneg_iff)
    ultimately have k: "k = Suc m" using Cons.prems(4) by (simp add: m_def nat_add_distrib)
    have "0 \<le> ?f a" unfolding fa using False by simp
    moreover have "a \<notin> set bs" using Cons.prems(3) by simp
    ultimately have "\<exists>g. one_by_one ?f (map (\<lambda>b. transfer a b x) bs) = (replicate m Committed @
        replicate (length bs - m) (Raised (InsufficientFundsException a (?f a - int m * x) x)), g) \<and>
      g a = ?f a - int m * x" using Cons.prems(1) m_def by (intro Cons.IH)
    with False show ?thesis unfolding fa
      by (auto simp: run_transfer fa k algebra_simps simp del: run_postings.simps)
  qed
qed

section \<open>Properties\<close>

definition rows_of :: "database \<Rightarrow> UUID \<rightharpoonup> int" where
  "rows_of d a = map_option bal_balance (row_of bal_account_id a (account_balances d))"

lemma balance_in_rows [simp]: "balance_in (rows_of d) = balance d"
  by (auto simp: balance_in_def rows_of_def balance_def split: option.split)

lemma dom_rows [simp]: "dom (rows_of d) = balance_keys d"
  by (auto simp: rows_of_def balance_keys_def dom_def row_of_None_iff)

text \<open>
  C11. Concurrent posts are serializable. However the statements of any number of calls of
  \<open>LedgerService.post\<close> interleave, on accounts that have balance rows, the calls that have ended
  returned or raised exactly as if each had run alone in a transaction, one after the other in the
  order of their ends, and the committed balances are those such a run leaves; the others can go on
  until all have ended.
\<close>

theorem posts_serializable:
  assumes "interleave\<^sup>*\<^sup>* (begin_traffic (rows_of (db s)) (map postings_of calls)) st"
    and "can_post (\<Sum>c \<leftarrow> calls. int (length (postings_of c))) (length calls) s"
    and "\<forall>c \<in> set calls. valid_call (db s) (postings_of c) \<and>
      pst_account_id ` set (postings_of c) \<subseteq> balance_keys (db s)"
  shows "(\<exists>t. post_each (map (\<lambda>i. calls ! i) (endings st)) s =
      (map (\<lambda>i. fate (posters st ! i)) (endings st), t) \<and> balance (db t) = balance_in (committed st)) \<and>
    distinct (endings st) \<and> set (endings st) = {i. i < length calls \<and> fate (posters st ! i) \<noteq> Running} \<and>
    (\<exists>st'. interleave\<^sup>*\<^sup>* st st' \<and> all_ended st')"
proof -
  let ?pss = "map postings_of calls"
  have "traffic_ok (balance (db s)) ?pss (begin_traffic (rows_of (db s)) ?pss)"
    using traffic_ok_begin[of ?pss "rows_of (db s)"] assms(3) by auto
  with assms(1) have ok: "traffic_ok (balance (db s)) ?pss st" by (rule traffic_ok_run)
  then have "length (posters st) = length calls" by (auto simp: traffic_ok_def dest: map_eq_imp_length_eq)
  with ok have e: "distinct (endings st)" "set (endings st) = {i. i < length calls \<and> fate (posters st ! i) \<noteq> Running}"
    and one: "one_by_one (balance (db s)) (map (\<lambda>i. ?pss ! i) (endings st)) =
      (map (\<lambda>i. fate (posters st ! i)) (endings st), balance_in (committed st))"
    by (simp_all add: traffic_ok_def)
  let ?ended = "map (\<lambda>i. calls ! i) (endings st)"
  have pss: "map postings_of ?ended = map (\<lambda>i. ?pss ! i) (endings st)" using e(2) by simp
  have "can_post (\<Sum>c \<leftarrow> ?ended. int (length (postings_of c))) (length ?ended) s"
    by (rule can_post_selected[OF assms(2) e(1)]) (use e(2) in auto)
  moreover have "\<forall>c \<in> set ?ended. valid_call (db s) (postings_of c)" using assms(3) e(2) by auto
  ultimately obtain t where "post_each ?ended s = (fst (one_by_one (balance (db s)) (map postings_of ?ended)), t)"
    "balance (db t) = snd (one_by_one (balance (db s)) (map postings_of ?ended))"
    using post_each_one_by_one by blast
  with one have "post_each ?ended s = (map (\<lambda>i. fate (posters st ! i)) (endings st), t)"
    "balance (db t) = balance_in (committed st)" unfolding pss by simp_all
  with traffic_can_end[OF ok] e show ?thesis by blast
qed

theorem posts_serializable_witness:
  defines "calls \<equiv> [(TransactionType.PAYMENT, UUID 9, transfer (UUID 3) (UUID 4) 600),
    (TransactionType.PAYMENT, UUID 10, transfer (UUID 3) (UUID 4) 600)]"
  shows "\<exists>st t. run_statements [0, 0, 0, 0, 0, 1, 1, 1] (begin_traffic (rows_of sample_db) (map postings_of calls)) = Some st \<and>
    endings st = [0, 1] \<and> post_each calls sample_world =
      ([Committed, Raised (InsufficientFundsException (UUID 3) 400 600)], t) \<and> balance (db t) = balance_in (committed st)"
proof -
  let ?st0 = "begin_traffic (rows_of sample_db) (map postings_of calls)"
  have "case run_statements [0, 0, 0, 0, 0, 1, 1, 1] ?st0 of None \<Rightarrow> False | Some st \<Rightarrow> endings st = [0, 1] \<and>
      map fate (posters st) = [Committed, Raised (InsufficientFundsException (UUID 3) 400 600)]"
    unfolding calls_def by code_simp
  then obtain st where st: "run_statements [0, 0, 0, 0, 0, 1, 1, 1] ?st0 = Some st" "endings st = [0, 1]"
    "map fate (posters st) = [Committed, Raised (InsufficientFundsException (UUID 3) 400 600)]"
    by (auto split: option.splits)
  have fates: "fate (posters st ! 0) = Committed"
    "fate (posters st ! 1) = Raised (InsufficientFundsException (UUID 3) 400 600)"
    using st(3) by (cases "posters st"; force simp: nth_Cons')+
  have size: "(\<Sum>c \<leftarrow> calls. int (length (postings_of c))) = 4" "length calls = 2"
    by (simp_all add: calls_def)
  have "can_post (\<Sum>c \<leftarrow> calls. int (length (postings_of c))) (length calls) sample_world"
    unfolding size by (rule can_post_less[of 4 6]) (use sample_db_constraints sample_counters sample_fresh in
      \<open>simp_all add: can_post_def ledger_balanced_def transaction_net_def total_balance_def sample_db_def
        upgrade_def empty_database_def\<close>)
  moreover have "\<forall>c \<in> set calls. valid_call sample_db (postings_of c) \<and>
      pst_account_id ` set (postings_of c) \<subseteq> balance_keys sample_db"
    unfolding calls_def by code_simp
  ultimately obtain t where "post_each (map (\<lambda>i. calls ! i) (endings st)) sample_world =
      (map (\<lambda>i. fate (posters st ! i)) (endings st), t)" "balance (db t) = balance_in (committed st)"
    using posts_serializable[of sample_world calls st] run_statements_sound[OF st(1)] by auto
  with st(1,2) fates show ?thesis by (auto simp: calls_def)
qed

text \<open>
  C9. Money is not sold twice. Of any number of concurrent debits of \<open>x\<close> from one account, to whatever
  payees and in whatever interleaving, exactly as many of the ended ones succeed as the balance can
  pay; every other one raises InsufficientFundsException with the balance that is left, which is
  the old one less \<open>x\<close> for each success and never negative.
\<close>

theorem debits_never_oversell:
  assumes "interleave\<^sup>*\<^sup>* (begin_traffic c (map (\<lambda>b. transfer a b x) bs)) st"
    and "0 < x" and "c a = Some v" and "0 \<le> v" and "a \<notin> set bs" and "set bs \<subseteq> dom c"
  defines "k \<equiv> card {i. i < length bs \<and> fate (posters st ! i) = Committed}"
  shows "k = min (card {i. i < length bs \<and> fate (posters st ! i) \<noteq> Running}) (nat (v div x)) \<and>
    committed st a = Some (v - int k * x) \<and> 0 \<le> v - int k * x \<and>
    (\<forall>i < length bs. fate (posters st ! i) \<in>
      {Running, Committed, Raised (InsufficientFundsException a (v - int k * x) x)})"
proof -
  let ?pss = "map (\<lambda>b. transfer a b x) bs"
  have "traffic_ok (balance_in c) ?pss (begin_traffic c ?pss)"
    by (rule traffic_ok_begin) (use assms(3,6) in auto)
  with assms(1) have ok: "traffic_ok (balance_in c) ?pss st" by (rule traffic_ok_run)
  then have n: "length (posters st) = length bs" by (auto simp: traffic_ok_def dest: map_eq_imp_length_eq)
  let ?fates = "map (\<lambda>i. fate (posters st ! i)) (endings st)"
  from ok n have e: "distinct (endings st)" "set (endings st) = {i. i < length bs \<and> fate (posters st ! i) \<noteq> Running}"
    and one: "one_by_one (balance_in c) (map (\<lambda>i. ?pss ! i) (endings st)) = (?fates, balance_in (committed st))"
    by (simp_all add: traffic_ok_def)
  let ?bs = "map (\<lambda>i. bs ! i) (endings st)"
  have pss: "map (\<lambda>i. ?pss ! i) (endings st) = map (\<lambda>b. transfer a b x) ?bs" using e(2) by simp
  define m where "m = min (length ?bs) (nat (balance_in c a div x))"
  have v: "balance_in c a = v" using assms(3) by (simp add: balance_in_def)
  have "\<forall>i \<in> set (endings st). i < length bs" using e(2) by blast
  then have "set ?bs \<subseteq> set bs" by auto
  with assms(5) have "a \<notin> set ?bs" by blast
  obtain g where "one_by_one (balance_in c) (map (\<lambda>b. transfer a b x) ?bs) = (replicate m Committed @
      replicate (length ?bs - m) (Raised (InsufficientFundsException a (v - int m * x) x)), g)"
    and g: "g a = v - int m * x"
    using one_by_one_debits[of x "balance_in c" a ?bs m, OF assms(2) _ \<open>a \<notin> set ?bs\<close> m_def, unfolded v, OF assms(4)]
    by (elim exE conjE)
  note eq = trans[OF this(1)[symmetric] one[unfolded pss], THEN prod.inject[THEN iffD1]]
  note f = eq[THEN conjunct1, symmetric]
  have b: "balance_in (committed st) a = v - int m * x" using g eq[THEN conjunct2] by simp
  have "{i. i < length bs \<and> fate (posters st ! i) = Committed} = {i \<in> set (endings st). fate (posters st ! i) = Committed}"
    unfolding e(2) by auto
  then have "k = length (filter (\<lambda>i. fate (posters st ! i) = Committed) (endings st))"
    using distinct_length_filter[OF e(1), of "\<lambda>i. fate (posters st ! i) = Committed"]
    by (simp add: k_def Int_def conj_commute)
  also have "\<dots> = length (filter (\<lambda>r. r = Committed) ?fates)" by (simp add: filter_map comp_def)
  finally have km: "k = m" by (simp only: f) simp
  have "0 \<le> v div x" using assms(2,4) by (simp add: pos_imp_zdiv_nonneg_iff)
  then have "int m * x \<le> v div x * x" using assms(2) by (intro mult_right_mono) (auto simp: m_def v)
  also have "\<dots> \<le> v" using assms(2) by (simp add: minus_mod_eq_div_mult[symmetric])
  finally have "0 \<le> v - int m * x" by simp
  moreover have "a \<in> dom (committed st)"
    using rows_stay[OF assms(1)] assms(3) by (auto simp: begin_traffic_def)
  then have "committed st a = Some (v - int m * x)" using b by (auto simp: balance_in_def)
  moreover have "m = min (card {i. i < length bs \<and> fate (posters st ! i) \<noteq> Running}) (nat (v div x))"
    using e by (simp add: m_def v distinct_card flip: e(2))
  moreover have "fate (posters st ! i) \<in> {Running, Committed, Raised (InsufficientFundsException a (v - int m * x) x)}"
    if "i < length bs" for i
  proof (cases "fate (posters st ! i) = Running")
    case False
    with that have "i \<in> set (endings st)" unfolding e(2) by simp
    then have "fate (posters st ! i) \<in> set ?fates" by simp
    then show ?thesis unfolding f by auto
  qed simp
  ultimately show ?thesis unfolding km by blast
qed

text \<open>Twenty debits of 10000 from 100000: ten succeed, whatever the interleaving, and nothing is left.\<close>

theorem debits_never_oversell_witness:
  "\<exists>st. interleave\<^sup>*\<^sup>* (begin_traffic [UUID 3 \<mapsto> 100000, UUID 4 \<mapsto> 0]
       (map (\<lambda>b. transfer (UUID 3) b 10000) (replicate 20 (UUID 4)))) st \<and>
     card {i. i < 20 \<and> fate (posters st ! i) \<noteq> Running} = 20 \<and>
     card {i. i < 20 \<and> fate (posters st ! i) = Committed} = 10 \<and> committed st (UUID 3) = Some 0"
proof -
  let ?c = "[UUID 3 \<mapsto> 100000, UUID 4 \<mapsto> (0 :: int)]" and ?bs = "replicate 20 (UUID 4)"
  let ?pss = "map (\<lambda>b. transfer (UUID 3) b 10000) ?bs"
  have "traffic_ok (balance_in ?c) ?pss (begin_traffic ?c ?pss)" by (rule traffic_ok_begin) auto
  from traffic_can_end[OF this] obtain st where st: "interleave\<^sup>*\<^sup>* (begin_traffic ?c ?pss) st" "all_ended st" by blast
  have "traffic_ok (balance_in ?c) ?pss st"
    by (rule traffic_ok_run[OF st(1)]) fact
  then have "map call_postings (posters st) = ?pss" by (simp only: traffic_ok_def)
  then have "length (posters st) = 20" by (metis length_map length_replicate)
  then have "{i. i < 20 \<and> fate (posters st ! i) \<noteq> Running} = {..<20}"
    using st(2) by (auto simp: all_ended_def list_all_length)
  then have "card {i. i < 20 \<and> fate (posters st ! i) \<noteq> Running} = 20" by simp
  with debits_never_oversell[OF st(1), of 100000] st(1) show ?thesis by auto
qed

text \<open>
  Where a balance row is missing, \<open>post\<close> inserts it, and that is not serializable: of two posts that
  credit an account without a row, the second to insert it violates the primary key when the first
  has committed, and fails, although one after the other both succeed.
\<close>

lemma missing_row_race:
  "\<exists>st. run_statements [0, 0, 1, 1, 0, 0, 0, 0, 1] (begin_traffic [UUID 3 \<mapsto> 50, UUID 2 \<mapsto> 50]
       [transfer (UUID 3) (UUID 4) 10, transfer (UUID 2) (UUID 4) 10]) = Some st \<and>
     map fate (posters st) = [Committed, Raised DBAPIError]"
  "fst (one_by_one (balance_in [UUID 3 \<mapsto> 50, UUID 2 \<mapsto> 50])
     [transfer (UUID 3) (UUID 4) 10, transfer (UUID 2) (UUID 4) 10]) = [Committed, Committed]"
proof -
  have "case run_statements [0, 0, 1, 1, 0, 0, 0, 0, 1] (begin_traffic [UUID 3 \<mapsto> 50, UUID 2 \<mapsto> 50]
       [transfer (UUID 3) (UUID 4) 10, transfer (UUID 2) (UUID 4) 10]) of None \<Rightarrow> False | Some st \<Rightarrow>
     map fate (posters st) = [Committed, Raised DBAPIError]" by code_simp
  then show "\<exists>st. run_statements [0, 0, 1, 1, 0, 0, 0, 0, 1] (begin_traffic [UUID 3 \<mapsto> 50, UUID 2 \<mapsto> 50]
       [transfer (UUID 3) (UUID 4) 10, transfer (UUID 2) (UUID 4) 10]) = Some st \<and>
     map fate (posters st) = [Committed, Raised DBAPIError]" by (auto split: option.splits)
  show "fst (one_by_one (balance_in [UUID 3 \<mapsto> 50, UUID 2 \<mapsto> 50])
     [transfer (UUID 3) (UUID 4) 10, transfer (UUID 2) (UUID 4) 10]) = [Committed, Committed]" by code_simp
qed

end
