(* ===== verification/TwoPhase.thy ===== *)
theory TwoPhase
  imports Contention
begin

text \<open>
  Transactions that lock rows and compute on them, interleaved statement by statement. A program locks
  rows (reading them), computes on the rows it holds, may stop early, and commits or raises at its end;
  locks are kept until then. The locale \<open>row_programs\<close> asks that programs lock in one order and compute
  on locked rows only, and shows that every interleaving is serial in the order of the ends, and can end.
\<close>

section \<open>Programs\<close>

text \<open>\<open>Lock_row\<close> is \<open>SELECT ... FOR UPDATE\<close>; \<open>Go_on_if\<close> returns early, committing, when its test fails.\<close>

datatype ('k, 'v) instr =
    Lock_row 'k
  | Compute "('k \<rightharpoonup> 'v) \<Rightarrow> exn + ('k \<rightharpoonup> 'v)"
  | Go_on_if "('k \<rightharpoonup> 'v) \<Rightarrow> bool"

fun locks_in :: "('k, 'v) instr list \<Rightarrow> 'k list" where
  "locks_in [] = []"
| "locks_in (Lock_row k # is) = k # locks_in is"
| "locks_in (_ # is) = locks_in is"

text \<open>A program alone, on rows \<open>c\<close> that nobody else changes: what it writes, or the exception.\<close>

definition read_row :: "('k \<Rightarrow> 'v) \<Rightarrow> 'k \<Rightarrow> ('k \<rightharpoonup> 'v) \<Rightarrow> ('k \<rightharpoonup> 'v)" where
  "read_row c k w = (if w k = None then w(k \<mapsto> c k) else w)"

fun exec :: "('k \<Rightarrow> 'v) \<Rightarrow> ('k, 'v) instr list \<Rightarrow> ('k \<rightharpoonup> 'v) \<Rightarrow> exn + ('k \<rightharpoonup> 'v)" where
  "exec c [] w = Inr w"
| "exec c (Lock_row k # is) w = exec c is (read_row c k w)"
| "exec c (Compute f # is) w = (case f w of Inl e \<Rightarrow> Inl e | Inr w' \<Rightarrow> exec c is w')"
| "exec c (Go_on_if g # is) w = (if g w then exec c is w else Inr w)"

definition write_back :: "('k \<Rightarrow> 'v) \<Rightarrow> ('k \<rightharpoonup> 'v) \<Rightarrow> 'k \<Rightarrow> 'v" where
  "write_back c w k = (case w k of None \<Rightarrow> c k | Some v \<Rightarrow> v)"

fun serially :: "('k \<Rightarrow> 'v) \<Rightarrow> ('k, 'v) instr list list \<Rightarrow> fate list \<times> ('k \<Rightarrow> 'v)" where
  "serially c [] = ([], c)"
| "serially c (p # ps) = (case exec c p Map.empty of
     Inl e \<Rightarrow> (let (rs, c') = serially c ps in (Raised e # rs, c'))
   | Inr w \<Rightarrow> (let (rs, c') = serially (write_back c w) ps in (Committed # rs, c')))"

lemma serially_snoc:
  "serially c ps = (rs, c') \<Longrightarrow> serially c (ps @ [p]) = (case exec c' p Map.empty of
     Inl e \<Rightarrow> (rs @ [Raised e], c') | Inr w \<Rightarrow> (rs @ [Committed], write_back c' w))"
proof (induction ps arbitrary: c rs)
  case Nil
  then show ?case by (auto split: sum.split)
next
  case (Cons q ps)
  then show ?case by (fastforce split: sum.splits prod.splits)
qed

section \<open>Interleaving\<close>

record ('k, 'v) task =
  script :: "('k, 'v) instr list"
  remaining :: "('k, 'v) instr list"
  held_rows :: "'k \<rightharpoonup> 'v"
  task_fate :: fate

record ('k, 'v) system =
  stored :: "'k \<Rightarrow> 'v"
  tasks :: "('k, 'v) task list"
  ended_order :: "nat list"

definition begin_task :: "('k, 'v) instr list \<Rightarrow> ('k, 'v) task" where
  "begin_task p = \<lparr>script = p, remaining = p, held_rows = Map.empty, task_fate = Running\<rparr>"

definition begin_system :: "('k \<Rightarrow> 'v) \<Rightarrow> ('k, 'v) instr list list \<Rightarrow> ('k, 'v) system" where
  "begin_system c ps = \<lparr>stored = c, tasks = map begin_task ps, ended_order = []\<rparr>"

definition held_by_other :: "('k, 'v) system \<Rightarrow> nat \<Rightarrow> 'k \<Rightarrow> bool" where
  "held_by_other s i k \<longleftrightarrow> (\<exists>j < length (tasks s). j \<noteq> i \<and> held_rows (tasks s ! j) k \<noteq> None)"

definition put_task :: "nat \<Rightarrow> ('k, 'v) task \<Rightarrow> ('k, 'v) system \<Rightarrow> ('k, 'v) system" where
  "put_task i t s = s\<lparr>tasks := (tasks s)[i := t]\<rparr>"

definition end_task :: "nat \<Rightarrow> fate \<Rightarrow> ('k \<Rightarrow> 'v) \<Rightarrow> ('k, 'v) system \<Rightarrow> ('k, 'v) system" where
  "end_task i r c s = \<lparr>stored = c,
     tasks = (tasks s)[i := (tasks s ! i)\<lparr>held_rows := Map.empty, task_fate := r\<rparr>],
     ended_order = ended_order s @ [i]\<rparr>"

text \<open>The next statement of task \<open>i\<close>: a lock waits for the task that holds the row; the end writes its rows back.\<close>

definition task_statement :: "nat \<Rightarrow> ('k, 'v) system \<Rightarrow> ('k, 'v) system option" where
  "task_statement i s = (if i < length (tasks s) \<and> task_fate (tasks s ! i) = Running then
     (let t = tasks s ! i in case remaining t of
        [] \<Rightarrow> Some (end_task i Committed (write_back (stored s) (held_rows t)) s)
      | Lock_row k # is \<Rightarrow> if held_by_other s i k then None
          else Some (put_task i (t\<lparr>remaining := is, held_rows := read_row (stored s) k (held_rows t)\<rparr>) s)
      | Compute f # is \<Rightarrow> (case f (held_rows t) of
            Inl e \<Rightarrow> Some (end_task i (Raised e) (stored s) s)
          | Inr w \<Rightarrow> Some (put_task i (t\<lparr>remaining := is, held_rows := w\<rparr>) s))
      | Go_on_if g # is \<Rightarrow> Some (put_task i (t\<lparr>remaining := (if g (held_rows t) then is else [])\<rparr>) s))
   else None)"

inductive task_step :: "('k, 'v) system \<Rightarrow> ('k, 'v) system \<Rightarrow> bool" where
  run: "task_statement i s = Some s' \<Longrightarrow> task_step s s'"

fun run_tasks :: "nat list \<Rightarrow> ('k, 'v) system \<Rightarrow> ('k, 'v) system option" where
  "run_tasks [] s = Some s"
| "run_tasks (i # is) s = (case task_statement i s of None \<Rightarrow> None | Some s' \<Rightarrow> run_tasks is s')"

lemma run_tasks_sound: "run_tasks is s = Some s' \<Longrightarrow> task_step\<^sup>*\<^sup>* s s'"
  by (induction "is" arbitrary: s)
    (auto split: option.splits, meson converse_rtranclp_into_rtranclp task_step.run)

section \<open>The invariant\<close>

text \<open>Programs that lock in one order and compute on the rows they hold.\<close>

definition keeps_rows :: "('k, 'v) instr \<Rightarrow> bool" where
  "keeps_rows i \<longleftrightarrow> (case i of Compute f \<Rightarrow> \<forall>w w'. f w = Inr w' \<longrightarrow> dom w' = dom w | _ \<Rightarrow> True)"

definition two_phase :: "('k :: linorder, 'v) instr list \<Rightarrow> bool" where
  "two_phase p \<longleftrightarrow> sorted (locks_in p) \<and> (\<forall>i \<in> set p. keeps_rows i)"

text \<open>
  What is left of a running task does, on the rows it holds, what its program does on any store that
  has their committed values.
\<close>

definition task_ok :: "('k :: linorder \<Rightarrow> 'v) \<Rightarrow> ('k, 'v) task \<Rightarrow> bool" where
  "task_ok c t \<longleftrightarrow> two_phase (remaining t) \<and> dom (held_rows t) \<union> set (locks_in (remaining t)) \<subseteq> set (locks_in (script t)) \<and>
     (\<forall>a \<in> dom (held_rows t). \<forall>b \<in> set (locks_in (remaining t)). a \<le> b) \<and>
     (\<forall>c'. (\<forall>k \<in> dom (held_rows t). c' k = c k) \<longrightarrow>
        exec c' (script t) Map.empty = exec c' (remaining t) (held_rows t))"

definition apart :: "('k, 'v) task list \<Rightarrow> bool" where
  "apart ts \<longleftrightarrow> (\<forall>j < length ts. \<forall>k < length ts. j \<noteq> k \<longrightarrow>
     dom (held_rows (ts ! j)) \<inter> dom (held_rows (ts ! k)) = {})"

definition system_ok :: "('k :: linorder \<Rightarrow> 'v) \<Rightarrow> ('k, 'v) instr list list \<Rightarrow> ('k, 'v) system \<Rightarrow> bool" where
  "system_ok c ps s \<longleftrightarrow> map script (tasks s) = ps \<and>
     (\<forall>t \<in> set (tasks s). if task_fate t = Running then task_ok (stored s) t else held_rows t = Map.empty) \<and>
     apart (tasks s) \<and> distinct (ended_order s) \<and>
     set (ended_order s) = {i. i < length (tasks s) \<and> task_fate (tasks s ! i) \<noteq> Running} \<and>
     serially c (map (\<lambda>i. ps ! i) (ended_order s)) =
       (map (\<lambda>i. task_fate (tasks s ! i)) (ended_order s), stored s)"

lemma task_ok_agree:
  "task_ok c t \<Longrightarrow> (\<And>k. k \<in> dom (held_rows t) \<Longrightarrow> c k = c' k) \<Longrightarrow> task_ok c' t"
  unfolding task_ok_def by metis

lemma task_ok_lock:
  assumes t: "task_ok c t" and r: "remaining t = Lock_row k # is"
  shows "task_ok c (t\<lparr>remaining := is, held_rows := read_row c k (held_rows t)\<rparr>)"
proof -
  have "exec c' (script t) Map.empty = exec c' is (read_row c k (held_rows t))"
    if "\<forall>a \<in> insert k (dom (held_rows t)). c' a = c a" for c'
  proof -
    have "exec c' (script t) Map.empty = exec c' (Lock_row k # is) (held_rows t)"
      using t that unfolding task_ok_def r by blast
    also have "\<dots> = exec c' is (read_row c k (held_rows t))" using that by (simp add: read_row_def)
    finally show ?thesis .
  qed
  moreover have "dom (read_row c k (held_rows t)) = insert k (dom (held_rows t))" by (auto simp: read_row_def)
  moreover have "sorted (k # locks_in is)" "\<forall>i \<in> set is. keeps_rows i"
    "insert k (dom (held_rows t)) \<union> set (locks_in is) \<subseteq> set (locks_in (script t))"
    "\<forall>a \<in> dom (held_rows t). \<forall>b \<in> set (locks_in is). a \<le> b"
    using t r by (auto simp: task_ok_def two_phase_def)
  ultimately show ?thesis by (simp add: task_ok_def two_phase_def)
qed

lemma task_ok_compute:
  assumes t: "task_ok c t" and r: "remaining t = Compute f # is" and w: "f (held_rows t) = Inr w"
  shows "task_ok c (t\<lparr>remaining := is, held_rows := w\<rparr>)" and "dom w = dom (held_rows t)"
proof -
  show d: "dom w = dom (held_rows t)" using t r w by (auto simp: task_ok_def two_phase_def keeps_rows_def)
  show "task_ok c (t\<lparr>remaining := is, held_rows := w\<rparr>)"
    unfolding task_ok_def using t r w by (simp add: d task_ok_def two_phase_def)
qed

lemma task_ok_go_on:
  assumes t: "task_ok c t" and r: "remaining t = Go_on_if g # is"
  shows "task_ok c (t\<lparr>remaining := (if g (held_rows t) then is else [])\<rparr>)"
  using assms by (auto simp: task_ok_def two_phase_def)

lemma system_ok_begin:
  assumes "\<forall>p \<in> set ps. two_phase p"
  shows "system_ok c ps (begin_system c ps)"
  using assms by (auto simp: system_ok_def begin_system_def begin_task_def apart_def task_ok_def comp_def)

lemma system_okD:
  assumes "system_ok c ps s" and "i < length (tasks s)"
  shows "script (tasks s ! i) = ps ! i"
    and "task_fate (tasks s ! i) = Running \<Longrightarrow> task_ok (stored s) (tasks s ! i) \<and> i \<notin> set (ended_order s)"
    and "task_fate (tasks s ! i) \<noteq> Running \<Longrightarrow> held_rows (tasks s ! i) = Map.empty"
  using assms nth_mem[OF assms(2)] by (auto simp: system_ok_def)

lemma fates_update:
  "i \<notin> set is \<Longrightarrow> map (\<lambda>j. task_fate (ts[i := t] ! j)) is = map (\<lambda>j. task_fate (ts ! j)) is"
  by (intro map_cong refl arg_cong[of _ _ task_fate] nth_list_update_neq) auto

lemma apart_update:
  assumes "apart ts" and "\<And>k. k < length ts \<Longrightarrow> k \<noteq> i \<Longrightarrow> dom (held_rows t) \<inter> dom (held_rows (ts ! k)) = {}"
  shows "apart (ts[i := t])"
  unfolding apart_def
proof (intro allI impI)
  fix j k
  assume "j < length (ts[i := t])" "k < length (ts[i := t])" "j \<noteq> k"
  with assms show "dom (held_rows (ts[i := t] ! j)) \<inter> dom (held_rows (ts[i := t] ! k)) = {}"
    by (cases "j = i"; cases "k = i") (simp_all add: apart_def Int_commute)
qed

lemma system_ok_put:
  assumes ok: "system_ok c ps s" and i: "i < length (tasks s)" "task_fate (tasks s ! i) = Running"
    and t: "task_fate t = Running" "script t = script (tasks s ! i)" "task_ok (stored s) t"
    and new: "\<And>k. k \<in> dom (held_rows t) \<Longrightarrow> k \<in> dom (held_rows (tasks s ! i)) \<or> \<not> held_by_other s i k"
  shows "system_ok c ps (put_task i t s)"
proof -
  have "map script ((tasks s)[i := t]) = ps"
    using ok i(1) t(2) by (auto simp: system_ok_def map_update) (metis list_update_id map_update)
  moreover have "apart ((tasks s)[i := t])"
  proof (rule apart_update)
    show ap: "apart (tasks s)" using ok by (simp add: system_ok_def)
    show "dom (held_rows t) \<inter> dom (held_rows (tasks s ! k)) = {}" if "k < length (tasks s)" "k \<noteq> i" for k
    proof -
      have "dom (held_rows (tasks s ! i)) \<inter> dom (held_rows (tasks s ! k)) = {}"
        using ap i(1) that by (simp add: apart_def)
      with new that show ?thesis unfolding held_by_other_def by blast
    qed
  qed
  moreover have "\<forall>u \<in> set ((tasks s)[i := t]). if task_fate u = Running then task_ok (stored s) u else held_rows u = Map.empty"
    using ok t by (auto simp: system_ok_def dest!: set_update_subset_insert[THEN subsetD])
  moreover have "{j. j < length (tasks s) \<and> task_fate ((tasks s)[i := t] ! j) \<noteq> Running} =
      {j. j < length (tasks s) \<and> task_fate (tasks s ! j) \<noteq> Running}"
    using i t(1) by (auto simp: nth_list_update split: if_splits)
  ultimately show ?thesis
    using ok fates_update[of i "ended_order s" "tasks s" t] system_okD(2)[OF ok i(1)] i(2)
    by (auto simp: system_ok_def put_task_def)
qed

lemma system_ok_end:
  assumes ok: "system_ok c ps s" and i: "i < length (tasks s)" "task_fate (tasks s ! i) = Running"
    and r: "case exec (stored s) (ps ! i) Map.empty of Inl e \<Rightarrow> r = Raised e \<and> d = stored s
      | Inr w \<Rightarrow> r = Committed \<and> d = write_back (stored s) w \<and> dom w \<subseteq> dom (held_rows (tasks s ! i))"
  shows "system_ok c ps (end_task i r d s)"
proof -
  let ?t = "(tasks s ! i)\<lparr>held_rows := Map.empty, task_fate := r\<rparr>"
  have nr: "r \<noteq> Running" using r by (auto split: sum.splits)
  have same: "d k = stored s k" if "k \<notin> dom (held_rows (tasks s ! i))" for k
    using r that by (auto simp: write_back_def split: sum.splits option.splits)
  have "map script ((tasks s)[i := ?t]) = ps"
    using ok i(1) by (auto simp: system_ok_def map_update) (metis list_update_id map_update)
  moreover have "\<forall>u \<in> set ((tasks s)[i := ?t]). if task_fate u = Running then task_ok d u else held_rows u = Map.empty"
  proof
    fix u
    assume "u \<in> set ((tasks s)[i := ?t])"
    then obtain j where j: "j < length (tasks s)" "u = (if j = i then ?t else tasks s ! j)"
      by (auto simp: in_set_conv_nth nth_list_update split: if_splits)
    have "\<forall>k \<in> dom (held_rows (tasks s ! j)). stored s k = d k" if "j \<noteq> i"
    proof
      fix k
      assume "k \<in> dom (held_rows (tasks s ! j))"
      with ok j(1) i(1) that have "k \<notin> dom (held_rows (tasks s ! i))"
        unfolding system_ok_def apart_def by blast
      with same show "stored s k = d k" by simp
    qed
    then have "task_ok d (tasks s ! j)" if "j \<noteq> i" "task_fate (tasks s ! j) = Running"
      using that system_okD(2)[OF ok j(1)] by (blast intro: task_ok_agree)
    with j nr system_okD(3)[OF ok j(1)]
    show "if task_fate u = Running then task_ok d u else held_rows u = Map.empty" by simp
  qed
  moreover have "apart ((tasks s)[i := ?t])"
    using ok by (intro apart_update) (simp_all add: system_ok_def)
  moreover have "insert i (set (ended_order s)) =
      {j. j < length (tasks s) \<and> task_fate ((tasks s)[i := ?t] ! j) \<noteq> Running}"
    using ok i nr by (auto simp: system_ok_def nth_list_update split: if_splits)
  moreover have "serially c (map (\<lambda>j. ps ! j) (ended_order s @ [i])) =
      (map (\<lambda>j. task_fate ((tasks s)[i := ?t] ! j)) (ended_order s @ [i]), d)"
  proof -
    have "serially c (map (\<lambda>j. ps ! j) (ended_order s)) =
        (map (\<lambda>j. task_fate (tasks s ! j)) (ended_order s), stored s)"
      using ok by (simp add: system_ok_def)
    from serially_snoc[OF this, of "ps ! i"] r i system_okD(2)[OF ok i(1)] show ?thesis
      using fates_update[of i "ended_order s" "tasks s" ?t] by (auto split: sum.splits)
  qed
  ultimately show ?thesis
    using ok system_okD(2)[OF ok i(1)] i(2) by (auto simp: system_ok_def end_task_def)
qed

lemma system_ok_statement:
  assumes ok: "system_ok c ps s" and st: "task_statement i s = Some s'"
  shows "system_ok c ps s'"
proof -
  let ?t = "tasks s ! i"
  from st have i: "i < length (tasks s)" "task_fate ?t = Running" by (auto simp: task_statement_def split: if_splits)
  note t = conjunct1[OF system_okD(2)[OF ok i]]
  have run: "exec c' (ps ! i) Map.empty = exec c' (remaining ?t) (held_rows ?t)"
    if "\<forall>k \<in> dom (held_rows ?t). c' k = stored s k" for c'
    using t that system_okD(1)[OF ok i(1)] by (simp add: task_ok_def)
  show ?thesis
  proof (cases "remaining ?t")
    case Nil
    with st i have s': "s' = end_task i Committed (write_back (stored s) (held_rows ?t)) s"
      by (simp add: task_statement_def Let_def)
    show ?thesis unfolding s' by (rule system_ok_end[OF ok i]) (use run[of "stored s"] Nil in simp)
  next
    case (Cons a "is")
    show ?thesis
    proof (cases a)
      case (Lock_row k)
      with st i Cons have free: "\<not> held_by_other s i k"
        and s': "s' = put_task i (?t\<lparr>remaining := is, held_rows := read_row (stored s) k (held_rows ?t)\<rparr>) s"
        by (auto simp: task_statement_def Let_def split: if_splits)
      show ?thesis unfolding s'
        by (rule system_ok_put[OF ok i])
          (use i(2) free task_ok_lock[OF t Cons[unfolded Lock_row]] in \<open>auto simp: read_row_def split: if_splits\<close>)
    next
      case (Compute f)
      show ?thesis
      proof (cases "f (held_rows ?t)")
        case (Inl e)
        with st i Cons Compute have s': "s' = end_task i (Raised e) (stored s) s" by (simp add: task_statement_def)
        show ?thesis unfolding s' by (rule system_ok_end[OF ok i]) (use run[of "stored s"] Cons Compute Inl in simp)
      next
        case (Inr w)
        with st i Cons Compute have s': "s' = put_task i (?t\<lparr>remaining := is, held_rows := w\<rparr>) s"
          by (simp add: task_statement_def)
        note c = task_ok_compute[OF t Cons[unfolded Compute] Inr]
        show ?thesis unfolding s' by (rule system_ok_put[OF ok i]) (use i(2) c in auto)
      qed
    next
      case (Go_on_if g)
      with st i Cons have s': "s' = put_task i (?t\<lparr>remaining := (if g (held_rows ?t) then is else [])\<rparr>) s"
        by (simp add: task_statement_def Let_def)
      show ?thesis unfolding s'
        by (rule system_ok_put[OF ok i]) (use i(2) task_ok_go_on[OF t Cons[unfolded Go_on_if]] in auto)
    qed
  qed
qed

lemma system_ok_run: "task_step\<^sup>*\<^sup>* s s' \<Longrightarrow> system_ok c ps s \<Longrightarrow> system_ok c ps s'"
  by (induction rule: rtranclp_induct) (auto elim!: task_step.cases intro: system_ok_statement)

section \<open>Progress\<close>

definition task_session :: "('k, 'v) task \<Rightarrow> 'k session" where
  "task_session t = \<lparr>owns = filter (\<lambda>k. held_rows t k \<noteq> None) (locks_in (script t)),
     wants = (if task_fate t = Running then locks_in (remaining t) else [])\<rparr>"

lemma owns_task_session:
  assumes "system_ok c ps s" and "i < length (tasks s)"
  shows "set (owns (task_session (tasks s ! i))) = dom (held_rows (tasks s ! i))"
proof (cases "task_fate (tasks s ! i) = Running")
  case True
  with system_okD(2)[OF assms] have "dom (held_rows (tasks s ! i)) \<subseteq> set (locks_in (script (tasks s ! i)))"
    by (simp add: task_ok_def)
  then show ?thesis by (auto simp: task_session_def)
next
  case False
  with system_okD(3)[OF assms] show ?thesis by (simp add: task_session_def)
qed

lemma owned_elsewhere_tasks:
  assumes "system_ok c ps s"
  shows "owned_elsewhere (map task_session (tasks s)) i k = held_by_other s i k"
proof -
  have "k \<in> set (owns (task_session (tasks s ! j))) \<longleftrightarrow> held_rows (tasks s ! j) k \<noteq> None" if "j < length (tasks s)" for j
    using owns_task_session[OF assms that] by auto
  then show ?thesis by (auto simp: owned_elsewhere_def held_by_other_def)
qed

lemma locks_inv_tasks:
  assumes ok: "system_ok c ps s"
  shows "locks_inv (map task_session (tasks s))"
proof -
  have "ordered_session (task_session (tasks s ! i))" if "i < length (tasks s)" for i
    unfolding ordered_session_def owns_task_session[OF ok that]
    using system_okD(2)[OF ok that] by (auto simp: task_session_def task_ok_def two_phase_def)
  moreover have "\<not> held_by_other s i k"
    if i: "i < length (tasks s)" and "k \<in> set (owns (task_session (tasks s ! i)))" for i k
    using ok i that(2) unfolding owns_task_session[OF ok i] system_ok_def apart_def held_by_other_def by blast
  ultimately show ?thesis by (simp add: locks_inv_def owned_elsewhere_tasks[OF ok])
qed

lemma can_move:
  assumes "i < length (tasks s)" and "task_fate (tasks s ! i) = Running"
    and "\<And>k is. remaining (tasks s ! i) = Lock_row k # is \<Longrightarrow> \<not> held_by_other s i k"
  shows "\<exists>s'. task_step s s'"
proof -
  have "task_statement i s \<noteq> None"
    using assms by (auto simp: task_statement_def Let_def split: list.splits instr.splits sum.splits)
  then show ?thesis by (auto intro: task_step.run)
qed

lemma system_progress:
  assumes ok: "system_ok c ps s" and i: "i < length (tasks s)" "task_fate (tasks s ! i) = Running"
  shows "\<exists>s'. task_step s s'"
proof (cases "\<exists>k is. remaining (tasks s ! i) = Lock_row k # is")
  case False
  then show ?thesis using can_move[OF i] by blast
next
  case True
  then have "\<not> ended (map task_session (tasks s) ! i)" using i by (auto simp: ended_def task_session_def)
  from ordered_progress[OF locks_inv_tasks[OF ok] _ this] i obtain ss where
    "lock_step (map task_session (tasks s)) ss" by auto
  then show ?thesis
  proof cases
    case (acquire j k ks)
    then have j: "j < length (tasks s)" "task_fate (tasks s ! j) = Running" "locks_in (remaining (tasks s ! j)) = k # ks"
      by (auto simp: task_session_def split: if_splits)
    moreover have "\<not> held_by_other s j k" using acquire(4) owned_elsewhere_tasks[OF ok] by simp
    ultimately show ?thesis by (intro can_move[of j]) auto
  next
    case (finish j)
    then have j: "j < length (tasks s)" "dom (held_rows (tasks s ! j)) \<noteq> {}"
      and w: "wants (task_session (tasks s ! j)) = []"
      using owns_task_session[OF ok, of j] by auto
    from j system_okD(3)[OF ok j(1)] have r: "task_fate (tasks s ! j) = Running" by auto
    with w have "locks_in (remaining (tasks s ! j)) = []" by (simp add: task_session_def)
    with j(1) r show ?thesis by (intro can_move[of j]) auto
  qed
qed

text \<open>Every run ends: a statement uses up an instruction or the task.\<close>

definition instrs_left :: "('k, 'v) task \<Rightarrow> nat" where
  "instrs_left t = (if task_fate t = Running then 1 + length (remaining t) else 0)"

lemma statement_shrinks:
  assumes "task_statement i s = Some s'" and "system_ok c ps s"
  shows "sum_list (map instrs_left (tasks s')) < sum_list (map instrs_left (tasks s))"
proof -
  from assms(1) have i: "i < length (tasks s)" "task_fate (tasks s ! i) = Running"
    by (auto simp: task_statement_def split: if_splits)
  have "\<exists>t. tasks s' = (tasks s)[i := t] \<and> instrs_left t < instrs_left (tasks s ! i)"
    using assms(1) i
    by (force simp: task_statement_def Let_def put_task_def end_task_def instrs_left_def
        split: list.splits instr.splits sum.splits if_splits)
  with sum_list_update_less[OF i(1)] show ?thesis by metis
qed

definition all_done :: "('k, 'v) system \<Rightarrow> bool" where
  "all_done s \<longleftrightarrow> list_all (\<lambda>t. task_fate t \<noteq> Running) (tasks s)"

lemma system_can_end:
  assumes "system_ok c ps s"
  shows "\<exists>s'. task_step\<^sup>*\<^sup>* s s' \<and> all_done s'"
  using assms
proof (induction "sum_list (map instrs_left (tasks s))" arbitrary: s rule: less_induct)
  case less
  show ?case
  proof (cases "all_done s")
    case True
    then show ?thesis by blast
  next
    case False
    then obtain i where "i < length (tasks s)" "task_fate (tasks s ! i) = Running"
      by (auto simp: all_done_def list_all_length)
    with less.prems obtain s1 where s1: "task_step s s1" by (blast dest: system_progress)
    then obtain j where j: "task_statement j s = Some s1" by (auto elim: task_step.cases)
    from less.hyps[OF statement_shrinks[OF j less.prems] system_ok_statement[OF less.prems j]] s1 show ?thesis
      by (auto intro: converse_rtranclp_into_rtranclp)
  qed
qed

section \<open>The interface\<close>

locale row_programs =
  fixes program :: "'op \<Rightarrow> ('k :: linorder, 'v) instr list"
  assumes program_two_phase: "two_phase (program t)"
begin

lemma run_system_ok:
  "task_step\<^sup>*\<^sup>* (begin_system c (map program ts)) s \<Longrightarrow> system_ok c (map program ts) s"
  using system_ok_begin[of "map program ts" c] by (auto simp: program_two_phase intro: system_ok_run)

lemma serial:
  assumes "task_step\<^sup>*\<^sup>* (begin_system c (map program ts)) s"
  shows "serially c (map (\<lambda>i. program (ts ! i)) (ended_order s)) =
      (map (\<lambda>i. task_fate (tasks s ! i)) (ended_order s), stored s)"
    and "distinct (ended_order s)"
    and "set (ended_order s) = {i. i < length ts \<and> task_fate (tasks s ! i) \<noteq> Running}"
proof -
  note ok = run_system_ok[OF assms]
  then have "length (tasks s) = length ts" by (auto simp: system_ok_def dest: map_eq_imp_length_eq)
  with ok show "distinct (ended_order s)"
    and e: "set (ended_order s) = {i. i < length ts \<and> task_fate (tasks s ! i) \<noteq> Running}"
    by (simp_all add: system_ok_def)
  have "map (\<lambda>i. program (ts ! i)) (ended_order s) = map (\<lambda>i. map program ts ! i) (ended_order s)"
    using e by (intro map_cong) auto
  moreover have "serially c (map (\<lambda>i. map program ts ! i) (ended_order s)) =
      (map (\<lambda>i. task_fate (tasks s ! i)) (ended_order s), stored s)" using ok by (simp only: system_ok_def)
  ultimately show "serially c (map (\<lambda>i. program (ts ! i)) (ended_order s)) =
      (map (\<lambda>i. task_fate (tasks s ! i)) (ended_order s), stored s)" by (simp only:)
qed

lemma can_end:
  assumes "task_step\<^sup>*\<^sup>* (begin_system c (map program ts)) s"
  shows "\<exists>s'. task_step\<^sup>*\<^sup>* s s' \<and> all_done s'"
  using system_can_end[OF run_system_ok[OF assms]] .

end

end
