(* ===== verification/Transactions.thy ===== *)
theory Transactions
  imports TwoPhase
begin

text \<open>
  The transactions of the services as programs on rows: the second transactions of payments, webhooks
  and refunds lock the payment, change it, and post (lock the balances, apply the postings); a hold
  inserts the payment and posts.
\<close>

section \<open>Rows\<close>

text \<open>The row of a payment, if there is one, and the balance of an account. \<open>updated_at\<close>, which no transaction reads, is left out.\<close>

datatype row_value = Pay_value "Payment option" | Bal_value int

type_synonym books = "(UUID \<rightharpoonup> Payment) \<times> (UUID \<Rightarrow> int)"

fun rows :: "books \<Rightarrow> lock_row \<Rightarrow> row_value" where
  "rows (pays, f) (Payment_row i) = Pay_value (pays i)"
| "rows (pays, f) (Balance_row a) = Bal_value (f a)"

definition timeless :: "Payment \<Rightarrow> Payment" where
  "timeless p = p\<lparr>pay_updated_at := 0\<rparr>"

definition books_in :: "database \<Rightarrow> books" where
  "books_in d = ((\<lambda>i. map_option timeless (row_of pay_id i (payments d))), balance d)"

section \<open>Programs\<close>

definition on_payment :: "exn \<Rightarrow> UUID \<Rightarrow> (Payment \<Rightarrow> exn + Payment) \<Rightarrow> (lock_row, row_value) instr" where
  "on_payment missing i f = Compute (\<lambda>w. case w (Payment_row i) of
     Some (Pay_value (Some q)) \<Rightarrow> map_sum id (\<lambda>q'. w(Payment_row i \<mapsto> Pay_value (Some q'))) (f q)
   | _ \<Rightarrow> Inl missing)"

definition insert_payment :: "Payment \<Rightarrow> (lock_row, row_value) instr" where
  "insert_payment p = Compute (\<lambda>w. case w (Payment_row (pay_id p)) of
     Some (Pay_value None) \<Rightarrow> Inr (w(Payment_row (pay_id p) \<mapsto> Pay_value (Some p)))
   | _ \<Rightarrow> Inl DBAPIError)"

definition apply_row :: "Posting \<Rightarrow> (lock_row, row_value) instr" where
  "apply_row p = Compute (\<lambda>w. case w (Balance_row (pst_account_id p)) of
     Some (Bal_value b) \<Rightarrow> map_sum id (\<lambda>v. w(Balance_row (pst_account_id p) \<mapsto> Bal_value v)) (posting_result b p)
   | _ \<Rightarrow> Inl KeyError)"

text \<open>\<open>LedgerService.post\<close>.\<close>

definition post_rows :: "Posting list \<Rightarrow> (lock_row, row_value) instr list" where
  "post_rows ps = (case validate_balanced ps of
     Inl e \<Rightarrow> [Compute (\<lambda>_. Inl e)]
   | Inr _ \<Rightarrow> map (\<lambda>a. Lock_row (Balance_row a)) (sorted_account_ids ps) @ map apply_row ps)"

definition settled :: "string \<Rightarrow> Payment \<Rightarrow> Payment" where
  "settled ref q = q\<lparr>pay_status := PaymentStatus.SUCCEEDED, pay_psp_reference := Some ref,
     pay_version := pay_version q + 1\<rparr>"

definition reversed :: "Payment \<Rightarrow> Payment" where
  "reversed q = q\<lparr>pay_status := PaymentStatus.FAILED, pay_version := pay_version q + 1\<rparr>"

definition awaiting_webhook :: "string option \<Rightarrow> Payment \<Rightarrow> Payment" where
  "awaiting_webhook ref q = q\<lparr>pay_status := PaymentStatus.AUTHORIZED, pay_psp_reference := ref\<rparr>"

definition settle_rows :: "string \<Rightarrow> Payment \<Rightarrow> (lock_row, row_value) instr list" where
  "settle_rows ref p = Lock_row (Payment_row (pay_id p)) #
     on_payment (PaymentNotFoundException (pay_id p)) (pay_id p) (\<lambda>q. Inr (settled ref q)) #
     post_rows (transfer PSP_SUSPENSE_ACCOUNT_ID (pay_payee_account p) (pay_amount p))"

definition reverse_rows :: "Payment \<Rightarrow> (lock_row, row_value) instr list" where
  "reverse_rows p = Lock_row (Payment_row (pay_id p)) #
     on_payment (PaymentNotFoundException (pay_id p)) (pay_id p) (\<lambda>q. Inr (reversed q)) #
     post_rows (transfer PSP_SUSPENSE_ACCOUNT_ID (pay_payer_account p) (pay_amount p))"

text \<open>
  A hold inserts the payment, which takes the new row for itself. The payment of a webhook is selected by its
  reference: the test is made on the locked row, as PostgreSQL checks the condition of the query again
  after a wait.
\<close>

definition hold_rows :: "Payment \<Rightarrow> (lock_row, row_value) instr list" where
  [simp]: "hold_rows p = Lock_row (Payment_row (pay_id p)) #
     insert_payment (timeless (p\<lparr>pay_status := PaymentStatus.PROCESSING\<rparr>)) #
     post_rows (transfer (pay_payer_account p) PSP_SUSPENSE_ACCOUNT_ID (pay_amount p))"

definition resolve_rows :: "AuthorizationResult \<Rightarrow> Payment \<Rightarrow> (lock_row, row_value) instr list" where
  [simp]: "resolve_rows a p = (case ar_outcome a of
     CAPTURED \<Rightarrow> settle_rows (case ar_psp_reference a of None \<Rightarrow> [] | Some r \<Rightarrow> r) p
   | DECLINED \<Rightarrow> reverse_rows p
   | AuthorizationOutcome.PENDING \<Rightarrow> [Lock_row (Payment_row (pay_id p)),
       on_payment NoResultFound (pay_id p) (\<lambda>q. Inr (awaiting_webhook (ar_psp_reference a) q))])"

definition webhook_rows :: "string \<Rightarrow> string \<Rightarrow> Payment \<Rightarrow> (lock_row, row_value) instr list" where
  [simp]: "webhook_rows ty ref p = Lock_row (Payment_row (pay_id p)) #
     Go_on_if (\<lambda>w. case w (Payment_row (pay_id p)) of
         Some (Pay_value (Some q)) \<Rightarrow> pay_psp_reference q = Some ref \<and> pay_status q = PaymentStatus.AUTHORIZED
       | _ \<Rightarrow> False) #
     (case event_outcome (JStr ty) of
        Some CAPTURED \<Rightarrow> settle_rows ref p | Some DECLINED \<Rightarrow> reverse_rows p | _ \<Rightarrow> [])"

definition refund_rows :: "int \<Rightarrow> Payment \<Rightarrow> (lock_row, row_value) instr list" where
  [simp]: "refund_rows x p = Lock_row (Payment_row (pay_id p)) #
     on_payment (PaymentNotFoundException (pay_id p)) (pay_id p) (\<lambda>q. case refund_guard q x of
         Some e \<Rightarrow> Inl e | None \<Rightarrow> Inr (refunded_payment q x 0)) #
     post_rows (transfer (pay_payee_account p) (pay_payer_account p) x)"

text \<open>
  A transaction, with the terms of the payment it is about: a hold of a new payment; the resolution by
  the answer of the provider; a webhook with its event type and reference; a refund under a key.
\<close>

datatype row_call =
    Hold_call Payment
  | Resolve_call AuthorizationResult Payment
  | Webhook_call string string Payment
  | Refund_call string int Payment

fun row_program :: "row_call \<Rightarrow> (lock_row, row_value) instr list" where
  "row_program (Hold_call p) = hold_rows p"
| "row_program (Resolve_call a p) = resolve_rows a p"
| "row_program (Webhook_call ty ref p) = webhook_rows ty ref p"
| "row_program (Refund_call k x p) = refund_rows x p"

section \<open>Programs lock in order and compute on what they hold\<close>

lemma locks_in_append: "locks_in (is @ js) = locks_in is @ locks_in js"
  by (induction "is" rule: locks_in.induct) auto

lemma locks_in_post_rows: "locks_in (post_rows ps) = (if validate_balanced ps = Inr () then post_locks ps else [])"
proof -
  have "locks_in (map (\<lambda>a. Lock_row (Balance_row a)) as) = map Balance_row as" for "as"
    by (induction "as") auto
  moreover have "locks_in (map apply_row ps) = []" by (induction ps) (auto simp: apply_row_def)
  ultimately show ?thesis by (auto simp: post_rows_def post_locks_def locks_in_append split: sum.split)
qed

lemma map_sum_Inr_iff: "map_sum id f m = Inr y \<longleftrightarrow> (\<exists>x. m = Inr x \<and> y = f x)"
  by (cases m) auto

lemma dom_update: "w k = Some v \<Longrightarrow> dom (w(k \<mapsto> u)) = dom w"
  by auto

lemma keeps_on_payment: "keeps_rows (on_payment e i f)"
  unfolding keeps_rows_def on_payment_def
  by (simp add: map_sum_Inr_iff dom_update split: option.split row_value.split) (blast dest: dom_update)

lemma keeps_insert_payment: "keeps_rows (insert_payment p)"
  unfolding keeps_rows_def insert_payment_def
  by (simp split: option.split row_value.split) (blast dest: dom_update)

lemma keeps_apply_row: "keeps_rows (apply_row p)"
  unfolding keeps_rows_def apply_row_def
  by (simp add: map_sum_Inr_iff split: option.split row_value.split) (blast dest: dom_update)

lemma keeps_post_rows: "\<forall>i \<in> set (post_rows ps). keeps_rows i"
  by (auto simp: post_rows_def keeps_apply_row split: sum.splits) (simp_all add: keeps_rows_def)

lemma two_phase_post: "keeps_rows a \<Longrightarrow> locks_in [a] = [] \<Longrightarrow> two_phase (Lock_row (Payment_row i) # a # post_rows ps)"
  using payment_first_sorted[of i ps] keeps_post_rows[of ps]
  by (cases a) (auto simp: two_phase_def locks_in_post_rows keeps_rows_def)

lemma two_phase_settle: "two_phase (settle_rows ref p)" and two_phase_reverse: "two_phase (reverse_rows p)"
  unfolding settle_rows_def reverse_rows_def
  by (rule two_phase_post, rule keeps_on_payment, simp add: on_payment_def)+

lemma two_phase_again:
  assumes "two_phase js" and "\<forall>k \<in> set (locks_in js). Payment_row i \<le> k"
  shows "two_phase (Lock_row (Payment_row i) # Go_on_if g # js)"
  using assms by (simp add: two_phase_def keeps_rows_def)

lemma payment_row_least: "\<forall>k \<in> set (locks_in (settle_rows ref p)). Payment_row (pay_id p) \<le> k"
  "\<forall>k \<in> set (locks_in (reverse_rows p)). Payment_row (pay_id p) \<le> k"
  using payment_first_sorted[of "pay_id p"]
  by (auto simp: settle_rows_def reverse_rows_def on_payment_def locks_in_post_rows)

lemma row_program_two_phase: "two_phase (row_program call)"
proof (cases call)
  case (Hold_call p)
  then show ?thesis
    by (simp only: row_program.simps hold_rows_def, intro two_phase_post keeps_insert_payment) (simp add: insert_payment_def)
next
  case (Resolve_call a p)
  show ?thesis
  proof (cases "ar_outcome a")
    case PENDING
    with Resolve_call show ?thesis
      using keeps_on_payment[of NoResultFound "pay_id p" "\<lambda>q. Inr (awaiting_webhook (ar_psp_reference a) q)"]
      by (simp add: two_phase_def on_payment_def) (simp add: keeps_rows_def)
  qed (use Resolve_call two_phase_settle two_phase_reverse in simp_all)
next
  case (Webhook_call ty ref p)
  have "two_phase []" by (simp add: two_phase_def)
  with Webhook_call payment_row_least two_phase_settle two_phase_reverse show ?thesis
    by (auto intro!: two_phase_again split: option.split AuthorizationOutcome.split)
next
  case (Refund_call k x p)
  then show ?thesis
    by (simp only: row_program.simps refund_rows_def, intro two_phase_post keeps_on_payment) (simp add: on_payment_def)
qed

text \<open>The locks are those of \<open>Locks\<close>; a hold first takes the row it inserts.\<close>

lemma locks_in_row_program:
  assumes "0 < x" and "0 < pay_amount p"
  shows "locks_in (row_program (Hold_call p)) = Payment_row (pay_id p) # tx_locks (Hold_tx p)"
    and "locks_in (row_program (Resolve_call a p)) = tx_locks (Resolve_tx (ar_outcome a) p)"
    and "event_outcome (JStr ty) = Some out \<Longrightarrow>
      locks_in (row_program (Webhook_call ty ref p)) = tx_locks (Webhook_tx out p)"
    and "locks_in (row_program (Refund_call k x p)) = tx_locks (Refund_tx p x)"
proof -
  have v: "validate_balanced (transfer b c y) = Inr ()" if "0 < y" for b c y using that by (simp only: validate_transfer)
  have l: "locks_in (settle_rows r p) = settle_locks p" "locks_in (reverse_rows p) = reverse_locks p" for r
    by (simp_all add: settle_rows_def reverse_rows_def settle_locks_def reverse_locks_def on_payment_def
        locks_in_post_rows v[OF assms(2)])
  show "locks_in (row_program (Hold_call p)) = Payment_row (pay_id p) # tx_locks (Hold_tx p)"
    by (simp add: insert_payment_def locks_in_post_rows v[OF assms(2)] hold_locks_def)
  show "locks_in (row_program (Resolve_call a p)) = tx_locks (Resolve_tx (ar_outcome a) p)"
    by (cases "ar_outcome a") (simp_all add: l on_payment_def)
  show "locks_in (row_program (Webhook_call ty ref p)) = tx_locks (Webhook_tx out p)" if "event_outcome (JStr ty) = Some out"
  proof -
    have "out = CAPTURED \<or> out = DECLINED" using that by (auto split: if_splits)
    with that l show ?thesis by (auto simp: webhook_locks_def simp del: event_outcome.simps)
  qed
  show "locks_in (row_program (Refund_call k x p)) = tx_locks (Refund_tx p x)"
    by (simp add: on_payment_def locks_in_post_rows v[OF assms(1)] refund_locks_def)
qed

interpretation calls: row_programs row_program
  by unfold_locales (rule row_program_two_phase)

section \<open>What a program does to the books\<close>

fun post_to :: "Posting list \<Rightarrow> books \<Rightarrow> exn + books" where
  "post_to ps (pays, f) = (case validate_balanced ps of
     Inl e \<Rightarrow> Inl e | Inr _ \<Rightarrow> map_sum id (\<lambda>g. (pays, g)) (run_postings f ps))"

fun change_and_post :: "exn \<Rightarrow> UUID \<Rightarrow> (Payment \<Rightarrow> exn + Payment) \<Rightarrow> Posting list \<Rightarrow> books \<Rightarrow> exn + books" where
  "change_and_post missing i h ps (pays, f) = (case pays i of
     None \<Rightarrow> Inl missing
   | Some q \<Rightarrow> (case h q of Inl e \<Rightarrow> Inl e | Inr q' \<Rightarrow> post_to ps (pays(i \<mapsto> q'), f)))"

definition resolve_effect :: "AuthorizationOutcome \<Rightarrow> string option \<Rightarrow> Payment \<Rightarrow> books \<Rightarrow> exn + books" where
  "resolve_effect out ref p B = (case out of
     CAPTURED \<Rightarrow> change_and_post (PaymentNotFoundException (pay_id p)) (pay_id p)
       (\<lambda>q. Inr (settled (case ref of None \<Rightarrow> [] | Some r \<Rightarrow> r) q))
       (transfer PSP_SUSPENSE_ACCOUNT_ID (pay_payee_account p) (pay_amount p)) B
   | DECLINED \<Rightarrow> change_and_post (PaymentNotFoundException (pay_id p)) (pay_id p) (\<lambda>q. Inr (reversed q))
       (transfer PSP_SUSPENSE_ACCOUNT_ID (pay_payer_account p) (pay_amount p)) B
   | AuthorizationOutcome.PENDING \<Rightarrow> (case fst B (pay_id p) of None \<Rightarrow> Inl NoResultFound
       | Some q \<Rightarrow> Inr ((fst B)(pay_id p \<mapsto> awaiting_webhook ref q), snd B)))"

fun call_effect :: "row_call \<Rightarrow> books \<Rightarrow> exn + books" where
  "call_effect (Hold_call p) (pays, f) = (case pays (pay_id p) of
     None \<Rightarrow> post_to (transfer (pay_payer_account p) PSP_SUSPENSE_ACCOUNT_ID (pay_amount p))
       (pays(pay_id p \<mapsto> timeless (p\<lparr>pay_status := PaymentStatus.PROCESSING\<rparr>)), f)
   | Some _ \<Rightarrow> Inl DBAPIError)"
| "call_effect (Resolve_call a p) B = resolve_effect (ar_outcome a) (ar_psp_reference a) p B"
| "call_effect (Webhook_call ty ref p) (pays, f) = (case (pays (pay_id p), event_outcome (JStr ty)) of
     (Some q, Some out) \<Rightarrow> if pay_psp_reference q = Some ref \<and> pay_status q = PaymentStatus.AUTHORIZED
       then resolve_effect out (Some ref) p (pays, f) else Inr (pays, f)
   | _ \<Rightarrow> Inr (pays, f))"
| "call_effect (Refund_call k x p) B = change_and_post (PaymentNotFoundException (pay_id p)) (pay_id p)
     (\<lambda>q. case refund_guard q x of Some e \<Rightarrow> Inl e | None \<Rightarrow> Inr (refunded_payment q x 0))
     (transfer (pay_payee_account p) (pay_payer_account p) x) B"

text \<open>The held rows with the balances of some accounts.\<close>

definition with_balances :: "UUID set \<Rightarrow> (UUID \<Rightarrow> int) \<Rightarrow> (lock_row \<rightharpoonup> row_value) \<Rightarrow> (lock_row \<rightharpoonup> row_value)" where
  "with_balances A g w r = (case r of
     Balance_row a \<Rightarrow> if a \<in> A then Some (Bal_value (g a)) else w r | Payment_row _ \<Rightarrow> w r)"

lemma with_no_balances [simp]: "with_balances {} g w = w"
  by (auto simp: fun_eq_iff with_balances_def split: lock_row.split)

lemma exec_locks:
  "exec c (map (\<lambda>a. Lock_row (Balance_row a)) as @ js) w =
     exec c js (\<lambda>r. if w r = None \<and> r \<in> Balance_row ` set as then Some (c r) else w r)"
  by (induction "as" arbitrary: w) (auto simp: read_row_def fun_eq_iff intro!: arg_cong[of _ _ "exec c js"])

lemma exec_apply_rows:
  assumes "pst_account_id ` set ps \<subseteq> A"
  shows "exec c (map apply_row ps) (with_balances A f w) = map_sum id (\<lambda>g. with_balances A g w) (run_postings f ps)"
  using assms
proof (induction ps arbitrary: f)
  case Nil
  then show ?case by simp
next
  case (Cons p ps)
  have "(with_balances A f w)(Balance_row a \<mapsto> Bal_value v) = with_balances A (f(a := v)) w" if "a \<in> A" for a v
    using that by (auto simp: with_balances_def fun_eq_iff split: lock_row.split)
  moreover have "with_balances A f w (Balance_row (pst_account_id p)) = Some (Bal_value (f (pst_account_id p)))"
    using Cons.prems by (simp add: with_balances_def)
  ultimately show ?case
    using Cons by (cases "posting_result (f (pst_account_id p)) p") (simp_all add: apply_row_def)
qed

text \<open>What a program leaves in the store when it has run alone.\<close>

abbreviation outcome :: "(lock_row, row_value) instr list \<Rightarrow> (lock_row \<rightharpoonup> row_value) \<Rightarrow> books \<Rightarrow>
    exn + (lock_row \<Rightarrow> row_value)" where
  "outcome js w B \<equiv> map_sum id (write_back (rows B)) (exec (rows B) js w)"

lemma write_back_with_balances:
  assumes "\<And>a. a \<notin> A \<Longrightarrow> g a = f a"
  shows "write_back (rows (pays, f)) (with_balances A g [Payment_row i \<mapsto> Pay_value q]) = rows (pays(i := q), g)"
proof
  fix r
  show "write_back (rows (pays, f)) (with_balances A g [Payment_row i \<mapsto> Pay_value q]) r = rows (pays(i := q), g) r"
    using assms by (cases r) (auto simp: write_back_def with_balances_def)
qed

lemma outcome_post_rows:
  "outcome (post_rows ps) [Payment_row i \<mapsto> Pay_value q] (pays, f) = map_sum id rows (post_to ps (pays(i := q), f))"
proof (cases "validate_balanced ps")
  case (Inl e)
  then show ?thesis by (simp add: post_rows_def)
next
  case (Inr u)
  let ?w = "[Payment_row i \<mapsto> Pay_value q]" and ?A = "pst_account_id ` set ps"
  have "(\<lambda>r. if ?w r = None \<and> r \<in> Balance_row ` set (sorted_account_ids ps) then Some (rows (pays, f) r) else ?w r) =
      with_balances ?A f ?w"
    by (auto simp: fun_eq_iff with_balances_def sorted_account_ids_def split: lock_row.split)
  then have "exec (rows (pays, f)) (post_rows ps) ?w = map_sum id (\<lambda>g. with_balances ?A g ?w) (run_postings f ps)"
    using Inr by (simp add: post_rows_def exec_locks exec_apply_rows)
  moreover have "write_back (rows (pays, f)) (with_balances ?A g ?w) = rows (pays(i := q), g)" if "run_postings f ps = Inr g" for g
    using that by (intro write_back_with_balances) (blast dest: run_postings_outside)
  ultimately show ?thesis using Inr by (cases "run_postings f ps") simp_all
qed

text \<open>A program that locks a payment, changes it and posts; it may hold the payment already.\<close>

lemma outcome_change:
  assumes "w = Map.empty \<or> w = [Payment_row i \<mapsto> Pay_value (pays i)]"
  shows "outcome (Lock_row (Payment_row i) # on_payment e i h # post_rows ps) w (pays, f) =
    map_sum id rows (change_and_post e i h ps (pays, f))"
proof -
  have "read_row (rows (pays, f)) (Payment_row i) w = [Payment_row i \<mapsto> Pay_value (pays i)]"
    using assms by (auto simp: read_row_def)
  then show ?thesis
    using outcome_post_rows[where i = i and ps = ps and pays = pays and f = f]
    by (auto simp: on_payment_def split: option.split sum.split)
qed

lemma outcome_resolve:
  assumes "w = Map.empty \<or> w = [Payment_row (pay_id p) \<mapsto> Pay_value (pays (pay_id p))]"
  shows "outcome (settle_rows ref p) w (pays, f) = map_sum id rows (resolve_effect CAPTURED (Some ref) p (pays, f))"
    and "outcome (reverse_rows p) w (pays, f) = map_sum id rows (resolve_effect DECLINED ref' p (pays, f))"
  using outcome_change[where w = w and i = "pay_id p" and pays = pays and f = f] assms
  by (simp_all add: settle_rows_def reverse_rows_def resolve_effect_def)

lemma call_effect_outcome: "outcome (row_program call) Map.empty B = map_sum id rows (call_effect call B)"
proof -
  obtain pays f where B: "B = (pays, f)" by (cases B)
  show ?thesis
  proof (cases call)
    case (Hold_call p)
    then show ?thesis
      using outcome_post_rows[where i = "pay_id p" and pays = pays and f = f]
      by (cases "pays (pay_id p)") (simp_all add: B insert_payment_def read_row_def timeless_def)
  next
    case (Resolve_call a p)
    show ?thesis
    proof (cases "ar_outcome a")
      case CAPTURED
      with Resolve_call outcome_resolve(1)[where w = Map.empty and p = p and pays = pays and f = f] show ?thesis
        by (cases "ar_psp_reference a") (simp_all add: B resolve_effect_def)
    next
      case DECLINED
      with Resolve_call outcome_resolve(2)[where w = Map.empty and p = p and pays = pays and f = f] show ?thesis by (simp add: B)
    next
      case PENDING
      have "write_back (rows (pays, f)) [Payment_row i \<mapsto> Pay_value q] = rows (pays(i := q), f)" for i q
        using write_back_with_balances[of "{}" f f pays i q] by simp
      with PENDING Resolve_call show ?thesis
        by (auto simp: B resolve_effect_def on_payment_def read_row_def split: option.split)
    qed
  next
    case (Webhook_call ty ref p)
    let ?w = "[Payment_row (pay_id p) \<mapsto> Pay_value (pays (pay_id p))]"
    have same: "write_back (rows (pays, f)) ?w = rows (pays, f)"
      using write_back_with_balances[of "{}" f f pays "pay_id p" "pays (pay_id p)"]
      by simp
    have r: "read_row (rows (pays, f)) (Payment_row (pay_id p)) Map.empty = ?w" by (simp add: read_row_def)
    show ?thesis
    proof (cases "event_outcome (JStr ty)")
      case None
      with same r Webhook_call show ?thesis by (auto simp: B split: option.split)
    next
      case (Some out)
      then have "out = CAPTURED \<or> out = DECLINED" by (auto simp: event_outcome_eq split: if_splits)
      with Some same r Webhook_call outcome_resolve[where w = ?w and p = p and pays = pays and f = f] show ?thesis
        by (auto simp: B split: option.split)
    qed
  next
    case (Refund_call k x p)
    with outcome_change[where w = Map.empty and i = "pay_id p" and pays = pays and f = f] show ?thesis by (simp add: B)
  qed
qed

section \<open>One call after the other\<close>

fun call_by_call :: "books \<Rightarrow> row_call list \<Rightarrow> fate list \<times> books" where
  "call_by_call B [] = ([], B)"
| "call_by_call B (call # calls) = (case call_effect call B of
     Inl e \<Rightarrow> (let (rs, B') = call_by_call B calls in (Raised e # rs, B'))
   | Inr C \<Rightarrow> (let (rs, B') = call_by_call C calls in (Committed # rs, B')))"

lemma serially_calls:
  "serially (rows B) (map row_program calls) = (case call_by_call B calls of (rs, C) \<Rightarrow> (rs, rows C))"
proof (induction calls arbitrary: B)
  case Nil
  then show ?case by simp
next
  case (Cons call calls)
  note o = call_effect_outcome[where call = call and B = B]
  show ?case
  proof (cases "call_effect call B")
    case (Inl e)
    with o have "exec (rows B) (row_program call) Map.empty = Inl e"
      by (cases "exec (rows B) (row_program call) Map.empty") simp_all
    with Inl Cons show ?thesis by (simp split: prod.split)
  next
    case (Inr C)
    with o obtain w where "exec (rows B) (row_program call) Map.empty = Inr w" "write_back (rows B) w = rows C"
      by (cases "exec (rows B) (row_program call) Map.empty") simp_all
    with Inr Cons show ?thesis by (simp split: prod.split)
  qed
qed

lemma rows_inj: "rows B = rows C \<Longrightarrow> B = C"
proof -
  assume eq: "rows B = rows C"
  obtain pays f pays' f' where [simp]: "B = (pays, f)" "C = (pays', f')" by (cases B; cases C)
  have "pays i = pays' i" for i using fun_cong[OF eq, of "Payment_row i"] by simp
  moreover have "f a = f' a" for a using fun_cong[OF eq, of "Balance_row a"] by simp
  ultimately show "B = C" by (simp add: fun_eq_iff)
qed

text \<open>What an interleaving has done so far.\<close>

lemma calls_serial:
  assumes "task_step\<^sup>*\<^sup>* (begin_system (rows B) (map row_program calls)) s"
  obtains C where "stored s = rows C"
    and "call_by_call B (map (\<lambda>i. calls ! i) (ended_order s)) = (map (\<lambda>i. task_fate (tasks s ! i)) (ended_order s), C)"
proof -
  have "serially (rows B) (map row_program (map (\<lambda>i. calls ! i) (ended_order s))) =
      (map (\<lambda>i. task_fate (tasks s ! i)) (ended_order s), stored s)"
    using calls.serial(1)[OF assms] by (simp add: comp_def)
  then show thesis unfolding serially_calls using that by (auto split: prod.splits)
qed

section \<open>The code of the services\<close>

fun call_code :: "env \<Rightarrow> row_call \<Rightarrow> unit M" where
  "call_code env (Hold_call p) = and_then (hold p) (\<lambda>_. ret ())"
| "call_code env (Resolve_call a p) = and_then (resolve (pay_id p) a) (\<lambda>_. ret ())"
| "call_code env (Webhook_call ty ref p) = transition_payment (JStr ty) (JStr ref)"
| "call_code env (Refund_call k x p) = and_then (refund env k (pay_id p) x) (\<lambda>_. ret ())"

text \<open>
  What a call finds: a hold a new identifier; every other call its payment, with the terms it names; a
  webhook a reference of this payment alone; a refund an unused key.
\<close>

definition named :: "database \<Rightarrow> Payment \<Rightarrow> bool" where
  "named d p \<longleftrightarrow> (case row_of pay_id (pay_id p) (payments d) of None \<Rightarrow> False | Some q \<Rightarrow> same_terms p q)"

fun call_ready :: "database \<Rightarrow> row_call \<Rightarrow> bool" where
  "call_ready d (Hold_call p) = (row_of pay_id (pay_id p) (payments d) = None)"
| "call_ready d (Resolve_call a p) = named d p"
| "call_ready d (Webhook_call ty ref p) = (named d p \<and> ref \<noteq> [] \<and>
     filter (\<lambda>q. pay_psp_reference q = Some ref) (payments d) = [the (row_of pay_id (pay_id p) (payments d))])"
| "call_ready d (Refund_call k x p) = (named d p \<and> refund_key d k = Unused)"

lemma transaction_then_ret:
  assumes "transaction (and_then m (\<lambda>_. ret ())) s = (Inr u, t)"
  obtains x where "transaction m s = (Inr x, t)"
proof -
  from assms have "and_then (and_then m (\<lambda>_. ret ())) (\<lambda>x. and_then (commit s) (\<lambda>_. ret x)) (s\<lparr>pending := []\<rparr>) = (Inr u, t)"
    by (auto simp: transaction_def split: prod.splits sum.splits)
  then obtain x s1 where "m (s\<lparr>pending := []\<rparr>) = (Inr x, s1)" and "commit s s1 = (Inr (), t)"
    by (auto simp: and_then_Inr_iff)
  then have "and_then m (\<lambda>x. and_then (commit s) (\<lambda>_. ret x)) (s\<lparr>pending := []\<rparr>) = (Inr x, t)"
    by (auto simp: and_then_Inr_iff)
  then have "transaction m s = (Inr x, t)" by (simp add: transaction_def)
  with that show thesis .
qed

lemma flushed_nothing: "pending s = [] \<Longrightarrow> db (flushed s) = db s"
  by (simp add: flushed_def)

lemma books_replaced:
  assumes "row_of pay_id i (payments d) = Some p" and "pay_id q = i"
    and "payments d' = set_row pay_id i (\<lambda>_. q) (payments d)"
  shows "books_in d' = ((fst (books_in d))(i \<mapsto> timeless q), balance d')"
proof -
  have "map_option timeless (row_of pay_id j (payments d')) = ((fst (books_in d))(i \<mapsto> timeless q)) j" for j
    using assms row_of_replaced[of pay_id i "payments d" p q] row_of_other[of j i pay_id q "payments d"]
    by (cases "j = i") (simp_all add: books_in_def)
  then show ?thesis by (simp add: books_in_def fun_eq_iff)
qed

lemma transitioned_post_to:
  assumes "transitioned ty pid ps event payload d d'"
  shows "post_to ps (pays, balance d) = Inr (pays, balance d')"
  using assms by (auto simp: transitioned_def posted_def)

lemma timeless_simps [simp]: "pay_id (timeless p) = pay_id p" "pay_version (timeless p) = pay_version p"
  "pay_status (timeless p) = pay_status p" "pay_amount (timeless p) = pay_amount p"
  "pay_refunded_amount (timeless p) = pay_refunded_amount p" "pay_psp_reference (timeless p) = pay_psp_reference p"
  "same_terms q (timeless p) = same_terms q p" "refund_guard (timeless p) x = refund_guard p x"
  by (simp_all add: timeless_def same_terms_def refund_guard_def)

lemma change_books:
  assumes "row_of pay_id i (payments d) = Some p" and "pay_id q = i" and "h (timeless p) = Inr (timeless q)"
    and "posted ty r ps txn b c" and "payments b = set_row pay_id i (\<lambda>_. q) (payments d)" and "balance b = balance d"
    and "payments d' = payments c" and "balance d' = balance c"
  shows "change_and_post e i h ps (books_in d) = Inr (books_in d')"
proof -
  let ?pays = "fst (books_in d)"
  have B: "books_in d = (?pays, balance d)" by (simp add: books_in_def)
  have "payments c = set_row pay_id i (\<lambda>_. q) (payments d)" using posted_frame(2)[OF assms(4)] assms(5) by simp
  with assms have new: "books_in d' = (?pays(i \<mapsto> timeless q), balance c)"
    using books_replaced[of i d p q d'] by simp
  have "?pays i = Some (timeless p)" using assms(1) by (simp add: books_in_def)
  then have "change_and_post e i h ps (?pays, balance d) = post_to ps (?pays(i \<mapsto> timeless q), balance d)"
    using assms(3) by simp
  moreover have "validate_balanced ps = Inr ()" "run_postings (balance d) ps = Inr (balance c)"
    using assms(4,6) by (simp_all add: posted_def)
  ultimately show ?thesis unfolding new by (subst B) simp
qed

lemma transitioned_books:
  assumes "row_of pay_id i (payments d) = Some p" and "pay_id q = i" and "h (timeless p) = Inr (timeless q)"
    and "transitioned ty i ps ev pl (d\<lparr>payments := set_row pay_id i (\<lambda>_. q) (payments d)\<rparr>) d'"
  shows "change_and_post e i h ps (books_in d) = Inr (books_in d')"
proof -
  let ?d0 = "d\<lparr>payments := set_row pay_id i (\<lambda>_. q) (payments d)\<rparr>"
  from assms(4) obtain txn d1 o' where "posted ty i ps txn ?d0 d1" "d' = d1\<lparr>outbox := o'\<rparr>"
    unfolding transitioned_def by blast
  with assms(1-3) show ?thesis by (intro change_books[where b = ?d0 and c = d1]) (simp_all add: fun_eq_iff balance_def)
qed

lemma resolve_books:
  assumes "resolve (pay_id p) a s = (Inr q, t)" and "pending s = []" and "named (db s) p"
  shows "resolve_effect (ar_outcome a) (ar_psp_reference a) p (books_in (db s)) = Inr (books_in (db t)) \<and> pending t = []"
proof -
  let ?i = "pay_id p" and ?d = "db s"
  have terms: "pay_id q0 = ?i" "pay_payee_account q0 = pay_payee_account p" "pay_payer_account q0 = pay_payer_account p"
    "pay_amount q0 = pay_amount p" if "row_of pay_id ?i (payments ?d) = Some q0" for q0
    using assms(3) that by (simp_all add: named_def same_terms_def)
  show ?thesis
  proof (cases "ar_outcome a")
    case CAPTURED
    let ?r = "case ar_psp_reference a of None \<Rightarrow> [] | Some r \<Rightarrow> r"
    from CAPTURED assms(1) have "settle ?i ?r s = (Inr q, t)" by (simp add: resolve_def)
    from settle_Inr[OF this assms(2)] obtain q0 n where r: "row_of pay_id ?i (payments ?d) = Some q0"
      and q: "q = q0\<lparr>pay_status := PaymentStatus.SUCCEEDED, pay_psp_reference := Some ?r,
             pay_version := pay_version q0 + 1, pay_updated_at := n\<rparr>" and "pending t = []"
      and "transitioned TransactionType.PAYMENT ?i (transfer PSP_SUSPENSE_ACCOUNT_ID (pay_payee_account q0) (pay_amount q0))
        ''payment.succeeded'' (succeeded_payload q) (?d\<lparr>payments := set_row pay_id ?i (\<lambda>_. q) (payments ?d)\<rparr>) (db t)" .
    with terms[OF r] transitioned_books[OF r _ _ this(4), where h = "\<lambda>q. Inr (settled ?r q)"] show ?thesis
      by (simp add: CAPTURED resolve_effect_def settled_def timeless_def)
  next
    case DECLINED
    with assms(1) have "reverse ?i s = (Inr q, t)" by (simp add: resolve_def)
    from reverse_Inr[OF this assms(2)] obtain q0 n where r: "row_of pay_id ?i (payments ?d) = Some q0"
      and q: "q = q0\<lparr>pay_status := PaymentStatus.FAILED, pay_version := pay_version q0 + 1, pay_updated_at := n\<rparr>"
      and "pending t = []"
      and "transitioned TransactionType.REVERSAL ?i (transfer PSP_SUSPENSE_ACCOUNT_ID (pay_payer_account q0) (pay_amount q0))
        ''payment.failed'' (failed_payload q) (?d\<lparr>payments := set_row pay_id ?i (\<lambda>_. q) (payments ?d)\<rparr>) (db t)" .
    with terms[OF r] transitioned_books[OF r _ _ this(4), where h = "\<lambda>q. Inr (reversed q)"] show ?thesis
      by (simp add: DECLINED resolve_effect_def reversed_def timeless_def)
  next
    case PENDING
    with assms(1) have "await_webhook ?i (ar_psp_reference a) s = (Inr q, t)" by (simp add: resolve_def)
    from await_webhook_Inr[OF this] obtain q0 n where r: "row_of pay_id ?i (payments ?d) = Some q0"
      and q: "q = q0\<lparr>pay_status := PaymentStatus.AUTHORIZED, pay_psp_reference := ar_psp_reference a, pay_updated_at := n\<rparr>"
      and t: "db t = ?d\<lparr>payments := set_row pay_id ?i (\<lambda>_. q) (payments ?d)\<rparr>" "pending t = pending s" .
    have "books_in (db t) = ((fst (books_in ?d))(?i \<mapsto> timeless q), balance (db t))"
      using r q t terms[OF r] by (intro books_replaced) simp_all
    with r q t assms(2) show ?thesis
      by (simp add: PENDING resolve_effect_def awaiting_webhook_def timeless_def books_in_def fun_eq_iff balance_def)
  qed
qed

lemma webhook_books:
  assumes "transition_payment (JStr ty) (JStr ref) s = (Inr u, t)" and "pending s = []"
    and "call_ready (db s) (Webhook_call ty ref p)"
  shows "call_effect (Webhook_call ty ref p) (books_in (db s)) = Inr (books_in (db t)) \<and> pending t = []"
proof -
  let ?d = "db s"
  have n: "named ?d p" "ref \<noteq> []" using assms(3) by simp_all
  then obtain q0 where r: "row_of pay_id (pay_id p) (payments ?d) = Some q0" "same_terms p q0"
    by (auto simp: named_def split: option.splits)
  with assms(3) have one: "filter (\<lambda>q. pay_psp_reference q = Some ref) (payments ?d) = [q0]" by simp
  have "q0 \<in> set (filter (\<lambda>q. pay_psp_reference q = Some ref) (payments ?d))" unfolding one by simp
  then have ref: "pay_psp_reference q0 = Some ref" by simp
  have id: "pay_id q0 = pay_id p" using r(2) by (simp add: same_terms_def)
  obtain pays where B: "books_in ?d = (pays, balance ?d)" "pays (pay_id p) = Some (timeless q0)"
    using r(1) by (simp add: books_in_def)
  have sel: "select_by_reference ref s = (Inr (Some q0), s)" using one by (simp add: select_by_reference_def and_then_def gets_def of_result_def ret_def)
  consider (stays) "pay_status q0 \<noteq> PaymentStatus.AUTHORIZED \<or> event_outcome (JStr ty) = None" "t = s"
    | (resolves) a q where "pay_status q0 = PaymentStatus.AUTHORIZED" "event_outcome (JStr ty) = Some (ar_outcome a)"
        "resolve (pay_id p) a s = (Inr q, t)" "ar_psp_reference a = Some ref"
  proof (cases "pay_status q0 = PaymentStatus.AUTHORIZED \<and> event_outcome (JStr ty) \<noteq> None")
    case False
    with assms(1) n(2) have "t = s"
      by (auto simp: transition_payment_def and_then_def[of "select_by_reference ref"] sel split: if_splits)
    with False stays show thesis by blast
  next
    case True
    let ?a = "\<lparr>ar_outcome = the (event_outcome (JStr ty)), ar_psp_reference = Some ref, ar_decline_reason = None\<rparr>"
    have "and_then (resolve (pay_id q0) ?a) (\<lambda>_. ret ()) s = (Inr u, t)"
      using True assms(1) n(2) by (auto simp: transition_payment_def and_then_def[of "select_by_reference ref"] sel
          resolve_def split: if_splits)
    then obtain q where "resolve (pay_id p) ?a s = (Inr q, t)" by (auto simp: and_then_Inr_iff id)
    with True show thesis by (intro resolves[of ?a q]) auto
  qed
  then show ?thesis
  proof cases
    case stays
    with assms(2) show ?thesis by (auto simp: B split: option.split)
  next
    case resolves
    from resolve_books[OF resolves(3) assms(2) n(1)] resolves show ?thesis
      by (simp add: B ref)
  qed
qed

text \<open>The code, where it returns, does to the books what the program does.\<close>

lemma call_code_books:
  assumes "transaction (call_code env call) s = (Inr (), t)" and "call_ready (db s) call" and "codec_ok env"
  shows "call_effect call (books_in (db s)) = Inr (books_in (db t))"
proof (cases call)
  case (Hold_call p)
  with assms(1) obtain q where "transaction (hold p) s = (Inr q, t)" by (auto elim: transaction_then_ret)
  then obtain s1 where h: "hold p (s\<lparr>pending := []\<rparr>) = (Inr q, s1)" and t: "t = flushed s1" by (auto elim: transaction_Inr)
  have "pending (s\<lparr>pending := []\<rparr>) = []" by simp
  note H = hold_Inr[OF h this]
  then have q: "q = p\<lparr>pay_status := PaymentStatus.PROCESSING\<rparr>" "pending s1 = []" by blast+
  note tr = H[THEN conjunct2, THEN conjunct2, simplified]
  from t q(2) have t: "db t = db s1" by (simp add: flushed_nothing)
  let ?pays = "fst (books_in (db s))"
  have new: "row_of pay_id (pay_id p) (payments (db s)) = None" using assms(2) Hold_call by simp
  have "books_in (db t) = (?pays(pay_id p \<mapsto> timeless q), balance (db t))"
    using q(1) new by (auto simp: books_in_def t transitioned_frame(2)[OF tr] row_of_append fun_eq_iff split: option.split)
  moreover have "balance ((db s)\<lparr>payments := payments (db s) @ [q]\<rparr>) = balance (db s)" by (simp add: fun_eq_iff balance_def)
  with transitioned_post_to[OF tr] have "post_to (transfer (pay_payer_account p) PSP_SUSPENSE_ACCOUNT_ID (pay_amount p))
      (?pays(pay_id p \<mapsto> timeless q), balance (db s)) = Inr (?pays(pay_id p \<mapsto> timeless q), balance (db t))"
    by (simp add: t)
  ultimately show ?thesis using new q(1) by (simp add: Hold_call books_in_def)
next
  case (Resolve_call a p)
  with assms(1) obtain q where "transaction (resolve (pay_id p) a) s = (Inr q, t)" by (auto elim: transaction_then_ret)
  then obtain s1 where "resolve (pay_id p) a (s\<lparr>pending := []\<rparr>) = (Inr q, s1)" and "t = flushed s1" by (auto elim: transaction_Inr)
  with resolve_books[OF this(1)] assms(2) Resolve_call show ?thesis by (simp add: flushed_nothing)
next
  case (Webhook_call ty ref p)
  with assms(1) obtain s1 where "transition_payment (JStr ty) (JStr ref) (s\<lparr>pending := []\<rparr>) = (Inr (), s1)" and "t = flushed s1"
    by (auto elim: transaction_Inr)
  with webhook_books[OF this(1), of p] assms(2) Webhook_call show ?thesis by (simp add: flushed_nothing)
next
  case (Refund_call k x p)
  with assms(1) obtain cr where "transaction (refund env k (pay_id p) x) s = (Inr cr, t)" by (auto elim: transaction_then_ret)
  moreover have "refund_key (db s) k = Unused" using assms(2) Refund_call by simp
  ultimately obtain q0 rf q d0 d1 where r: "row_of pay_id (pay_id p) (payments (db s)) = Some q0" "refund_guard q0 x = None"
    and rb: "refund_booked q0 x rf q d0 d1" and dt: "db t = d1\<lparr>idempotency_keys := idempotency_keys (db t)\<rparr>"
    and d0: "d0 = (db s)\<lparr>idempotency_keys := idempotency_keys d0\<rparr>"
    using assms(3) by (cases cr) (auto elim!: refund_Inr)
  have "same_terms p q0" using assms(2) Refund_call r(1) by (simp add: named_def)
  then have p: "pay_id q0 = pay_id p" "pay_payee_account q0 = pay_payee_account p" "pay_payer_account q0 = pay_payer_account p"
    by (simp_all add: same_terms_def)
  from rb obtain txn d2 n o' where q: "q = refunded_payment q0 x n" and d1: "d1 = d2\<lparr>outbox := o'\<rparr>"
    and posted: "posted TransactionType.REFUND (rfd_id rf) (transfer (pay_payee_account p) (pay_payer_account p) x) txn
      (d0\<lparr>payments := set_row pay_id (pay_id p) (\<lambda>_. q) (payments d0), refunds := refunds d0 @ [rf]\<rparr>) d2"
    unfolding refund_booked_def p by blast
  have "payments d0 = payments (db s)" "balance d0 = balance (db s)" by (subst d0, simp add: balance_def fun_eq_iff)+
  moreover have "payments (db t) = payments d2" "balance (db t) = balance d2"
    by (subst dt, simp add: d1 balance_def fun_eq_iff)+
  moreover have "timeless q = refunded_payment (timeless q0) x 0" "pay_id q = pay_id p"
    using p(1) by (simp_all add: q timeless_def refunded_payment_def Let_def)
  ultimately show ?thesis
    using r(2) by (simp add: Refund_call) (rule change_books[OF r(1) _ _ posted]; simp add: balance_def fun_eq_iff)
qed

section \<open>Property\<close>

text \<open>
  C15. The programs are the code. Where the transaction of a hold, of a resolution, of a webhook or of
  a refund returns, it does to the payments and balances exactly what the program of the call does when it
  runs alone, and where it raises it changes nothing.
\<close>

theorem code_runs_program:
  assumes "transaction (call_code env call) s = (res, t)" and "call_ready (db s) call" and "codec_ok env"
  shows "case res of Inl e \<Rightarrow> books_in (db t) = books_in (db s)
    | Inr u \<Rightarrow> \<exists>w. exec (rows (books_in (db s))) (row_program call) Map.empty = Inr w \<and>
        write_back (rows (books_in (db s))) w = rows (books_in (db t))"
proof (cases res)
  case (Inl e)
  with assms(1) show ?thesis by (auto dest: transaction_Inl_db)
next
  case (Inr u)
  with call_code_books assms have "call_effect call (books_in (db s)) = Inr (books_in (db t))" by simp
  with call_effect_outcome[where call = call and B = "books_in (db s)"] Inr show ?thesis by (auto simp: map_sum_Inr_iff)
qed

lemma transaction_ret_InrI:
  assumes "transaction m s = (Inr x, t)"
  shows "transaction (and_then m (\<lambda>_. ret ())) s = (Inr (), t)"
proof -
  from assms obtain s1 where "m (s\<lparr>pending := []\<rparr>) = (Inr x, s1)" "t = flushed s1"
    "constraints (db t)" "trg_ledger_balanced (db s) (db t)" by (rule transaction_Inr)
  then show ?thesis using transaction_InrI[of "and_then m (\<lambda>_. ret ())" s "()" s1] by (simp add: and_then_Inr_iff)
qed

theorem code_runs_program_witness:
  "\<exists>t w. transaction (call_code sample_env (Refund_call ''r'' 15 (sample_payment PaymentStatus.SUCCEEDED)))
       (sample_paid PaymentStatus.SUCCEEDED) = (Inr (), t) \<and>
     exec (rows (books_in (db (sample_paid PaymentStatus.SUCCEEDED))))
       (row_program (Refund_call ''r'' 15 (sample_payment PaymentStatus.SUCCEEDED))) Map.empty = Inr w \<and>
     write_back (rows (books_in (db (sample_paid PaymentStatus.SUCCEEDED)))) w = rows (books_in (db t))"
proof -
  let ?s = "sample_paid PaymentStatus.SUCCEEDED" and ?p = "sample_payment PaymentStatus.SUCCEEDED"
  obtain c r t where "transaction (refund sample_env ''r'' (UUID 50) 15) ?s = (Inr (c, r), t)"
    using refund_succeeds[OF sample_can_refund[of 15]] by auto
  then have t: "transaction (call_code sample_env (Refund_call ''r'' 15 ?p)) ?s = (Inr (), t)"
    by (auto simp: sample_payment_def intro: transaction_ret_InrI)
  have "call_ready (db ?s) (Refund_call ''r'' 15 ?p)" by (simp add: named_def)
  from code_runs_program[OF t this sample_env_codec] t show ?thesis by auto
qed

end
