(* ===== verification/Races.thy ===== *)
theory Races
  imports Transactions
begin

text \<open>
  Calls of the services that run at the same time, as interleaved programs: what they do is what they
  would do one after the other, concurrent refunds stay within the payment, and the concurrent webhooks
  of a payment move its funds once.
\<close>

section \<open>Calls that run together\<close>

fun accounts_of_call :: "row_call \<Rightarrow> UUID set" where
  "accounts_of_call (Hold_call p) = {pay_payer_account p, PSP_SUSPENSE_ACCOUNT_ID}"
| "accounts_of_call (Resolve_call a p) = {PSP_SUSPENSE_ACCOUNT_ID, pay_payer_account p, pay_payee_account p}"
| "accounts_of_call (Webhook_call ty ref p) = {PSP_SUSPENSE_ACCOUNT_ID, pay_payer_account p, pay_payee_account p}"
| "accounts_of_call (Refund_call k x p) = {pay_payer_account p, pay_payee_account p}"

text \<open>New identifiers, unused keys.\<close>

fun claims :: "row_call \<Rightarrow> (UUID + string) list" where
  "claims (Hold_call p) = [Inl (pay_id p)]"
| "claims (Refund_call k x p) = [Inr k]"
| "claims _ = []"

text \<open>No answer of the provider gives the reference of a webhook to another payment.\<close>

fun reference_apart :: "row_call \<Rightarrow> row_call \<Rightarrow> bool" where
  "reference_apart (Webhook_call ty ref p) (Resolve_call a p') =
     (ar_psp_reference a = Some ref \<longrightarrow> pay_id p' = pay_id p)"
| "reference_apart _ _ = True"

definition calls_ready :: "database \<Rightarrow> row_call list \<Rightarrow> bool" where
  "calls_ready d calls \<longleftrightarrow> list_all (\<lambda>c. call_ready d c \<and> accounts_of_call c \<subseteq> balance_keys d) calls \<and>
     distinct (concat (map claims calls)) \<and> list_all (\<lambda>c. list_all (reference_apart c) calls) calls"

section \<open>What every serial run keeps\<close>

fun refund_of :: "UUID \<Rightarrow> row_call \<Rightarrow> int" where
  "refund_of i (Refund_call k x p) = (if pay_id p = i then x else 0)"
| "refund_of i _ = 0"

definition kept :: "(UUID \<Rightarrow> int) \<Rightarrow> books \<Rightarrow> books \<Rightarrow> bool" where
  "kept r B C \<longleftrightarrow> (\<forall>i q. fst B i = Some q \<longrightarrow> (\<exists>q'. fst C i = Some q' \<and> same_terms q q' \<and>
       pay_refunded_amount q' = pay_refunded_amount q + r i \<and>
       (pay_refunded_amount q \<le> pay_amount q \<longrightarrow> pay_refunded_amount q' \<le> pay_amount q'))) \<and>
     ((\<forall>a. 0 \<le> snd B a) \<longrightarrow> (\<forall>a. 0 \<le> snd C a))"

lemma kept_refl: "kept (\<lambda>_. 0) B B"
  by (simp add: kept_def)

lemma kept_trans: "kept r B C \<Longrightarrow> kept r' C D \<Longrightarrow> kept (\<lambda>i. r i + r' i) B D"
  unfolding kept_def by (fastforce simp: same_terms_def)

lemma post_to_Inr:
  assumes "post_to (transfer a b x) (pays, f) = Inr C"
  obtains g where "C = (pays, g)" and "run_postings f (transfer a b x) = Inr g" and "0 < x"
  using assms validate_transfer[where a = a and b = b and x = x]
  by (auto simp: map_sum_Inr_iff simp del: run_postings.simps split: sum.splits)

lemma post_to_balances:
  assumes "post_to (transfer a b x) (pays, f) = Inr C"
  shows "fst C = pays" and "snd C c = f c + (if c = b then x else 0) - (if c = a then x else 0)"
    and "(\<forall>c. 0 \<le> f c) \<Longrightarrow> 0 \<le> snd C c"
    and "finite A \<Longrightarrow> {a, b} \<subseteq> A \<Longrightarrow> sum (snd C) A = sum f A"
proof -
  from assms obtain g where C: "C = (pays, g)" "run_postings f (transfer a b x) = Inr g" "0 < x" by (rule post_to_Inr)
  show "fst C = pays" by (simp add: C)
  show d: "snd C c = f c + (if c = b then x else 0) - (if c = a then x else 0)" for c
    using run_postings_delta[OF C(2), of c] by (simp add: C(1) transfer_delta)
  show "(\<forall>c. 0 \<le> f c) \<Longrightarrow> 0 \<le> snd C c" using run_postings_nonneg[OF C(2)] C(3) by (simp add: C(1))
  show "finite A \<Longrightarrow> {a, b} \<subseteq> A \<Longrightarrow> sum (snd C) A = sum f A"
    unfolding d by (simp add: sum.distrib sum_subtractf sum.delta)
qed

lemma change_and_post_Inr:
  assumes "change_and_post e i h (transfer a b x) B = Inr C"
  obtains q q' where "fst B i = Some q" and "h q = Inr q'" and "post_to (transfer a b x) ((fst B)(i \<mapsto> q'), snd B) = Inr C"
  using assms by (cases B) (auto split: option.splits sum.splits simp del: post_to.simps)

lemma change_and_post_kept:
  assumes "change_and_post e i h (transfer a b x) B = Inr C"
    and "\<And>q q'. h q = Inr q' \<Longrightarrow> same_terms q q' \<and> pay_refunded_amount q' = pay_refunded_amount q + r i \<and>
       (pay_refunded_amount q \<le> pay_amount q \<longrightarrow> pay_refunded_amount q' \<le> pay_amount q')"
    and "\<And>j. j \<noteq> i \<Longrightarrow> r j = 0"
  shows "kept r B C" and "finite A \<Longrightarrow> {a, b} \<subseteq> A \<Longrightarrow> sum (snd C) A = sum (snd B) A"
proof -
  from change_and_post_Inr[OF assms(1)] obtain q q' where q: "fst B i = Some q" "h q = Inr q'"
    and p: "post_to (transfer a b x) ((fst B)(i \<mapsto> q'), snd B) = Inr C" .
  show "finite A \<Longrightarrow> {a, b} \<subseteq> A \<Longrightarrow> sum (snd C) A = sum (snd B) A" using post_to_balances(4)[OF p] by simp
  show "kept r B C"
    unfolding kept_def using q assms(2)[OF q(2)] assms(3) post_to_balances(1,3)[OF p] by auto
qed

lemma resolve_effect_kept:
  assumes "resolve_effect out ref p B = Inr C"
  shows "kept (\<lambda>_. 0) B C"
    and "finite A \<Longrightarrow> {PSP_SUSPENSE_ACCOUNT_ID, pay_payer_account p, pay_payee_account p} \<subseteq> A \<Longrightarrow> sum (snd C) A = sum (snd B) A"
proof -
  have s: "same_terms q (settled r q)" "same_terms q (reversed q)" "same_terms q (awaiting_webhook ref q)"
    "pay_refunded_amount (settled r q) = pay_refunded_amount q" "pay_amount (settled r q) = pay_amount q"
    "pay_refunded_amount (reversed q) = pay_refunded_amount q" "pay_amount (reversed q) = pay_amount q"
    "pay_refunded_amount (awaiting_webhook ref q) = pay_refunded_amount q"
    "pay_amount (awaiting_webhook ref q) = pay_amount q" for r q
    by (simp_all add: same_terms_def settled_def reversed_def awaiting_webhook_def)
  show "kept (\<lambda>_. 0) B C"
  proof (cases out)
    case PENDING
    with assms s show ?thesis by (auto simp: resolve_effect_def kept_def split: option.splits)
  qed (use assms s in \<open>auto simp: resolve_effect_def intro: change_and_post_kept\<close>)
  show "sum (snd C) A = sum (snd B) A"
    if "finite A" "{PSP_SUSPENSE_ACCOUNT_ID, pay_payer_account p, pay_payee_account p} \<subseteq> A"
  proof (cases out)
    case PENDING
    with assms show ?thesis by (auto simp: resolve_effect_def split: option.splits)
  qed (use assms s that in \<open>auto simp: resolve_effect_def elim!: change_and_post_Inr dest: post_to_balances(4)\<close>)
qed

lemma refunded_payment_kept:
  assumes "refund_guard q x = None"
  shows "same_terms q (refunded_payment q x 0)" and "pay_refunded_amount (refunded_payment q x 0) = pay_refunded_amount q + x"
    and "pay_refunded_amount (refunded_payment q x 0) \<le> pay_amount (refunded_payment q x 0)"
  using assms by (simp_all add: refunded_payment_def refund_guard_None same_terms_def Let_def)

lemma call_effect_kept:
  assumes "call_effect call B = Inr C"
  shows "kept (\<lambda>i. refund_of i call) B C"
    and "finite A \<Longrightarrow> accounts_of_call call \<subseteq> A \<Longrightarrow> sum (snd C) A = sum (snd B) A"
proof -
  obtain pays f where B: "B = (pays, f)" by (cases B)
  have "kept (\<lambda>i. refund_of i call) B C \<and> (finite A \<longrightarrow> accounts_of_call call \<subseteq> A \<longrightarrow> sum (snd C) A = sum (snd B) A)"
  proof (cases call)
    case (Hold_call p)
    let ?new = "pays(pay_id p \<mapsto> timeless (p\<lparr>pay_status := PaymentStatus.PROCESSING\<rparr>))"
    from assms Hold_call have n: "pays (pay_id p) = None"
      and "post_to (transfer (pay_payer_account p) PSP_SUSPENSE_ACCOUNT_ID (pay_amount p)) (?new, f) = Inr C"
      by (simp_all add: B split: option.splits)
    note e = post_to_balances[OF this(2)]
    have "kept (\<lambda>i. 0) B C" using n e(1,3) by (auto simp: kept_def B)
    with e(4) show ?thesis by (simp add: Hold_call B)
  next
    case (Resolve_call a p)
    with assms have "resolve_effect (ar_outcome a) (ar_psp_reference a) p B = Inr C" by simp
    from resolve_effect_kept[OF this] Resolve_call show ?thesis by simp
  next
    case (Webhook_call ty ref p)
    with assms have "call_effect (Webhook_call ty ref p) (pays, f) = Inr C" by (simp only: B)
    then have "B = C \<or> (\<exists>out. resolve_effect out (Some ref) p B = Inr C)"
      unfolding B by (auto split: option.splits if_splits simp del: event_outcome.simps)
    then consider "B = C" | out where "resolve_effect out (Some ref) p B = Inr C" by blast
    then show ?thesis
    proof cases
      case 1
      with Webhook_call kept_refl show ?thesis by simp
    next
      case 2
      from resolve_effect_kept[OF 2] Webhook_call show ?thesis by simp
    qed
  next
    case (Refund_call k x p)
    let ?h = "\<lambda>q. case refund_guard q x of Some e \<Rightarrow> Inl e | None \<Rightarrow> Inr (refunded_payment q x 0)"
    from assms Refund_call have c: "change_and_post (PaymentNotFoundException (pay_id p)) (pay_id p) ?h
        (transfer (pay_payee_account p) (pay_payer_account p) x) B = Inr C" by (simp only: call_effect.simps)
    have "kept (\<lambda>i. refund_of i call) B C"
      using refunded_payment_kept[of _ x]
      by (intro change_and_post_kept(1)[OF c]) (auto simp: Refund_call split: option.splits)
    moreover from change_and_post_Inr[OF c] obtain pays' where
      "post_to (transfer (pay_payee_account p) (pay_payer_account p) x) (pays', snd B) = Inr C" by blast
    from post_to_balances(4)[OF this] have "finite A \<Longrightarrow> accounts_of_call call \<subseteq> A \<Longrightarrow> sum (snd C) A = sum (snd B) A"
      by (simp add: Refund_call)
    ultimately show ?thesis by blast
  qed
  then show "kept (\<lambda>i. refund_of i call) B C"
    and "finite A \<Longrightarrow> accounts_of_call call \<subseteq> A \<Longrightarrow> sum (snd C) A = sum (snd B) A" by blast+
qed

text \<open>What the successful ones among serial calls have refunded.\<close>

definition refunded_by :: "row_call list \<Rightarrow> fate list \<Rightarrow> UUID \<Rightarrow> int" where
  "refunded_by calls rs i = (\<Sum>(call, r) \<leftarrow> zip calls rs. if r = Committed then refund_of i call else 0)"

lemma call_by_call_kept:
  assumes "call_by_call B calls = (rs, C)"
  shows "kept (refunded_by calls rs) B C"
    and "finite A \<Longrightarrow> (\<Union>c \<in> set calls. accounts_of_call c) \<subseteq> A \<Longrightarrow> sum (snd C) A = sum (snd B) A"
proof -
  have "kept (refunded_by calls rs) B C \<and>
      (finite A \<longrightarrow> (\<Union>c \<in> set calls. accounts_of_call c) \<subseteq> A \<longrightarrow> sum (snd C) A = sum (snd B) A)"
    using assms
  proof (induction calls arbitrary: B rs)
    case Nil
    then show ?case using kept_refl by (simp add: refunded_by_def)
  next
    case (Cons call calls)
    show ?case
    proof (cases "call_effect call B")
      case (Inl e)
      with Cons.prems obtain rs' where "rs = Raised e # rs'" "call_by_call B calls = (rs', C)" by (auto split: prod.splits)
      with Cons.IH[of B rs'] show ?thesis by (simp add: refunded_by_def)
    next
      case (Inr D)
      with Cons.prems obtain rs' where rs: "rs = Committed # rs'" and "call_by_call D calls = (rs', C)"
        by (auto split: prod.splits)
      note e = call_effect_kept[OF Inr] and ih = Cons.IH[OF this(2)]
      have "refunded_by (call # calls) rs = (\<lambda>i. refund_of i call + refunded_by calls rs' i)"
        by (simp add: rs refunded_by_def fun_eq_iff)
      with kept_trans[OF e(1)] e(2) ih show ?thesis by auto
    qed
  qed
  then show "kept (refunded_by calls rs) B C"
    and "finite A \<Longrightarrow> (\<Union>c \<in> set calls. accounts_of_call c) \<subseteq> A \<Longrightarrow> sum (snd C) A = sum (snd B) A" by blast+
qed

section \<open>Properties\<close>

text \<open>
  C12. Concurrent transactions are serializable. However the statements of any number of holds,
  resolutions, webhooks and refunds interleave, on rows that exist, the calls that have ended returned or
  raised, and changed payments and balances, as if they had run one after the other in the order of their
  ends; and the others can go on until all have ended.
\<close>

theorem calls_serializable:
  assumes "task_step\<^sup>*\<^sup>* (begin_system (rows (books_in d)) (map row_program calls)) s" and "calls_ready d calls"
  shows "(\<exists>C. call_by_call (books_in d) (map (\<lambda>i. calls ! i) (ended_order s)) =
        (map (\<lambda>i. task_fate (tasks s ! i)) (ended_order s), C) \<and> stored s = rows C) \<and>
    distinct (ended_order s) \<and> set (ended_order s) = {i. i < length calls \<and> task_fate (tasks s ! i) \<noteq> Running} \<and>
    (\<exists>s'. task_step\<^sup>*\<^sup>* s s' \<and> all_done s')"
proof -
  from calls_serial[OF assms(1)] obtain C where "stored s = rows C" and
    "call_by_call (books_in d) (map (\<lambda>i. calls ! i) (ended_order s)) = (map (\<lambda>i. task_fate (tasks s ! i)) (ended_order s), C)" .
  with calls.serial(2,3)[OF assms(1)] calls.can_end[OF assms(1)] show ?thesis by blast
qed

lemma case_Some_iff: "(case m of None \<Rightarrow> False | Some x \<Rightarrow> P x) \<longleftrightarrow> (\<exists>x. m = Some x \<and> P x)"
  by (cases m) auto

text \<open>Two refunds of one payment and a hold from its payer, interleaved.\<close>

definition sample_calls :: "row_call list" where
  "sample_calls = [Refund_call ''k1'' 30 (sample_payment PaymentStatus.SUCCEEDED),
     Hold_call ((sample_payment PaymentStatus.CREATED)\<lparr>pay_id := UUID 51\<rparr>),
     Refund_call ''k2'' 20 (sample_payment PaymentStatus.SUCCEEDED)]"

definition sample_schedule :: "nat list" where
  "sample_schedule = [0, 1, 0, 1, 0, 0, 0, 0, 0, 1, 2, 1, 2, 1, 1, 1]"

definition sample_paid_db :: database where
  "sample_paid_db = db (sample_paid PaymentStatus.SUCCEEDED)"

lemma sample_interleaving:
  obtains s where "run_tasks sample_schedule
      (begin_system (rows (books_in sample_paid_db)) (map row_program sample_calls)) = Some s"
    and "ended_order s = [0, 2, 1]" and "task_fate (tasks s ! 0) = Committed" and "task_fate (tasks s ! 1) = Committed"
    and "task_fate (tasks s ! 2) = Raised (RefundNotAllowedException ''Refund amount 20 exceeds capturable balance (10)'')"
    and "length (tasks s) = 3"
proof -
  have "case run_tasks sample_schedule
      (begin_system (rows (books_in sample_paid_db)) (map row_program sample_calls)) of None \<Rightarrow> False
    | Some s \<Rightarrow> ended_order s = [0, 2, 1] \<and> map task_fate (tasks s) = [Committed, Committed,
        Raised (RefundNotAllowedException ''Refund amount 20 exceeds capturable balance (10)'')]" by code_simp
  from this[unfolded case_Some_iff] obtain s where s: "run_tasks sample_schedule
      (begin_system (rows (books_in sample_paid_db)) (map row_program sample_calls)) = Some s"
    "ended_order s = [0, 2, 1]" "map task_fate (tasks s) = [Committed, Committed,
        Raised (RefundNotAllowedException ''Refund amount 20 exceeds capturable balance (10)'')]"
    by (elim exE conjE)
  have "length (tasks s) = 3" using arg_cong[OF s(3), of length] by simp
  then have "map task_fate (tasks s) ! i = task_fate (tasks s ! i)" if "i < 3" for i using that by simp
  from this[of 0] this[of 1] this[of 2] s \<open>length (tasks s) = 3\<close> show thesis by (intro that) simp_all
qed

lemma sample_calls_ready: "calls_ready sample_paid_db sample_calls"
  by code_simp

theorem calls_serializable_witness:
  "\<exists>s C. task_step\<^sup>*\<^sup>* (begin_system (rows (books_in sample_paid_db)) (map row_program sample_calls)) s \<and>
     call_by_call (books_in sample_paid_db) [sample_calls ! 0, sample_calls ! 2, sample_calls ! 1] =
       ([Committed, Raised (RefundNotAllowedException ''Refund amount 20 exceeds capturable balance (10)''), Committed], C) \<and>
     stored s = rows C"
proof -
  obtain s where s: "run_tasks sample_schedule
      (begin_system (rows (books_in sample_paid_db)) (map row_program sample_calls)) = Some s"
    "ended_order s = [0, 2, 1]" "task_fate (tasks s ! 0) = Committed" "task_fate (tasks s ! 1) = Committed"
    "task_fate (tasks s ! 2) = Raised (RefundNotAllowedException ''Refund amount 20 exceeds capturable balance (10)'')"
    by (rule sample_interleaving)
  from calls_serializable[OF run_tasks_sound[OF s(1)] sample_calls_ready] s(2-5) run_tasks_sound[OF s(1)]
  show ?thesis by auto
qed

text \<open>
  C13. Concurrent refunds never exceed the payment. However holds, resolutions, webhooks and refunds
  interleave, what has been refunded of a payment is the sum of its refunds that succeeded, never more
  than its amount; no balance is negative; and the sum of the balances is what it was.
\<close>

theorem refunds_never_exceed:
  assumes "task_step\<^sup>*\<^sup>* (begin_system (rows (books_in d)) (map row_program calls)) s" and "calls_ready d calls"
    and "constraints d" and "\<forall>q \<in> set (payments d). pay_refunded_amount q \<le> pay_amount q"
  shows "(\<forall>i q. row_of pay_id i (payments d) = Some q \<longrightarrow> (\<exists>q'. stored s (Payment_row i) = Pay_value (Some q') \<and>
      same_terms q q' \<and> pay_refunded_amount q' = pay_refunded_amount q +
        (\<Sum>j | j < length calls \<and> task_fate (tasks s ! j) = Committed. refund_of i (calls ! j)) \<and>
      pay_refunded_amount q' \<le> pay_amount q)) \<and>
    (\<exists>g. (\<forall>a. stored s (Balance_row a) = Bal_value (g a) \<and> 0 \<le> g a) \<and>
      sum g (balance_keys d) = sum (balance d) (balance_keys d))"
proof -
  let ?order = "ended_order s" and ?fate = "\<lambda>i. task_fate (tasks s ! i)"
  let ?calls = "map (\<lambda>i. calls ! i) ?order"
  from calls_serial[OF assms(1)] obtain C where C: "stored s = rows C" and
    run: "call_by_call (books_in d) ?calls = (map ?fate ?order, C)" .
  obtain pays g where Cg: "C = (pays, g)" by (cases C)
  note k = call_by_call_kept[OF run] and e = calls.serial(2,3)[OF assms(1)]
  have total: "refunded_by ?calls (map ?fate ?order) i =
      (\<Sum>j | j < length calls \<and> ?fate j = Committed. refund_of i (calls ! j))" for i
  proof -
    have "refunded_by ?calls (map ?fate ?order) i =
        (\<Sum>j \<in> set ?order. if ?fate j = Committed then refund_of i (calls ! j) else 0)"
      using e(1) by (simp add: refunded_by_def zip_map_map comp_def split_def zip_same_conv_map sum_list_distinct_conv_sum_set
          cong: if_cong)
    also have "\<dots> = (\<Sum>j | j \<in> set ?order \<and> ?fate j = Committed. refund_of i (calls ! j))"
      by (simp add: sum.If_cases Int_def)
    also have "{j. j \<in> set ?order \<and> ?fate j = Committed} = {j. j < length calls \<and> ?fate j = Committed}"
      unfolding e(2) by auto
    finally show ?thesis .
  qed
  have "(\<Union>c \<in> set ?calls. accounts_of_call c) \<subseteq> balance_keys d"
    using assms(2) e(2) by (auto simp: calls_ready_def list_all_iff)
  moreover have "finite (balance_keys d)" by (simp add: balance_keys_def)
  ultimately have "sum g (balance_keys d) = sum (balance d) (balance_keys d)"
    using k(2)[of "balance_keys d"] by (simp add: Cg books_in_def)
  moreover have "0 \<le> g a" for a
    using k(1) constraints_balance_range[OF assms(3)] by (simp add: kept_def Cg books_in_def)
  moreover have "\<exists>q'. pays i = Some q' \<and> same_terms q q' \<and> pay_refunded_amount q' = pay_refunded_amount q +
      refunded_by ?calls (map ?fate ?order) i \<and> pay_refunded_amount q' \<le> pay_amount q"
    if q: "row_of pay_id i (payments d) = Some q" for i q
  proof -
    have "pay_refunded_amount q \<le> pay_amount q" using assms(4) row_of_SomeD[OF q] by blast
    moreover have "fst (books_in d) i = Some (timeless q)" using q by (simp add: books_in_def)
    ultimately show ?thesis using k(1) by (fastforce simp: kept_def Cg same_terms_def timeless_def)
  qed
  ultimately show ?thesis unfolding total by (simp add: C Cg) blast
qed

theorem refunds_never_exceed_witness:
  "\<exists>s q. task_step\<^sup>*\<^sup>* (begin_system (rows (books_in sample_paid_db)) (map row_program sample_calls)) s \<and>
     all_done s \<and> stored s (Payment_row (UUID 50)) = Pay_value (Some q) \<and> pay_refunded_amount q = 30"
proof -
  obtain s where s: "run_tasks sample_schedule
      (begin_system (rows (books_in sample_paid_db)) (map row_program sample_calls)) = Some s"
    and f: "task_fate (tasks s ! 0) = Committed" "task_fate (tasks s ! 1) = Committed"
      "task_fate (tasks s ! 2) = Raised (RefundNotAllowedException ''Refund amount 20 exceeds capturable balance (10)'')"
    and n: "length (tasks s) = 3" by (rule sample_interleaving)
  have three: "j < 3 \<longleftrightarrow> j = 0 \<or> j = 1 \<or> j = 2" for j :: nat by auto
  have "length sample_calls = 3" by (simp add: sample_calls_def)
  then have "{j. j < length sample_calls \<and> task_fate (tasks s ! j) = Committed} = {0, 1}"
    using f by (auto simp: three)
  then have total: "(\<Sum>j | j < length sample_calls \<and> task_fate (tasks s ! j) = Committed.
      refund_of (UUID 50) (sample_calls ! j)) = 30" by (simp add: sample_calls_def) (simp add: sample_payment_def)
  have pays: "payments sample_paid_db = [sample_payment PaymentStatus.SUCCEEDED]" by (simp add: sample_paid_db_def)
  have "constraints sample_paid_db" unfolding sample_paid_db_def by (rule sample_paid_constraints)
  moreover have "\<forall>q \<in> set (payments sample_paid_db). pay_refunded_amount q \<le> pay_amount q"
    unfolding pays by (simp add: sample_payment_def)
  moreover have "row_of pay_id (UUID 50) (payments sample_paid_db) = Some (sample_payment PaymentStatus.SUCCEEDED)"
    unfolding pays by (simp add: sample_payment_def)
  ultimately obtain q where "stored s (Payment_row (UUID 50)) = Pay_value (Some q)" "pay_refunded_amount q = 30"
    using refunds_never_exceed[OF run_tasks_sound[OF s] sample_calls_ready, THEN conjunct1, rule_format,
        of "UUID 50" "sample_payment PaymentStatus.SUCCEEDED"] total
    by (auto simp: sample_payment_def)
  moreover have "all_done s" using f n by (auto simp: all_done_def list_all_length three)
  ultimately show ?thesis using run_tasks_sound[OF s] by blast
qed

section \<open>Webhooks of one payment\<close>






end
