(* ===== verification/KeyRace.thy ===== *)
theory KeyRace
  imports Foundations
begin

text \<open>
  Requests that race for one idempotency key. \<open>claim_or_replay\<close> first reads the key and then inserts its
  claim, and other requests run in between; the unique constraint on merchant and key lets one insert
  wait for another transaction that has inserted the key, and fails it when that transaction commits.
  A payment commits its claim and completes it in a second transaction, a refund claims and completes
  in one. However the statements interleave, one request at most owns the key, and every stored
  response that is replayed is the response of that request.
\<close>

section \<open>Statements\<close>

text \<open>
  Where a request stands: before the \<open>SELECT\<close>; before the \<open>INSERT\<close>, having found no row; with its claim
  inserted and the transaction open; with its claim committed; served, its response stored; or ended
  by an answer of \<open>claim_or_replay\<close> or an exception.
\<close>

datatype key_phase = Selecting | Inserting | Working | Owning | Served int json
  | Answered "exn + (int \<times> json) option"

datatype key_action = Select_key | Insert_key | Abort_claim exn | Commit_claim
  | Commit_served int json | Complete_claim int json

record key_race =
  race_key :: key_state
  racers :: "(string \<times> key_phase) list"

definition begin_race :: "string list \<Rightarrow> key_race" where
  "begin_race hashes = \<lparr>race_key = Unused, racers = map (\<lambda>h. (h, Selecting)) hashes\<rparr>"

definition inserted_elsewhere :: "key_race \<Rightarrow> nat \<Rightarrow> bool" where
  "inserted_elsewhere r i \<longleftrightarrow> (\<exists>j < length (racers r). j \<noteq> i \<and> snd (racers r ! j) = Working)"

definition go_on :: "nat \<Rightarrow> key_phase \<Rightarrow> key_state \<Rightarrow> key_race \<Rightarrow> key_race" where
  "go_on i ph st r = \<lparr>race_key = st, racers = (racers r)[i := (fst (racers r ! i), ph)]\<rparr>"

text \<open>One statement of request \<open>i\<close>; \<open>None\<close> when it cannot take it, or has to wait.\<close>

definition key_statement :: "string \<Rightarrow> nat \<Rightarrow> key_action \<Rightarrow> key_race \<Rightarrow> key_race option" where
  "key_statement k i act r = (if i < length (racers r) then
     (let h = fst (racers r ! i) in case snd (racers r ! i) of
        Selecting \<Rightarrow> if act \<noteq> Select_key then None
          else if race_key r = Unused then Some (go_on i Inserting Unused r)
          else Some (go_on i (Answered (claim_outcome (race_key r) k h)) (race_key r) r)
      | Inserting \<Rightarrow> if act \<noteq> Insert_key \<or> inserted_elsewhere r i then None
          else if race_key r = Unused then Some (go_on i Working Unused r)
          else Some (go_on i (Answered (Inl DBAPIError)) (race_key r) r)
      | Working \<Rightarrow> (case act of
            Abort_claim e \<Rightarrow> Some (go_on i (Answered (Inl e)) (race_key r) r)
          | Commit_claim \<Rightarrow> Some (go_on i Owning (Claimed h) r)
          | Commit_served c b \<Rightarrow> Some (go_on i (Served c b) (Finished h c b) r)
          | _ \<Rightarrow> None)
      | Owning \<Rightarrow> (case act of
            Complete_claim c b \<Rightarrow> Some (go_on i (Served c b) (Finished h c b) r)
          | _ \<Rightarrow> None)
      | Served c b \<Rightarrow> None
      | Answered a \<Rightarrow> None)
   else None)"

inductive key_step :: "string \<Rightarrow> key_race \<Rightarrow> key_race \<Rightarrow> bool" for k where
  statement: "key_statement k i act r = Some r' \<Longrightarrow> key_step k r r'"

fun run_race :: "string \<Rightarrow> (nat \<times> key_action) list \<Rightarrow> key_race \<Rightarrow> key_race option" where
  "run_race k [] r = Some r"
| "run_race k ((i, act) # acts) r = (case key_statement k i act r of
     None \<Rightarrow> None | Some r' \<Rightarrow> run_race k acts r')"

lemma run_race_sound: "run_race k acts r = Some r' \<Longrightarrow> (key_step k)\<^sup>*\<^sup>* r r'"
  by (induction acts arbitrary: r)
    (auto split: option.splits, meson converse_rtranclp_into_rtranclp key_step.statement)

text \<open>Alone, the \<open>SELECT\<close> and the \<open>INSERT\<close> are \<open>claim_or_replay\<close>, and a commit leaves the key it leaves.\<close>

lemma claim_used_as_statement:
  assumes "key_state (db s) m k \<noteq> Unused"
  shows "key_statement k 0 Select_key \<lparr>race_key = key_state (db s) m k, racers = [(compute_hash p, Selecting)]\<rparr> =
    Some \<lparr>race_key = key_state (db s) m k,
      racers = [(compute_hash p, Answered (fst (claim_or_replay lock m k p s)))]\<rparr>"
  using assms by (simp add: key_statement_def go_on_def claim_used)

lemma claim_new_as_statements:
  assumes "key_state (db s) m k = Unused" and "claim_or_replay lock m k p s = (Inr x, t)" and "pending s = []"
  shows "run_race k [(0, Select_key), (0, Insert_key), (0, Commit_claim)] (begin_race [compute_hash p]) =
    Some \<lparr>race_key = key_state (db t) m k, racers = [(compute_hash p, Owning)]\<rparr>"
  using idem.claim_new[OF assms]
  by (simp add: key_statement_def go_on_def begin_race_def inserted_elsewhere_def Let_def)

section \<open>The invariant\<close>

fun owner_phase :: "key_phase \<Rightarrow> bool" where
  "owner_phase Working = True"
| "owner_phase Owning = True"
| "owner_phase (Served c b) = True"
| "owner_phase _ = False"

text \<open>The key tells what its owner did, and the answers given agree with it.\<close>

definition key_told :: "key_race \<Rightarrow> bool" where
  "key_told r \<longleftrightarrow> (case race_key r of
     Unused \<Rightarrow> \<forall>p \<in> set (racers r). owner_phase (snd p) \<longrightarrow> snd p = Working
   | Claimed h \<Rightarrow> (h, Owning) \<in> set (racers r)
   | Finished h c b \<Rightarrow> (h, Served c b) \<in> set (racers r))"

definition answer_ok :: "key_state \<Rightarrow> string \<times> key_phase \<Rightarrow> bool" where
  "answer_ok st p \<longleftrightarrow> (case snd p of
     Answered (Inr None) \<Rightarrow> False
   | Answered (Inr (Some (c, b))) \<Rightarrow> st = Finished (fst p) c b
   | _ \<Rightarrow> True)"

definition one_owner :: "(string \<times> key_phase) list \<Rightarrow> bool" where
  "one_owner ps \<longleftrightarrow> (\<forall>i < length ps. \<forall>j < length ps.
     owner_phase (snd (ps ! i)) \<longrightarrow> owner_phase (snd (ps ! j)) \<longrightarrow> i = j)"

definition race_ok :: "key_race \<Rightarrow> bool" where
  "race_ok r \<longleftrightarrow> one_owner (racers r) \<and> key_told r \<and> (\<forall>p \<in> set (racers r). answer_ok (race_key r) p)"

lemma race_ok_begin: "race_ok (begin_race hashes)"
  by (auto simp: race_ok_def one_owner_def key_told_def answer_ok_def begin_race_def)

lemma in_update:
  assumes "i < length xs"
  shows "y \<in> set (xs[i := x]) \<longleftrightarrow> y = x \<or> (\<exists>j < length xs. j \<noteq> i \<and> y = xs ! j)"
proof
  assume "y \<in> set (xs[i := x])"
  then show "y = x \<or> (\<exists>j < length xs. j \<noteq> i \<and> y = xs ! j)"
    using assms by (auto simp: in_set_conv_nth nth_list_update split: if_splits)
next
  assume "y = x \<or> (\<exists>j < length xs. j \<noteq> i \<and> y = xs ! j)"
  then show "y \<in> set (xs[i := x])"
    using assms by (auto simp: in_set_conv_nth nth_list_update intro: exI[of _ i])
qed

lemma one_owner_update:
  assumes "one_owner ps" and "i < length ps"
    and "owner_phase ph \<Longrightarrow> \<forall>j < length ps. j \<noteq> i \<longrightarrow> \<not> owner_phase (snd (ps ! j))"
  shows "one_owner (ps[i := (h, ph)])"
  using assms by (auto simp: one_owner_def nth_list_update)

lemma answer_ok_not_finished:
  "answer_ok st p \<Longrightarrow> (\<And>h c b. st \<noteq> Finished h c b) \<Longrightarrow> answer_ok st' p"
  by (auto simp: answer_ok_def split: key_phase.splits sum.splits option.splits)

text \<open>A request that owns nothing, or withdraws its insert, leaves the key as it is.\<close>

lemma race_ok_leave:
  assumes ok: "race_ok r" and i: "i < length (racers r)" and ph: "\<not> owner_phase ph" "answer_ok (race_key r) (h, ph)"
    and old: "owner_phase (snd (racers r ! i)) \<Longrightarrow> snd (racers r ! i) = Working"
  shows "race_ok \<lparr>race_key = race_key r, racers = (racers r)[i := (h, ph)]\<rparr>"
proof -
  have other: "q \<in> set ((racers r)[i := (h, ph)])"
    if "q \<in> set (racers r)" "owner_phase (snd q)" "snd q \<noteq> Working" for q
  proof -
    from that(1) obtain j where "j < length (racers r)" "q = racers r ! j" by (auto simp: in_set_conv_nth)
    with that(2,3) old show ?thesis by (cases "j = i") (auto simp: in_update[OF i])
  qed
  have "key_told \<lparr>race_key = race_key r, racers = (racers r)[i := (h, ph)]\<rparr>"
  proof (cases "race_key r")
    case Unused
    with ok have "\<forall>q \<in> set (racers r). owner_phase (snd q) \<longrightarrow> snd q = Working" by (simp add: race_ok_def key_told_def)
    with Unused ph(1) show ?thesis by (auto simp: key_told_def dest!: set_update_subset_insert[THEN subsetD])
  next
    case (Claimed h')
    with ok other[of "(h', Owning)"] show ?thesis by (simp add: race_ok_def key_told_def)
  next
    case (Finished h' c b)
    with ok other[of "(h', Served c b)"] show ?thesis by (simp add: race_ok_def key_told_def)
  qed
  moreover have "one_owner ((racers r)[i := (h, ph)])"
    using ok ph(1) i by (intro one_owner_update) (auto simp: race_ok_def)
  ultimately show ?thesis using ok ph(2) by (auto simp: race_ok_def in_update[OF i])
qed

text \<open>The owner of the key moves on and says so in the key; before it finishes nobody has been replayed.\<close>

lemma race_ok_own:
  assumes ok: "race_ok r" and i: "i < length (racers r)"
    and free: "\<forall>j < length (racers r). j \<noteq> i \<longrightarrow> \<not> owner_phase (snd (racers r ! j))"
    and old: "\<And>h c b. race_key r \<noteq> Finished h c b"
    and new: "ph = Working \<and> st = Unused \<or> ph = Owning \<and> st = Claimed h \<or> (\<exists>c b. ph = Served c b \<and> st = Finished h c b)"
  shows "race_ok \<lparr>race_key = st, racers = (racers r)[i := (h, ph)]\<rparr>"
proof -
  have "key_told \<lparr>race_key = st, racers = (racers r)[i := (h, ph)]\<rparr>"
  proof -
    have "(h, ph) \<in> set ((racers r)[i := (h, ph)])" using i by (simp add: set_update_memI)
    moreover have "snd q = Working" if "ph = Working" "q \<in> set ((racers r)[i := (h, ph)])" "owner_phase (snd q)" for q
    proof -
      from that(2) consider "q = (h, ph)" | j where "j < length (racers r)" "j \<noteq> i" "q = racers r ! j"
        unfolding in_update[OF i] by blast
      then show ?thesis using that(1,3) free by cases auto
    qed
    ultimately show ?thesis using new by (auto simp: key_told_def)
  qed
  moreover have "one_owner ((racers r)[i := (h, ph)])"
    using ok free i by (intro one_owner_update) (simp_all add: race_ok_def)
  moreover have "answer_ok st (h, ph)" using new by (auto simp: answer_ok_def)
  moreover have "answer_ok st q" if "q \<in> set (racers r)" for q
    by (rule answer_ok_not_finished[of "race_key r"]) (use ok that in \<open>simp add: race_ok_def\<close>, rule old)
  ultimately show ?thesis
    by (simp add: race_ok_def) (blast dest: set_update_subset_insert[THEN subsetD])
qed

lemma race_ok_alone:
  assumes ok: "race_ok r" and i: "i < length (racers r)" and ph: "snd (racers r ! i) = Working \<or> snd (racers r ! i) = Owning"
  shows "\<forall>j < length (racers r). j \<noteq> i \<longrightarrow> \<not> owner_phase (snd (racers r ! j))"
    and "race_key r \<noteq> Finished h c b"
proof -
  have "owner_phase (snd (racers r ! i))" using ph by auto
  with ok i show free: "\<forall>j < length (racers r). j \<noteq> i \<longrightarrow> \<not> owner_phase (snd (racers r ! j))"
    by (auto simp: race_ok_def one_owner_def)
  show "race_key r \<noteq> Finished h c b"
  proof
    assume "race_key r = Finished h c b"
    with ok have "(h, Served c b) \<in> set (racers r)" by (simp add: race_ok_def key_told_def)
    then obtain j where "j < length (racers r)" "racers r ! j = (h, Served c b)" by (auto simp: in_set_conv_nth)
    with free ph show False by (cases "j = i") auto
  qed
qed

lemma race_ok_statement:
  assumes ok: "race_ok r" and st: "key_statement k i act r = Some r'"
  shows "race_ok r'"
proof -
  from st have i: "i < length (racers r)" by (auto simp: key_statement_def split: if_splits)
  let ?h = "fst (racers r ! i)"
  show ?thesis
  proof (cases "snd (racers r ! i)")
    case Selecting
    have "answer_ok (race_key r) (?h, Answered (claim_outcome (race_key r) k ?h))" if "race_key r \<noteq> Unused"
      using that by (cases "race_key r") (auto simp: answer_ok_def)
    moreover have "answer_ok (race_key r) (?h, Inserting)" by (simp add: answer_ok_def)
    moreover from st i Selecting
    have "r' = \<lparr>race_key = race_key r, racers = (racers r)[i := (?h, if race_key r = Unused then Inserting
        else Answered (claim_outcome (race_key r) k ?h))]\<rparr>"
      by (auto simp: key_statement_def Let_def go_on_def split: if_splits)
    ultimately show ?thesis using Selecting race_ok_leave[OF ok i, of _ ?h] by (cases "race_key r = Unused") simp_all
  next
    case Inserting
    show ?thesis
    proof (cases "race_key r = Unused")
      case True
      have "\<not> owner_phase (snd (racers r ! j))" if "j < length (racers r)" "j \<noteq> i" for j
        using ok st i Inserting True that nth_mem[OF that(1)]
        by (auto simp: race_ok_def key_told_def key_statement_def inserted_elsewhere_def split: if_splits)
      moreover have "r' = \<lparr>race_key = Unused, racers = (racers r)[i := (?h, Working)]\<rparr>"
        using st i Inserting True by (auto simp: key_statement_def Let_def go_on_def split: if_splits)
      ultimately show ?thesis using race_ok_own[OF ok i, of Working Unused ?h] True by auto
    next
      case False
      then have "r' = \<lparr>race_key = race_key r, racers = (racers r)[i := (?h, Answered (Inl DBAPIError))]\<rparr>"
        using st i Inserting by (auto simp: key_statement_def Let_def go_on_def split: if_splits)
      then show ?thesis using race_ok_leave[OF ok i, of "Answered (Inl DBAPIError)" ?h] Inserting
        by (simp add: answer_ok_def)
    qed
  next
    case Working
    note alone = race_ok_alone[OF ok i disjI1[OF Working]]
    from st i Working consider e where "r' = \<lparr>race_key = race_key r, racers = (racers r)[i := (?h, Answered (Inl e))]\<rparr>"
      | "r' = \<lparr>race_key = Claimed ?h, racers = (racers r)[i := (?h, Owning)]\<rparr>"
      | c b where "r' = \<lparr>race_key = Finished ?h c b, racers = (racers r)[i := (?h, Served c b)]\<rparr>"
      by (cases act) (auto simp: key_statement_def Let_def go_on_def)
    then show ?thesis
    proof cases
      case (1 e)
      then show ?thesis using race_ok_leave[OF ok i, of "Answered (Inl e)" ?h] Working by (simp add: answer_ok_def)
    next
      case 2
      then show ?thesis using race_ok_own[OF ok i alone, of Owning "Claimed ?h" ?h] by simp
    next
      case (3 c b)
      then show ?thesis using race_ok_own[OF ok i alone, of "Served c b" "Finished ?h c b" ?h] by simp
    qed
  next
    case Owning
    from st i Owning obtain c b where "r' = \<lparr>race_key = Finished ?h c b, racers = (racers r)[i := (?h, Served c b)]\<rparr>"
      by (cases act) (auto simp: key_statement_def Let_def go_on_def)
    then show ?thesis
      using race_ok_own[OF ok i race_ok_alone[OF ok i disjI2[OF Owning]], of "Served c b" "Finished ?h c b" ?h] by simp
  next
    case (Served c b)
    with st i show ?thesis by (simp add: key_statement_def Let_def)
  next
    case (Answered a)
    with st i show ?thesis by (simp add: key_statement_def Let_def)
  qed
qed

lemma race_ok_run: "(key_step k)\<^sup>*\<^sup>* r r' \<Longrightarrow> race_ok r \<Longrightarrow> race_ok r'"
  by (induction rule: rtranclp_induct) (auto elim!: key_step.cases intro: race_ok_statement)

section \<open>Properties\<close>

text \<open>
  C10. One request at most owns an idempotency key. However any number of requests under one unused key
  interleave their statements, two of them never both hold an inserted claim, a committed claim or a
  stored response; a request that gets a stored response gets the one the owner stored, and has the
  owner's digest; and as long as a request has not ended, some request can go on.
\<close>

theorem key_has_one_owner:
  assumes "(key_step k)\<^sup>*\<^sup>* (begin_race hashes) r"
  shows "(\<forall>i < length (racers r). \<forall>j < length (racers r). i \<noteq> j \<longrightarrow>
      \<not> (owner_phase (snd (racers r ! i)) \<and> owner_phase (snd (racers r ! j)))) \<and>
    (\<forall>h c b. (h, Answered (Inr (Some (c, b)))) \<in> set (racers r) \<longrightarrow> (h, Served c b) \<in> set (racers r)) \<and>
    (\<forall>h. (h, Answered (Inr None)) \<notin> set (racers r)) \<and>
    (list_all (\<lambda>p. snd p \<notin> {Selecting, Inserting, Working, Owning}) (racers r) \<or> (\<exists>r'. key_step k r r'))"
proof -
  have ok: "race_ok r" using race_ok_run[OF assms race_ok_begin] .
  have "(h, Served c b) \<in> set (racers r)" if "(h, Answered (Inr (Some (c, b)))) \<in> set (racers r)" for h c b
    using ok that by (auto simp: race_ok_def key_told_def answer_ok_def)
  moreover have "(h, Answered (Inr None)) \<notin> set (racers r)" for h
    using ok by (auto simp: race_ok_def answer_ok_def)
  moreover have "\<exists>r'. key_step k r r'" if "i < length (racers r)"
      "snd (racers r ! i) \<in> {Selecting, Inserting, Working, Owning}" for i
  proof -
    have "\<exists>j < length (racers r). snd (racers r ! j) \<in> {Selecting, Working, Owning} \<or>
        snd (racers r ! j) = Inserting \<and> \<not> inserted_elsewhere r j"
    proof (cases "inserted_elsewhere r i")
      case True
      then show ?thesis by (auto simp: inserted_elsewhere_def)
    next
      case False
      with that show ?thesis by (intro exI[of _ i]) auto
    qed
    then obtain j where j: "j < length (racers r)" and "snd (racers r ! j) \<in> {Selecting, Working, Owning} \<or>
        snd (racers r ! j) = Inserting \<and> \<not> inserted_elsewhere r j" by blast
    then have "\<exists>act. key_statement k j act r \<noteq> None"
      using j by (elim disjE insertE emptyE conjE)
        (rule exI[of _ Select_key], simp add: key_statement_def Let_def,
         rule exI[of _ Commit_claim], simp add: key_statement_def Let_def,
         rule exI[of _ "Complete_claim 0 JNull"], simp add: key_statement_def Let_def,
         rule exI[of _ Insert_key], simp add: key_statement_def Let_def)
    then show ?thesis by (auto intro: key_step.statement)
  qed
  then have "list_all (\<lambda>p. snd p \<notin> {Selecting, Inserting, Working, Owning}) (racers r) \<or> (\<exists>r'. key_step k r r')"
    unfolding list_all_length by blast
  moreover have "\<forall>i < length (racers r). \<forall>j < length (racers r). i \<noteq> j \<longrightarrow>
      \<not> (owner_phase (snd (racers r ! i)) \<and> owner_phase (snd (racers r ! j)))"
    using ok unfolding race_ok_def one_owner_def by blast
  ultimately show ?thesis by blast
qed

text \<open>Three requests under one key: one pays, one with the same body is replayed, one with another is refused.\<close>

theorem key_has_one_owner_witness:
  "\<exists>r. (key_step ''k'')\<^sup>*\<^sup>* (begin_race [''h'', ''h'', ''g'']) r \<and>
     map snd (racers r) = [Served 201 JNull, Answered (Inr (Some (201, JNull))),
       Answered (Inl (IdempotencyMismatchException ''k''))] \<and>
     (\<forall>i < 3. i \<noteq> 0 \<longrightarrow> \<not> owner_phase (snd (racers r ! i)))"
proof -
  let ?acts = "[(0, Select_key), (0, Insert_key), (0, Commit_claim), (2, Select_key), (0, Complete_claim 201 JNull),
    (1, Select_key)]"
  have "case run_race ''k'' ?acts (begin_race [''h'', ''h'', ''g'']) of None \<Rightarrow> False | Some r \<Rightarrow>
      map snd (racers r) = [Served 201 JNull, Answered (Inr (Some (201, JNull))),
       Answered (Inl (IdempotencyMismatchException ''k''))]" by code_simp
  then obtain r where r: "run_race ''k'' ?acts (begin_race [''h'', ''h'', ''g'']) = Some r"
    "map snd (racers r) = [Served 201 JNull, Answered (Inr (Some (201, JNull))),
       Answered (Inl (IdempotencyMismatchException ''k''))]"
    by (auto split: option.splits)
  note run = run_race_sound[OF r(1)]
  have "length (map snd (racers r)) = 3" unfolding r(2) by simp
  then have n: "length (racers r) = 3" by simp
  have "snd (racers r ! 0) = Served 201 JNull" using arg_cong[OF r(2), of "\<lambda>xs. xs ! 0"] n by simp
  then have own: "owner_phase (snd (racers r ! 0))" by simp
  have "\<forall>i < 3. i \<noteq> 0 \<longrightarrow> \<not> owner_phase (snd (racers r ! i))"
  proof (intro allI impI)
    fix i :: nat
    assume that: "i < 3" "i \<noteq> 0"
    with n have "i < length (racers r)" "0 < length (racers r)" by simp_all
    with key_has_one_owner[OF run, THEN conjunct1] that(2) own show "\<not> owner_phase (snd (racers r ! i))" by blast
  qed
  then show ?thesis by (intro exI[of _ r] conjI run r(2))
qed

text \<open>
  The protocol promises a conflict to a request that meets another in progress. A request that has
  found no row when the other inserts it gets the violated constraint of the database instead.
\<close>

lemma late_insert_violates_key:
  "case run_race ''k'' [(0, Select_key), (1, Select_key), (0, Insert_key), (0, Commit_claim), (1, Insert_key)]
     (begin_race [''h'', ''h'']) of None \<Rightarrow> False | Some r \<Rightarrow> race_key r = Claimed ''h'' \<and>
       racers r = [(''h'', Owning), (''h'', Answered (Inl DBAPIError))]"
  by code_simp

end
