(* ===== verification/DailyPush.thy ===== *)
theory DailyPush
  imports Prelude "HOL-Library.Char_ord" "HOL-Library.List_Lexorder" "HOL-Library.Product_Lexorder"
begin

text \<open>
  The commit script \<open>scripts/daily_push.py\<close>: it asks git for pending files, orders them, and commits and
  pushes a few of them with a message each. Git and the file system are a parameter (\<open>host\<close>) with a
  state of its own; the string methods of Python that the script uses are written out. What is
  printed is left out, except for the plan that \<open>list_queue\<close> prints, which is its result here.
\<close>

section \<open>String methods\<close>

definition py_isspace :: "char \<Rightarrow> bool" where
  "py_isspace c \<longleftrightarrow> (let n = (of_char c :: nat) in
     9 \<le> n \<and> n \<le> 13 \<or> 28 \<le> n \<and> n \<le> 32 \<or> n = 133 \<or> n = 160)"

definition strip_by :: "(char \<Rightarrow> bool) \<Rightarrow> string \<Rightarrow> string" where
  "strip_by p s = rev (dropWhile p (rev (dropWhile p s)))"

definition py_strip :: "string \<Rightarrow> string" where
  "py_strip = strip_by py_isspace"

definition line_break :: "char \<Rightarrow> bool" where
  "line_break c \<longleftrightarrow> (let n = (of_char c :: nat) in 10 \<le> n \<and> n \<le> 13 \<or> 28 \<le> n \<and> n \<le> 30 \<or> n = 133)"

text \<open>\<open>str.splitlines\<close>, with the line read so far; a return followed by a newline is one break.\<close>

fun splitlines_from :: "string \<Rightarrow> string \<Rightarrow> string list" where
  "splitlines_from acc [] = (if acc = [] then [] else [acc])"
| "splitlines_from acc (c # cs) =
     (if line_break c
      then acc # splitlines_from [] (if c = CHR 0x0D \<and> cs \<noteq> [] \<and> hd cs = CHR 0x0A then tl cs else cs)
      else splitlines_from (acc @ [c]) cs)"

definition splitlines :: "string \<Rightarrow> string list" where
  "splitlines = splitlines_from []"

definition endswith :: "string \<Rightarrow> string list \<Rightarrow> bool" where
  "endswith s ends = list_ex (\<lambda>e. length e \<le> length s \<and> drop (length s - length e) s = e) ends"

fun py_contains :: "string \<Rightarrow> string \<Rightarrow> bool" where
  "py_contains pat [] = (pat = [])"
| "py_contains pat (c # cs) = (take (length pat) (c # cs) = pat \<or> py_contains pat cs)"

definition py_lower :: "string \<Rightarrow> string" where
  "py_lower = map (\<lambda>c. let n = (of_char c :: nat) in
     if 65 \<le> n \<and> n \<le> 90 \<or> 192 \<le> n \<and> n \<le> 222 \<and> n \<noteq> 215 then char_of (n + 32) else c)"

fun split_slash :: "string \<Rightarrow> string list" where
  "split_slash [] = [[]]"
| "split_slash (c # cs) = (if c = CHR ''/'' then [] # split_slash cs
     else (case split_slash cs of [] \<Rightarrow> [[c]] | w # ws \<Rightarrow> (c # w) # ws))"

definition basename :: "string \<Rightarrow> string" where
  "basename s = last (split_slash s)"

text \<open>\<open>xs[:n]\<close>, also for a negative \<open>n\<close>.\<close>

definition py_take :: "int \<Rightarrow> 'a list \<Rightarrow> 'a list" where
  "py_take n xs = (if n < 0 then take (length xs - nat (- n)) xs else take (nat n) xs)"

section \<open>Tables\<close>

definition FILE_COMMIT_MESSAGES :: "(string \<times> string) list" where
  "FILE_COMMIT_MESSAGES =
    [(''pyproject.toml'',
      ''chore(build): define python 3.13 project metadata and dependencies''),
     (''requirements.txt'',
      ''chore(deps): add FastAPI, SQLAlchemy 2.0 async, and Stripe requirements''),
     (''alembic.ini'',
      ''chore(db): configure alembic database migration environment''),
     (''alembic/env.py'',
      ''feat(db): implement async migration runner in alembic''),
     (''alembic/script.py.mako'',
      ''chore(db): add alembic script template''),
     (''alembic/versions/001_initial_schema.py'',
      ''feat(db): create initial double-entry schema and postgresql triggers''),
     (''alembic/versions/002_processed_events_and_refunds.py'',
      ''feat(db): add processed events dedupe and refunds tables''),
     (''app/config.py'',
      ''feat(config): implement pydantic BaseSettings for database and redis configuration''),
     (''app/domain/enums.py'',
      ''feat(domain): define domain enumerations for account types and payment states''),
     (''app/domain/exceptions.py'',
      ''feat(domain): define domain exceptions for balance guards and idempotency''),
     (''app/domain/models.py'',
      ''feat(domain): implement SQLAlchemy 2.0 async declarative models''),
     (''app/domain/__init__.py'',
      ''feat(domain): expose domain models and exceptions in package init''),
     (''app/infrastructure/database.py'',
      ''feat(infra): configure async SQLAlchemy engine and session dependency''),
     (''app/infrastructure/redis_client.py'',
      ''feat(infra): implement async Redis connection pool and idempotency lock''),
     (''app/infrastructure/psp/provider.py'',
      ''feat(psp): define PaymentProvider abstract interface and authorization results''),
     (''app/infrastructure/psp/mock_psp.py'',
      ''feat(psp): implement MockPspClient for local testing and simulation''),
     (''app/infrastructure/psp/stripe_psp.py'',
      ''feat(psp): implement StripePaymentProvider with manual capture method''),
     (''app/infrastructure/psp/signature.py'',
      ''feat(security): add HMAC-SHA256 and Stripe webhook signature verifiers''),
     (''app/infrastructure/psp/__init__.py'',
      ''feat(psp): package psp providers and signature verifiers''),
     (''app/infrastructure/__init__.py'',
      ''feat(infra): expose database and redis infrastructure''),
     (''app/application/schemas.py'',
      ''feat(app): define Pydantic v2 request and response DTO schemas''),
     (''app/application/ledger_service.py'',
      ''feat(ledger): implement double-entry balance validation and row locking''),
     (''app/application/idempotency_service.py'',
      ''feat(idempotency): implement two-tier Redis and Postgres idempotency engine''),
     (''app/application/payment_saga.py'',
      ''feat(saga): implement Hold-Authorize-Settle distributed payment saga''),
     (''app/application/payment_service.py'',
      ''feat(payments): implement PaymentService orchestrating payment lifecycle''),
     (''app/application/refund_service.py'',
      ''feat(refunds): implement RefundService with over-refund protection''),
     (''app/application/webhook_service.py'',
      ''feat(webhooks): implement WebhookService with deduplication and state guards''),
     (''app/application/reconciliation_service.py'',
      ''feat(reconciliation): implement continuous ledger audit and hold expiry''),
     (''app/application/outbox_relay.py'',
      ''feat(outbox): implement asynchronous OutboxRelay background worker''),
     (''app/application/__init__.py'',
      ''feat(app): package application services and schemas''),
     (''app/api/dependencies.py'',
      ''feat(api): define FastAPI dependency injection providers''),
     (''app/api/payments.py'',
      ''feat(api): implement /v1/payments endpoints with idempotency support''),
     (''app/api/accounts.py'',
      ''feat(api): implement /v1/accounts balance and ledger audit trail endpoints''),
     (''app/api/refunds.py'',
      ''feat(api): implement /v1/payments/{id}/refunds endpoint''),
     (''app/api/webhooks.py'',
      ''feat(api): implement /v1/webhooks for Stripe and custom PSP callbacks''),
     (''app/api/reconciliation.py'',
      ''feat(api): implement /v1/reconciliation/report endpoint''),
     (''app/api/__init__.py'',
      ''feat(api): expose API routers''),
     (''app/main.py'',
      ''feat(core): initialize FastAPI application with Lifespan, Prometheus, and exception handlers''),
     (''app/__init__.py'',
      ''feat(core): expose FastAPI app instance''),
     (''tests/conftest.py'',
      ''test: configure pytest-asyncio test fixtures and in-memory database''),
     (''tests/test_ledger.py'',
      ''test(ledger): verify double-entry invariant validation and balance checks''),
     (''tests/test_concurrency.py'',
      ''test(concurrency): verify concurrent balance debits prevent oversell''),
     (''tests/test_idempotency.py'',
      ''test(idempotency): verify response replay and payload mismatch rejection''),
     (''tests/test_payments.py'',
      ''test(payments): verify hold-authorize-settle saga and failure reversals''),
     (''tests/test_refunds.py'',
      ''test(refunds): verify full, partial, and over-refund protections''),
     (''tests/test_webhooks.py'',
      ''test(webhooks): verify webhook signature checks and async capture''),
     (''tests/test_reconciliation.py'',
      ''test(reconciliation): verify mathematical ledger integrity checks''),
     (''Dockerfile'',
      ''ci(docker): configure multi-stage Python 3.13-slim container build''),
     (''docker-compose.yml'',
      ''ci(docker): configure full stack orchestration with Postgres, Redis, and Grafana''),
     (''README.md'',
      ''docs: update system architecture, double-entry specs, and Python API reference'')]"

definition PREFERRED_ORDER :: "string list" where
  "PREFERRED_ORDER =
    [''pyproject.toml'',
     ''requirements.txt'',
     ''alembic.ini'',
     ''alembic/env.py'',
     ''alembic/script.py.mako'',
     ''alembic/versions/001_initial_schema.py'',
     ''alembic/versions/002_processed_events_and_refunds.py'',
     ''app/config.py'',
     ''app/domain/enums.py'',
     ''app/domain/exceptions.py'',
     ''app/domain/models.py'',
     ''app/domain/__init__.py'',
     ''app/infrastructure/database.py'',
     ''app/infrastructure/redis_client.py'',
     ''app/infrastructure/psp/provider.py'',
     ''app/infrastructure/psp/mock_psp.py'',
     ''app/infrastructure/psp/stripe_psp.py'',
     ''app/infrastructure/psp/signature.py'',
     ''app/infrastructure/psp/__init__.py'',
     ''app/infrastructure/__init__.py'',
     ''app/application/schemas.py'',
     ''app/application/ledger_service.py'',
     ''app/application/idempotency_service.py'',
     ''app/application/payment_saga.py'',
     ''app/application/payment_service.py'',
     ''app/application/refund_service.py'',
     ''app/application/webhook_service.py'',
     ''app/application/reconciliation_service.py'',
     ''app/application/outbox_relay.py'',
     ''app/application/__init__.py'',
     ''app/api/dependencies.py'',
     ''app/api/payments.py'',
     ''app/api/accounts.py'',
     ''app/api/refunds.py'',
     ''app/api/webhooks.py'',
     ''app/api/reconciliation.py'',
     ''app/api/__init__.py'',
     ''app/main.py'',
     ''app/__init__.py'',
     ''tests/conftest.py'',
     ''tests/test_ledger.py'',
     ''tests/test_concurrency.py'',
     ''tests/test_idempotency.py'',
     ''tests/test_payments.py'',
     ''tests/test_refunds.py'',
     ''tests/test_webhooks.py'',
     ''tests/test_reconciliation.py'',
     ''Dockerfile'',
     ''docker-compose.yml'',
     ''README.md'']"

section \<open>Operations\<close>

text \<open>
  \<open>run\<close> is \<open>subprocess.run\<close> in the repository directory: return code, output, error output. Paths are
  relative to the repository directory; \<open>rglob\<close> lists what is below a directory.
\<close>

record 'w host =
  run :: "string list \<Rightarrow> 'w \<Rightarrow> (int \<times> string \<times> string) \<times> 'w"
  is_dir :: "'w \<Rightarrow> string \<Rightarrow> bool"
  is_file :: "'w \<Rightarrow> string \<Rightarrow> bool"
  path_exists :: "'w \<Rightarrow> string \<Rightarrow> bool"
  rglob :: "'w \<Rightarrow> string \<Rightarrow> string list"

definition run_cmd :: "'w host \<Rightarrow> string list \<Rightarrow> 'w \<Rightarrow> (int \<times> string \<times> string) \<times> 'w" where
  "run_cmd h cmd w = (case run h cmd w of ((code, out, err), w') \<Rightarrow> ((code, py_strip out, py_strip err), w'))"

abbreviation git_status :: "string list" where
  "git_status \<equiv> [''git'', ''status'', ''--porcelain'']"

text \<open>The files one line of the status names.\<close>

definition line_files :: "'w host \<Rightarrow> 'w \<Rightarrow> string \<Rightarrow> string list" where
  "line_files h w line =
     (if length line < 4 then []
      else let raw_path = strip_by (\<lambda>c. c = CHR 0x22) (py_strip (drop 3 line)) in
        if is_dir h w raw_path then
          filter (\<lambda>p. is_file h w p \<and> \<not> endswith p [''.pyc'', ''.DS_Store'']) (sort_key split_slash (rglob h w raw_path))
        else if is_file h w raw_path then
          (if endswith raw_path [''.pyc'', ''.DS_Store''] then [] else [raw_path])
        else [])"

fun index_of :: "'a \<Rightarrow> 'a list \<Rightarrow> nat option" where
  "index_of x [] = None"
| "index_of x (y # ys) = (if x = y then Some 0 else map_option Suc (index_of x ys))"

definition pending_key :: "string \<Rightarrow> nat \<times> nat \<times> string" where
  "pending_key f = (case index_of f PREFERRED_ORDER of Some i \<Rightarrow> (0, i, []) | None \<Rightarrow> (1, 0, f))"

text \<open>\<open>list(dict.fromkeys(files))\<close> keeps the first of equal files.\<close>

definition fromkeys :: "'a list \<Rightarrow> 'a list" where
  "fromkeys xs = rev (remdups (rev xs))"

definition get_pending_files :: "'w host \<Rightarrow> 'w \<Rightarrow> string list \<times> 'w" where
  "get_pending_files h w = (case run_cmd h git_status w of ((code, out, _), w') \<Rightarrow>
     (if code \<noteq> 0 \<or> out = [] then []
      else sort_key pending_key (fromkeys (concat (map (line_files h w') (splitlines out)))), w'))"

definition generate_commit_message :: "string \<Rightarrow> string" where
  "generate_commit_message filepath = (case map_of FILE_COMMIT_MESSAGES filepath of
     Some m \<Rightarrow> m
   | None \<Rightarrow>
       if py_contains ''test'' (py_lower filepath) then ''test: add test coverage for '' @ basename filepath
       else if endswith filepath [''.py'', ''.pyi''] then ''feat: implement updates in '' @ basename filepath
       else if endswith filepath [''.yml'', ''.yaml'', ''.ini'', ''.toml'', ''.plist'']
         then ''chore(config): update configuration in '' @ basename filepath
       else if endswith filepath [''.md'', ''.txt''] then ''docs: update documentation in '' @ basename filepath
       else ''feat: update '' @ basename filepath)"

text \<open>The loop over the files of the day: the files committed, or \<open>None\<close> when git failed.\<close>

fun commit_files :: "'w host \<Rightarrow> bool \<Rightarrow> string list \<Rightarrow> 'w \<Rightarrow> string list option \<times> 'w" where
  "commit_files h dry_run [] w = (Some [], w)"
| "commit_files h dry_run (f # fs) w =
     (if \<not> path_exists h w f \<or> dry_run then commit_files h dry_run fs w
      else (case run_cmd h [''git'', ''add'', f] w of ((code, _), w1) \<Rightarrow>
        if code \<noteq> 0 then (None, w1)
        else (case run_cmd h [''git'', ''commit'', ''-m'', generate_commit_message f] w1 of ((code', _), w2) \<Rightarrow>
          if code' \<noteq> 0 then (None, w2)
          else (case commit_files h dry_run fs w2 of (r, w3) \<Rightarrow> (map_option ((#) f) r, w3)))))"

definition push_batch :: "'w host \<Rightarrow> int \<Rightarrow> bool \<Rightarrow> string option \<Rightarrow> 'w \<Rightarrow> bool \<times> 'w" where
  "push_batch h count dry_run specific_file w = (case get_pending_files h w of (pending, w1) \<Rightarrow>
     if pending = [] then (True, w1)
     else let files_to_commit = (case specific_file of Some (c # cs) \<Rightarrow> [c # cs] | _ \<Rightarrow> py_take count pending) in
       (case commit_files h dry_run files_to_commit w1 of
          (None, w2) \<Rightarrow> (False, w2)
        | (Some committed_files, w2) \<Rightarrow>
            if dry_run then (True, w2)
            else (case run_cmd h [''git'', ''push'', ''origin'', ''main''] w2 of ((code, _), w3) \<Rightarrow>
              if code \<noteq> 0 then (False, w3)
              else (True, snd (get_pending_files h w3)))))"

text \<open>
  The plan: the number of days announced and, for each day, its number and its files. A count of zero
  raises ZeroDivisionError (\<open>None\<close>); with a negative count the range is empty.
\<close>

function plan_days :: "nat \<Rightarrow> nat \<Rightarrow> string list \<Rightarrow> (nat \<times> string list) list" where
  "plan_days per_day i pending = (if per_day = 0 \<or> length pending \<le> i then []
     else (i div per_day + 1, take per_day (drop i pending)) # plan_days per_day (i + per_day) pending)"
  by pat_completeness auto
termination
  by (relation "measure (\<lambda>(p, i, xs). length xs - i)") auto

declare plan_days.simps [simp del]

definition list_queue :: "'w host \<Rightarrow> int \<Rightarrow> 'w \<Rightarrow> (int \<times> (nat \<times> string list) list) option \<times> 'w" where
  "list_queue h per_day w = (case get_pending_files h w of (pending, w1) \<Rightarrow>
     (if pending = [] then Some (0, [])
      else if per_day = 0 then None
      else Some ((int (length pending) + per_day - 1) div per_day, plan_days (nat per_day) 0 pending), w1))"

record args =
  arg_push :: bool
  arg_count :: int
  arg_dry_run :: bool
  arg_status :: bool
  arg_file :: "string option"

definition main :: "'w host \<Rightarrow> args \<Rightarrow> 'w \<Rightarrow> 'w" where
  "main h args w =
     (if arg_status args then snd (list_queue h (arg_count args) w)
      else if arg_push args \<or> arg_dry_run args \<or> (arg_file args \<noteq> None \<and> arg_file args \<noteq> Some [])
        then snd (push_batch h (arg_count args) (arg_dry_run args) (arg_file args) w)
      else snd (list_queue h (arg_count args) w))"

section \<open>The order of the queue\<close>

lemma messages_order: "map fst FILE_COMMIT_MESSAGES = PREFERRED_ORDER"
  by (simp add: FILE_COMMIT_MESSAGES_def PREFERRED_ORDER_def)

lemma preferred_distinct: "distinct PREFERRED_ORDER"
  by code_simp

lemma index_of_Some: "index_of x xs = Some i \<Longrightarrow> i < length xs \<and> xs ! i = x"
  by (induction xs arbitrary: i) (auto split: if_splits)

lemma index_of_None: "index_of x xs = None \<longleftrightarrow> x \<notin> set xs"
  by (induction xs) auto

lemma index_of_nth: "distinct xs \<Longrightarrow> i < length xs \<Longrightarrow> index_of (xs ! i) xs = Some i"
proof (induction xs arbitrary: i)
  case (Cons x xs)
  then show ?case by (cases i) auto
qed simp

lemma pending_key_other: "f \<notin> set PREFERRED_ORDER \<Longrightarrow> pending_key f = (1, 0, f)"
  by (simp add: pending_key_def index_of_None[symmetric])

lemma pending_key_listed: "f \<in> set PREFERRED_ORDER \<Longrightarrow> \<exists>i. pending_key f = (0, i, [])"
  using index_of_None[of f PREFERRED_ORDER] by (auto simp: pending_key_def)

lemma pending_key_inj: "pending_key f = pending_key g \<Longrightarrow> f = g"
  by (auto simp: pending_key_def split: option.splits dest!: index_of_Some)

text \<open>The listed files in the order of the list, then the others by name.\<close>

definition queue_order :: "string set \<Rightarrow> string list" where
  "queue_order F = filter (\<lambda>f. f \<in> F) PREFERRED_ORDER @ sorted_list_of_set (F - set PREFERRED_ORDER)"

lemma sorted_keys_preferred: "sorted_wrt (\<lambda>f g. pending_key f < pending_key g) PREFERRED_ORDER"
  unfolding sorted_wrt_iff_nth_less
  by (simp add: pending_key_def index_of_nth[OF preferred_distinct])

lemma sorted_queue_order:
  assumes "finite F"
  shows "sorted_wrt (\<lambda>f g. pending_key f < pending_key g) (queue_order F)" and "set (queue_order F) = F"
proof -
  let ?R = "sorted_list_of_set (F - set PREFERRED_ORDER)"
  have r: "set ?R = F - set PREFERRED_ORDER" "sorted_wrt (<) ?R"
    using assms by (simp_all add: sorted_list_of_set.strict_sorted_key_list_of_set)
  have "sorted_wrt (\<lambda>f g. pending_key f < pending_key g) ?R"
    using r(2)
  proof (rule sorted_wrt_mono_rel[rotated])
    fix f g
    assume "f \<in> set ?R" "g \<in> set ?R" "f < g"
    then show "pending_key f < pending_key g" using r(1) by (simp add: pending_key_other)
  qed
  moreover have "pending_key f < pending_key g" if fg: "f \<in> set PREFERRED_ORDER" "g \<in> set ?R" for f g
  proof -
    obtain i where "pending_key f = (0, i, [])" using pending_key_listed[OF fg(1)] by blast
    moreover have "pending_key g = (1, 0, g)" using fg(2) unfolding r(1) by (intro pending_key_other) blast
    ultimately show ?thesis by simp
  qed
  moreover have "sorted_wrt (\<lambda>f g. pending_key f < pending_key g) (filter (\<lambda>f. f \<in> F) PREFERRED_ORDER)"
    using sorted_keys_preferred by (rule sorted_wrt_filter)
  ultimately show "sorted_wrt (\<lambda>f g. pending_key f < pending_key g) (queue_order F)"
    unfolding queue_order_def sorted_wrt_append set_filter by blast
  show "set (queue_order F) = F" unfolding queue_order_def set_append r(1) set_filter by blast
qed

lemma set_fromkeys [simp]: "set (fromkeys xs) = set xs" and distinct_fromkeys [simp]: "distinct (fromkeys xs)"
  by (simp_all add: fromkeys_def)

lemma sort_pending: "sort_key pending_key (fromkeys xs) = queue_order (set xs)"
proof -
  let ?q = "queue_order (set xs)"
  note q = sorted_queue_order[of "set xs"]
  have "distinct (map pending_key ?q)" "sorted (map pending_key ?q)"
    using q(1) strict_sorted_iff[of "map pending_key ?q"] by (simp_all add: sorted_wrt_map)
  moreover have d: "distinct (map pending_key (fromkeys xs))"
    by (auto simp: distinct_map intro!: inj_onI dest: pending_key_inj)
  ultimately have "map pending_key (sort_key pending_key (fromkeys xs)) = map pending_key ?q"
    using q(2) by (intro sorted_distinct_set_unique) (simp_all add: distinct_map)
  then show ?thesis by (rule map_injective) (auto intro!: injI dest: pending_key_inj)
qed

section \<open>The plan\<close>

lemma plan_days_spec:
  assumes "0 < n" and "n dvd i"
  shows "concat (map snd (plan_days n i xs)) = drop i xs \<and>
    (\<forall>(d, fs) \<in> set (plan_days n i xs). fs \<noteq> [] \<and> length fs \<le> n) \<and>
    map fst (plan_days n i xs) = map (\<lambda>j. i div n + 1 + j) [0..<(length xs - i + n - 1) div n]"
  using assms
proof (induction n i xs rule: plan_days.induct)
  case (1 n i xs)
  show ?case
  proof (cases "length xs \<le> i")
    case True
    then show ?thesis using 1(2) by (subst (1 2 3) plan_days.simps) simp
  next
    case False
    let ?k = "(length xs - (i + n) + n - 1) div n"
    have IH: "concat (map snd (plan_days n (i + n) xs)) = drop (i + n) xs"
      "\<forall>(d, fs) \<in> set (plan_days n (i + n) xs). fs \<noteq> [] \<and> length fs \<le> n"
      "map fst (plan_days n (i + n) xs) = map (\<lambda>j. (i + n) div n + 1 + j) [0..<?k]"
      using 1 False by simp_all
    have step: "plan_days n i xs = (i div n + 1, take n (drop i xs)) # plan_days n (i + n) xs"
      using 1(2) False by (subst plan_days.simps) simp
    have len: "(length xs - i + n - 1) div n = Suc ?k"
    proof (cases "length xs \<le> i + n")
      case True
      then have k: "?k = 0" using 1(2) by simp
      have "(length xs - i + n - 1) div n = Suc ((length xs - i - 1) div n)"
        using 1(2) False div_add_self2[of n "length xs - i - 1"] by (simp add: algebra_simps)
      with True False 1(2) k show ?thesis by simp
    next
      case f: False
      then have "length xs - i + n - 1 = (length xs - (i + n) + n - 1) + n" using 1(2) by simp
      then show ?thesis using 1(2) by (simp only: div_add_self2)
    qed
    have shift: "map f [0..<Suc k] = f 0 # map (\<lambda>j. f (Suc j)) [0..<k]" for f :: "nat \<Rightarrow> nat" and k
      by (simp only: upt_conv_Cons map_Suc_upt[symmetric] zero_less_Suc list.map map_map comp_def)
    have "map fst (plan_days n i xs) = map (\<lambda>j. i div n + 1 + j) [0..<(length xs - i + n - 1) div n]"
      unfolding len shift step list.map fst_conv IH(3) using 1(2) div_add_self2[of n i] by simp
    moreover have "concat (map snd (plan_days n i xs)) = drop i xs"
      unfolding step list.map snd_conv concat.simps IH(1) by (metis add.commute append_take_drop_id drop_drop)
    moreover have "\<forall>(d, fs) \<in> set (plan_days n i xs). fs \<noteq> [] \<and> length fs \<le> n"
      using IH(2) 1(2) False by (simp add: step)
    ultimately show ?thesis by blast
  qed
qed

section \<open>Properties\<close>

text \<open>
  The queue is the set of pending files in one fixed order. When git reports its status, the files that
  the status lines name, without duplicates, come out with the files of \<open>PREFERRED_ORDER\<close> first, in the
  order of that list, and all others after them in alphabetical order.
\<close>

lemma pending_files_ordered:
  assumes "run h git_status w = ((0, out, err), w')" and "py_strip out \<noteq> []"
    and "F = (\<Union>line \<in> set (splitlines (py_strip out)). set (line_files h w' line))"
  shows "get_pending_files h w = (filter (\<lambda>f. f \<in> F) PREFERRED_ORDER @ sorted_list_of_set (F - set PREFERRED_ORDER), w')"
proof -
  have "set (concat (map (line_files h w') (splitlines (py_strip out)))) = F" by (simp add: assms(3))
  then show ?thesis using assms(1,2) sort_pending[of "concat (map (line_files h w') (splitlines (py_strip out)))"]
    by (simp add: get_pending_files_def run_cmd_def queue_order_def)
qed

definition sample_host :: "string \<Rightarrow> string list \<Rightarrow> unit host" where
  "sample_host status files = \<lparr>run = (\<lambda>cmd w. ((0, if cmd = git_status then status else [], []), w)),
     is_dir = (\<lambda>w p. False), is_file = (\<lambda>w p. p \<in> set files), path_exists = (\<lambda>w p. p \<in> set files),
     rglob = (\<lambda>w p. [])\<rparr>"

definition sample_status :: string where
  "sample_status = ''?? zz.py'' @ [CHR 0x0A] @ ''?? README.md'' @ [CHR 0x0A] @ ''?? app/config.py'' @ [CHR 0x0A]"

lemma pending_files_ordered_witness:
  "get_pending_files (sample_host sample_status [''zz.py'', ''README.md'', ''app/config.py'']) () =
     ([''app/config.py'', ''README.md'', ''zz.py''], ())"
proof -
  let ?h = "sample_host sample_status [''zz.py'', ''README.md'', ''app/config.py'']"
  let ?F = "{''zz.py'', ''README.md'', ''app/config.py''}"
  have r: "run ?h git_status () = ((0, sample_status, []), ())" by (simp add: sample_host_def)
  have s: "splitlines (py_strip sample_status) = [''?? zz.py'', ''?? README.md'', ''?? app/config.py'']"
    and ne: "py_strip sample_status \<noteq> []" by code_simp+
  have "line_files ?h () ''?? zz.py'' = [''zz.py'']" "line_files ?h () ''?? README.md'' = [''README.md'']"
    "line_files ?h () ''?? app/config.py'' = [''app/config.py'']" by code_simp+
  then have F: "?F = (\<Union>line \<in> set (splitlines (py_strip sample_status)). set (line_files ?h () line))" by (simp add: s insert_commute)
  have "filter (\<lambda>f. f \<in> ?F) PREFERRED_ORDER = [''app/config.py'', ''README.md'']" by code_simp
  moreover have "''zz.py'' \<notin> set PREFERRED_ORDER" "''README.md'' \<in> set PREFERRED_ORDER" "''app/config.py'' \<in> set PREFERRED_ORDER"
    by code_simp+
  then have "?F - set PREFERRED_ORDER = {''zz.py''}" by auto
  ultimately show ?thesis using pending_files_ordered[OF r ne F] by simp
qed

text \<open>
  C40. The first modified file is overlooked. The output of git is stripped before it is split into
  lines, so a first line that begins with a blank (a file modified but not staged) loses it, and the path
  is cut one character too late: with one such file pending, the queue is empty (unless the shortened
  name is a file or directory too), and \<open>push_batch\<close> reports success without a commit.
\<close>

theorem first_modified_file_lost:
  assumes "run h git_status w = ((0, '' M '' @ path @ [CHR 0x0A], err), w')"
    and "list_all (\<lambda>c. \<not> py_isspace c) path" and "path \<noteq> []"
    and "\<not> is_dir h w' (strip_by (\<lambda>c. c = CHR 0x22) (tl path))"
    and "\<not> is_file h w' (strip_by (\<lambda>c. c = CHR 0x22) (tl path))"
  shows "get_pending_files h w = ([], w') \<and> push_batch h n dry f w = (True, w')"
proof -
  have nosp: "dropWhile py_isspace xs = xs" if "list_all (\<lambda>c. \<not> py_isspace c) xs" for xs
    using that by (cases xs) simp_all
  have M: "\<not> py_isspace CHR ''M''" "py_isspace CHR '' ''" "py_isspace CHR 0x0A" by code_simp+
  have rp: "list_all (\<lambda>c. \<not> py_isspace c) (rev path)" "rev path \<noteq> []" using assms(2,3) by (simp_all add: list_all_iff)
  have drop_rev: "dropWhile py_isspace (rev path @ ys) = rev path @ ys" for ys
    using rp by (cases "rev path") simp_all
  have out: "py_strip ('' M '' @ path @ [CHR 0x0A]) = ''M '' @ path"
    by (simp add: py_strip_def strip_by_def M drop_rev)
  have brk: "\<not> line_break c" if "\<not> py_isspace c" for c using that by (auto simp: line_break_def py_isspace_def Let_def)
  have lines: "splitlines_from acc xs = (if acc @ xs = [] then [] else [acc @ xs])"
    if "list_all (\<lambda>c. \<not> line_break c) xs" for acc xs
    using that by (induction xs arbitrary: acc) simp_all
  have "list_all (\<lambda>c. \<not> line_break c) (''M '' @ path)"
    using assms(2) brk by (auto simp: list_all_iff line_break_def)
  from lines[OF this, of "[]"] have sl: "splitlines (''M '' @ path) = [''M '' @ path]" by (simp add: splitlines_def)
  have tl: "py_strip (tl path) = tl path"
  proof -
    have "list_all (\<lambda>c. \<not> py_isspace c) (tl path)" "list_all (\<lambda>c. \<not> py_isspace c) (rev (tl path))"
      using assms(2) by (cases path; simp add: list_all_iff)+
    then show ?thesis by (simp add: py_strip_def strip_by_def nosp)
  qed
  have "drop 3 (''M '' @ path) = tl path" by (cases path) simp_all
  then have "line_files h w' (''M '' @ path) = []" using assms(4,5) by (simp add: line_files_def tl Let_def)
  then have "get_pending_files h w = ([], w')"
    using assms(1) out[simplified] sl[simplified] by (simp add: get_pending_files_def run_cmd_def fromkeys_def)
  then show ?thesis by (simp add: push_batch_def)
qed

theorem first_modified_file_lost_witness:
  "push_batch (sample_host ('' M README.md'' @ [CHR 0x0A]) [''README.md'']) 3 False None () = (True, ()) \<and>
     get_pending_files (sample_host ('' M README.md'' @ [CHR 0x0A]) [''README.md'']) () = ([], ())"
proof -
  let ?h = "sample_host ('' M README.md'' @ [CHR 0x0A]) [''README.md'']"
  have "run ?h git_status () = ((0, '' M '' @ ''README.md'' @ [CHR 0x0A], []), ())" by (simp add: sample_host_def)
  moreover have "list_all (\<lambda>c. \<not> py_isspace c) ''README.md''" by code_simp
  moreover have "\<not> is_dir ?h () (strip_by (\<lambda>c. c = CHR 0x22) (tl ''README.md''))"
    and "\<not> is_file ?h () (strip_by (\<lambda>c. c = CHR 0x22) (tl ''README.md''))" by code_simp+
  ultimately show ?thesis using first_modified_file_lost[of ?h "()" "''README.md''" "[]" "()"] by blast
qed

text \<open>
  The printed plan puts every pending file on exactly one day, in the order of the queue, with at most the
  given number of files a day and as many days as announced.
\<close>

lemma list_queue_plan:
  assumes "0 < per_day" and "get_pending_files h w = (pending, w')" and "pending \<noteq> []"
  obtains days where "list_queue h per_day w = (Some (int (length days), days), w')"
    and "concat (map snd days) = pending" and "\<forall>(d, fs) \<in> set days. fs \<noteq> [] \<and> length fs \<le> nat per_day"
    and "map fst days = [1..<length days + 1]"
proof -
  let ?n = "nat per_day"
  let ?days = "plan_days ?n 0 pending"
  have n: "0 < ?n" using assms(1) by simp
  have s: "concat (map snd ?days) = pending" "\<forall>(d, fs) \<in> set ?days. fs \<noteq> [] \<and> length fs \<le> ?n"
    "map fst ?days = map (\<lambda>j. 1 + j) [0..<(length pending + ?n - 1) div ?n]"
    using plan_days_spec[OF n, of 0 pending] by simp_all
  have len: "length ?days = (length pending + ?n - 1) div ?n" using arg_cong[OF s(3), of length] by simp
  have "map fst ?days = [1..<length ?days + 1]" using s(3) unfolding len by (simp add: map_Suc_upt)
  moreover have "(int (length pending) + per_day - 1) div per_day = int (length ?days)"
    unfolding len using assms(1) n by (simp add: zdiv_int of_nat_diff)
  ultimately show thesis using assms s(1,2) by (intro that[of ?days]) (simp_all add: list_queue_def)
qed

text \<open>A dry run issues no command but the status query.\<close>

lemma dry_run_commits_nothing: "commit_files h True fs w = (Some [], w)"
  by (induction fs) simp_all

lemma dry_run_only_asks: "push_batch h n True f w = (True, snd (run h git_status w))"
  by (auto simp: push_batch_def dry_run_commits_nothing get_pending_files_def run_cmd_def split: prod.split)

end
