(* ===== verification/Spec2Isabelle.thy ===== *)
theory Spec2Isabelle
  imports Announcements Digest Environment Races KeyRace DailyPush
begin

text \<open>
  A verification of the payments engine under \<open>src/app\<close>: a FastAPI service that keeps a double-entry
  ledger, takes payments through a payment service provider, refunds them, receives the provider's
  webhooks, relays an outbox of events and audits itself. The migrations under \<open>src/alembic\<close> and the
  developer script \<open>src/scripts/daily_push.py\<close> are modelled too.

  The parts and how they interact. A payment request (\<open>PaymentService.create\<close>) claims an idempotency
  key and moves the amount from the payer to the suspense account in one transaction, calls the provider
  outside every transaction, and settles (suspense to payee), reverses (suspense to payer) or leaves the
  payment AUTHORIZED in a second transaction. A webhook or the expiry of stale holds resolves an
  AUTHORIZED payment later. Refunds move money from the payee back to the payer. Every movement goes
  through \<open>LedgerService.post\<close>, every status change writes an outbox row, which the relay publishes.

  The theories, in the order of import, with the code they model:
  \<^item> \<open>Prelude\<close>: collections of simp rules and generic lemmas on lists and rows; \<open>Effects\<close>: the monad \<open>M\<close> of
    the services, a result or a Python exception and the next world.
  \<^item> \<open>Domain\<close>: \<open>domain/enums.py\<close>, \<open>domain/exceptions.py\<close>, the rows of \<open>domain/models.py\<close>.
  \<^item> \<open>Database\<close>: the tables, the constraints and the deferred trigger of the migrations, the sessions of
    \<open>infrastructure/database.py\<close>: pending objects, flush, commit, rollback. The world also holds the clock
    and the supply of fresh UUIDs.
  \<^item> \<open>Schema\<close> and \<open>Migrations\<close>: the tables as the migrations declare them, the migrations as operations on a
    catalog, and the declarations of the models. They show that the schema demands exactly the constraints
    of \<open>Database\<close>, that the migrations work both ways beside other objects, and how the models compare.
  \<^item> \<open>Ledger\<close>: \<open>ledger_service.py\<close>; \<open>Saga\<close>: \<open>payment_saga.py\<close>; \<open>Hashlib\<close>: SHA-256 and HMAC;
    \<open>Idempotency\<close>: \<open>idempotency_service.py\<close> and the Redis lock; \<open>Psp\<close>: the provider clients.
  \<^item> \<open>Foundations\<close>: properties of the ledger, of idempotency keys and of providers.
  \<^item> \<open>Payments\<close>, \<open>Refunds\<close>, \<open>Webhooks\<close>, \<open>Reconciliation\<close>, \<open>Relay\<close>, \<open>Api\<close>: the services and routes of
    these names, each with its properties: what an operation does on every branch, that it succeeds when
    its preconditions hold, that a failing call leaves no trace, that repeating a call is harmless.
  \<^item> \<open>Digest\<close>: the text of \<open>json.dumps\<close> is read back uniquely, so a digest binds the request; \<open>Loads\<close>: the
    scanner of \<open>json.loads\<close>, which the webhook handler calls, and its round trip with \<open>json.dumps\<close>.
  \<^item> \<open>App\<close>: \<open>config.py\<close>, the wiring of \<open>api/dependencies.py\<close>, all routes behind one function \<open>serve\<close>, the
    Redis client, and the lifespan of \<open>main.py\<close> with the relay as a task that is resumed, fails, is stopped
    and cancelled; what an exception does to it follows from the \<open>try\<close> of its loop and the two clauses.
  \<^item> \<open>Environment\<close>: \<open>alembic/env.py\<close>, which runs the migrations offline or on the database of the settings, with
    the interpolation of \<open>%\<close> in the options of a \<open>ConfigParser\<close>.
  \<^item> \<open>Book\<close>: the abstract payment book, in which holding, resolving and refunding are single events;
    \<open>KeyFrame\<close>: which idempotency keys an operation may touch; \<open>Engine\<close>: the step relation that
    interleaves all requests transaction by transaction, with crashes between the two transactions of a
    payment, its invariant \<open>engine_ok\<close> and the refinement of the book. \<open>Announcements\<close>: the journal and the
    outbox of the engine in lockstep, each movement of money with the one event that announces it.
  \<^item> \<open>Locks\<close>: the row locks of the transactions, sessions waiting for one another, and deadlock.
  \<^item> \<open>Contention\<close>: sessions that run the statements of \<open>LedgerService.post\<close> on the balance rows in any
    interleaving. While the rows exist, the row locks make every interleaving equal to transactions that
    run \<open>post\<close> one after the other, so concurrent debits never oversell; without a row they do not.
  \<^item> \<open>TwoPhase\<close>: programs that lock rows in one order, compute on the rows they hold and keep them until they
    end, interleaved in any way: they are serial in the order of their ends, and can all end.
    \<open>Transactions\<close>: holds, resolutions, webhooks and refunds as such programs on payments and balances, each
    proved to do what the code of its service does. \<open>Races\<close>: what follows when they run at the same time.
  \<^item> \<open>KeyRace\<close>: requests under one idempotency key, statement by statement: one owner at most.
  \<^item> \<open>DailyPush\<close>: the developer script.

  Interfaces are locales: \<open>payment_provider\<close> (interpreted by the mock and by Stripe), the key protocol
  of idempotency, the ledger operations the services rely on, \<open>prefix_code\<close> (interpreted by the escapes of
  JSON, by UTF-8 and by hexadecimal bytes), \<open>book_refinement\<close> (interpreted by the engine),
  \<open>ordered_locking\<close> and \<open>row_programs\<close> (interpreted by the transactions of the services).

  Bounds. Amounts and versions are unbounded integers as in Python; the columns are 64 bits wide, and a
  value outside is refused by the constraints of the tables, as PostgreSQL does. Lengths of strings are
  checked the same way. SHA-256 is computed on 32-bit words. The polling loop of the relay runs by turns of
  the event loop, one per element of a list: n + 1 turns, and two more for each batch that fails, publish
  50 * n events. All other definitions are total.

  Parameters. Code outside the repository is an argument: the Stripe server and library, the reply of
  Redis, pydantic's dump and load of models (\<open>codec_ok\<close> states that loading inverts dumping, and
  \<open>dump_request env = model_dump\<close> which fields a request has), what Alembic does inside \<open>context.run_migrations\<close>, git and the file system. \<open>json.loads\<close>
  is modelled up to the values the handler can tell apart: on fractions, NaN and characters above U+00FF
  its result is the argument \<open>loads_beyond\<close>, about which nothing is assumed.

  Where the documents and the code disagree, the code is modelled. \<open>docs/LLD.md\<close> (sections 4 and 10) and
  \<open>docs/PLAN.md\<close> (section 0) promise that the first response is stored for failures too, that a payment
  without funds is left FAILED, that a gateway error reverses the hold and that keys are pruned after a day;
  the code does none of this (\<open>App.failed_request_traceless\<close>, \<open>Payments.create_gateway_error\<close>).

  A transaction of the database is the function \<open>transaction\<close>: it stands for \<open>async with session.begin()\<close> on a
  new session, and that it keeps all or nothing is what SQLAlchemy and PostgreSQL document; in the same way
  the all-or-nothing of a migration stands for \<open>context.begin_transaction\<close>.

  Not modelled: the decoding of a webhook's bytes (the handler is given the text, so the UnicodeDecodeError
  of a body that is not UTF-8 is left out), reading settings from the environment, logging, metrics, the length of sleeps, what an index costs, the connection pools, and
  text with a NUL character, which PostgreSQL refuses. Characters are those below U+0100. The engine
  interleaves whole transactions; that this loses nothing on the rows of payments and balances is shown
  statement by statement in \<open>Races\<close>, where the balance rows exist and the keys differ, and in \<open>Contention\<close> for
  \<open>LedgerService.post\<close> with missing rows; racing claims of one key are the subject of \<open>KeyRace\<close>. The statements
  of the expiry and of the relay are not interleaved one by one; \<open>Locks\<close> shows that the expiry can deadlock.

  This theory holds the properties that span the components.
\<close>

section \<open>Properties of the running engine\<close>

text \<open>
  C1. The engine implements the payment book. Whatever requests, provider answers, webhooks, refunds,
  expiries, relay turns and crashes are interleaved, transaction by transaction, every run of the
  engine is a run of the abstract book, in which funds are held once, each held payment is resolved
  by its own request, a webhook or an expiry, and refunds take only what is left; the invariant of
  the engine (constraints, one PROCESSING payment and one claimed key for each request in flight) holds
  after every step.
\<close>

theorem engine_refines_book:
  assumes "engine_ok env psp e" and "(step env we psp)\<^sup>*\<^sup>* e e'"
  shows "engine_ok env psp e' \<and> book_run UNIV (book_of (tables e)) (book_of (tables e'))"
  using assms(2,1) by (rule engine.reaches)

theorem engine_refines_book_witness:
  "\<exists>e. (step sample_env sample_webhook_env mock_authorize)\<^sup>*\<^sup>* (engine_at sample_world) e \<and>
     engine_ok sample_env mock_authorize e \<and> book_run UNIV (book_of sample_db) (book_of (tables e))"
proof -
  obtain e r where "(step sample_env sample_webhook_env mock_authorize)\<^sup>*\<^sup>* (engine_at sample_world) e"
    by (rule sample_run)
  with engine_refines_book[OF sample_engine_ok(1) this] show ?thesis by auto
qed

text \<open>
  C2. The suspense account holds what is held. As long as no payment names the suspense account as a
  party, the balance of the suspense account is, after every run, the sum of the amounts of the
  payments in status PROCESSING or AUTHORIZED plus what was unaccounted for at the start; so a
  settlement or reversal of a held payment never lacks funds.
\<close>

theorem engine_suspense_exact:
  assumes "engine_ok env psp e" and "book_ok (book_of (tables e))" and "0 \<le> unaccounted (book_of (tables e))"
    and "(step env we psp)\<^sup>*\<^sup>* e e'" and "suspense_apart (book_of (tables e'))"
  shows "balance (tables e') PSP_SUSPENSE_ACCOUNT_ID = held_total (book_of (tables e')) + unaccounted (book_of (tables e)) \<and>
    (\<forall>i p. row_of pay_id i (payments (tables e')) = Some p \<longrightarrow>
       pay_status p \<in> {PaymentStatus.PROCESSING, PaymentStatus.AUTHORIZED} \<longrightarrow>
       pay_amount p \<le> balance (tables e') PSP_SUSPENSE_ACCOUNT_ID)"
  using engine.suspense_exact[OF assms(4,1,2,5)] engine.holds_covered[OF assms(4,1,2,5,3)]
  by (simp add: unaccounted_def holding_def)

theorem engine_suspense_exact_witness:
  "\<exists>e. (step sample_env sample_webhook_env mock_authorize)\<^sup>*\<^sup>* (engine_at (sample_paid PaymentStatus.AUTHORIZED)) e \<and>
     balance (tables e) PSP_SUSPENSE_ACCOUNT_ID = held_total (book_of (tables e))"
proof -
  let ?e = "engine_at (sample_paid PaymentStatus.AUTHORIZED)"
  have "unaccounted (book_of (tables ?e)) = 0" and "suspense_apart (book_of (tables ?e))"
    by (simp_all add: unaccounted_def held_total_def suspense_apart_def PSP_SUSPENSE_ACCOUNT_ID_def)
      (simp_all add: sample_payment_def holding_def)
  with engine_suspense_exact[OF sample_engine_ok(2) _ _ rtranclp.rtrancl_refl, of PaymentStatus.AUTHORIZED]
    sample_book[of PaymentStatus.AUTHORIZED] show ?thesis by fastforce
qed

text \<open>
  C4. Money is neither made nor lost. Over every run the sum of all balances and the difference between
  each balance and the entries of its account do not change, the journal only grows at its end, every
  ledger transaction nets to what it netted, and no balance is negative.
\<close>

theorem engine_conserves_money:
  assumes "engine_ok env psp e" and "(step env we psp)\<^sup>*\<^sup>* e e'"
  shows "total_balance (tables e') = total_balance (tables e) \<and> (\<forall>a. drift (tables e') a = drift (tables e) a) \<and>
    (\<exists>es. ledger_entries (tables e') = ledger_entries (tables e) @ es) \<and>
    (\<forall>t. transaction_net (ledger_entries (tables e')) t = transaction_net (ledger_entries (tables e)) t) \<and>
    (\<forall>a. 0 \<le> balance (tables e') a)"
proof -
  have con: "constraints (tables e)" "constraints (tables e')"
    using assms engine.reaches[OF assms(2,1)] by (simp_all add: engine_ok_def)
  then have "distinct (map bal_account_id (account_balances (tables e)))" by (simp add: constraint_defs)
  with run_ledger_kept[OF assms(2,1)] constraints_balance_range[OF con(2)] show ?thesis
    by (simp add: ledger_kept_def)
qed

theorem engine_conserves_money_witness:
  "\<exists>e. (step sample_env sample_webhook_env mock_authorize)\<^sup>*\<^sup>* (engine_at sample_world) e \<and>
     payments (tables e) \<noteq> [] \<and> total_balance (tables e) = 1050"
proof -
  obtain e r where run: "(step sample_env sample_webhook_env mock_authorize)\<^sup>*\<^sup>* (engine_at sample_world) e"
    and c: "create sample_env mock_authorize ''k'' (sample_request 300) sample_world = (Inr (201, r), store e)"
    by (rule sample_run)
  have "total_balance sample_db = 1050" by code_simp
  moreover from c mock.payment_provider_axioms sample_env_codec sample_key
  have "\<exists>q. row_of pay_id (pres_id r) (payments (tables e)) = Some q" by (rule create_Inr) blast
  then have "payments (tables e) \<noteq> []" by auto
  ultimately show ?thesis using run engine_conserves_money[OF sample_engine_ok(1) run] by auto
qed

text \<open>
  C6. A payment only moves forward. Its parties, amount, currency and merchant never change, its
  status follows PROCESSING, AUTHORIZED, SUCCEEDED or FAILED, REFUNDED in this order, what was
  refunded never shrinks, and a row that is FAILED or REFUNDED is never written again, whatever
  steps the engine takes.
\<close>

theorem engine_lifecycle:
  assumes "engine_ok env psp e" and "(step env we psp)\<^sup>*\<^sup>* e e'" and "row_of pay_id i (payments (tables e)) = Some p"
  shows "\<exists>q. row_of pay_id i (payments (tables e')) = Some q \<and> same_terms p q \<and> leads_to (pay_status p) (pay_status q) \<and>
    pay_refunded_amount p \<le> pay_refunded_amount q \<and>
    (pay_status p \<in> {PaymentStatus.FAILED, PaymentStatus.REFUNDED} \<longrightarrow> q = p)"
proof -
  have "payment_in (book_of (tables e)) i = Some p" using assms(3) by simp
  with assms(2,1) show ?thesis by (rule engine.payment_lives) (auto simp: later_def)
qed

theorem engine_lifecycle_witness:
  "\<exists>e q. (step sample_env sample_webhook_env mock_authorize)\<^sup>*\<^sup>* (engine_at (sample_paid PaymentStatus.AUTHORIZED)) e \<and>
     row_of pay_id (UUID 50) (payments (tables e)) = Some q \<and> pay_status q = PaymentStatus.SUCCEEDED \<and>
     same_terms (sample_payment PaymentStatus.AUTHORIZED) q"
proof -
  let ?p = "sample_payment PaymentStatus.AUTHORIZED"
  obtain e q where run: "(step sample_env sample_webhook_env mock_authorize)\<^sup>*\<^sup>* (engine_at (sample_paid PaymentStatus.AUTHORIZED)) e"
    and q: "row_of pay_id (UUID 50) (payments (tables e)) = Some q" "pay_status q = PaymentStatus.SUCCEEDED"
    by (rule sample_capture_run)
  have "row_of pay_id (UUID 50) (payments (tables (engine_at (sample_paid PaymentStatus.AUTHORIZED)))) = Some ?p"
    by simp (simp add: sample_payment_def)
  from engine_lifecycle[OF sample_engine_ok(2) run this] run q show ?thesis by auto
qed

text \<open>
  C5. Refunds never exceed a payment. After every run from a book in order, the refunds recorded for a
  payment add up to its \<open>refunded_amount\<close>, which is at most its amount; the payment is REFUNDED exactly when
  they are equal, and a payment with a refund was captured.
\<close>

theorem engine_refunds_bounded:
  assumes "engine_ok env psp e" and "book_ok (book_of (tables e))" and "(step env we psp)\<^sup>*\<^sup>* e e'"
    and "row_of pay_id i (payments (tables e')) = Some p"
  shows "sum_list (map rfd_amount (filter (\<lambda>r. rfd_payment_id r = i) (refunds (tables e')))) = pay_refunded_amount p \<and>
    pay_refunded_amount p \<le> pay_amount p \<and>
    (pay_status p = PaymentStatus.REFUNDED \<longleftrightarrow> pay_refunded_amount p = pay_amount p) \<and>
    (0 < pay_refunded_amount p \<longrightarrow>
       pay_status p \<in> {PaymentStatus.SUCCEEDED, PaymentStatus.REFUND_PENDING, PaymentStatus.REFUNDED})"
proof -
  have "p \<in> set (payments (tables e'))" "pay_id p = i" using assms(4) by (auto dest: row_of_SomeD)
  with engine.refunds_add_up[OF assms(3,1,2)] show ?thesis by (auto simp: book_ok_def payment_ok_def refunds_of_def)
qed

theorem engine_refunds_bounded_witness:
  "\<exists>e. (step sample_env sample_webhook_env mock_authorize)\<^sup>*\<^sup>* (engine_at (sample_paid PaymentStatus.SUCCEEDED)) e \<and>
     sum_list (map rfd_amount (filter (\<lambda>r. rfd_payment_id r = UUID 50) (refunds (tables e)))) = 30"
proof -
  obtain e q where run: "(step sample_env sample_webhook_env mock_authorize)\<^sup>*\<^sup>* (engine_at (sample_paid PaymentStatus.SUCCEEDED)) e"
    and q: "row_of pay_id (UUID 50) (payments (tables e)) = Some q" "pay_refunded_amount q = 30" by (rule sample_refund_run)
  have "book_ok (book_of (tables (engine_at (sample_paid PaymentStatus.SUCCEEDED))))" using sample_book by simp
  from engine_refunds_bounded[OF sample_engine_ok(2) this run q(1)] q(2) run show ?thesis by auto
qed

text \<open>
  C3. A payment happens once, whatever runs beside it. When the second transaction of a request in
  flight has returned, then after any further steps of the engine a repetition of the request under
  its key returns the same status code and body and changes no table.
\<close>

theorem engine_exactly_once:
  assumes "engine_ok env psp e" and "flights e pid = Some f" and "psp (fl_payment f) (store e) = (Inr a, s)"
    and "transaction (create_settle env (fl_key f) (fl_request f) pid a) s = (Inr (c, r), t)"
    and "(step env we psp)\<^sup>*\<^sup>* (e\<lparr>store := t, flights := (flights e)(pid := None)\<rparr>) e'"
  shows "\<exists>u. create env psp' (fl_key f) (fl_request f) (store e') = (Inr (c, r), u) \<and> db u = tables e'"
proof -
  let ?e = "e\<lparr>store := t, flights := (flights e)(pid := None)\<rparr>"
  let ?req = "fl_request f"
  have base: "payment_provider psp" "codec_ok env" "flight_ok env (tables e) pid f"
    using assms(1,2) by (simp_all add: engine_ok_def flights_ok_def)
  have "db s = tables e" using payment_provider.authorize_db[OF base(1) assms(3)] .
  then have "create_key (db s) ?req (fl_key f) = Claimed (request_hash env ?req)"
    using base(3) by (simp add: flight_ok_def flight_scope_def)
  with assms(4) have fin: "c = 201"
    "create_key (db t) ?req (fl_key f) = Finished (request_hash env ?req) 201 (dump_payment env r)"
    using base(2) by (rule create_settle_Inr, simp)+
  have "step env we psp e ?e" using assms(2-4) by (rule step.Settle)
  with engine.reaches[of env we psp e ?e] assms(1) have ok: "engine_ok env psp ?e" by auto
  have "create_key (tables e') ?req (fl_key f) = Finished (request_hash env ?req) 201 (dump_payment env r)"
    by (rule run_finished_key[OF assms(5) ok]) (simp add: fin(2))
  moreover have "constraints (tables e')" using engine.reaches[OF assms(5) ok] by (simp add: engine_ok_def)
  moreover have "load_payment env (dump_payment env r) = Inr r" using base(2) by (simp add: codec_ok_def)
  ultimately show ?thesis unfolding fin(1) by (rule create_replayed)
qed

theorem engine_exactly_once_witness:
  "\<exists>e r u. (step sample_env sample_webhook_env mock_authorize)\<^sup>*\<^sup>* (engine_at sample_world) e \<and>
     create sample_env mock_authorize ''k'' (sample_request 300) (store e) = (Inr (201, r), u) \<and> db u = tables e"
proof -
  let ?e0 = "engine_at sample_world"
  obtain r t where c: "create sample_env mock_authorize ''k'' (sample_request 300) (store ?e0) = (Inr (201, r), t)"
    using sample_create by auto
  have "CreatePaymentRequest_valid (sample_request 300)" by (simp add: CreatePaymentRequest_valid_def sample_request_def)
  from this c obtain e1 pid f a s where st: "step sample_env sample_webhook_env mock_authorize ?e0 e1"
    and f: "flights e1 pid = Some f" "fl_key f = ''k''" "fl_request f = sample_request 300"
    and a: "mock_authorize (fl_payment f) (store e1) = (Inr a, s)"
    and tx: "transaction (create_settle sample_env ''k'' (sample_request 300) pid a) s = (Inr (201, r), t)"
    by (rule create_in_flight) (use sample_key in simp_all)
  let ?e2 = "e1\<lparr>store := t, flights := (flights e1)(pid := None)\<rparr>"
  have ok: "engine_ok sample_env mock_authorize e1"
    using engine.reaches[OF r_into_rtranclp[of "step sample_env sample_webhook_env mock_authorize", OF st] sample_engine_ok(1)] ..
  have tx': "transaction (create_settle sample_env (fl_key f) (fl_request f) pid a) s = (Inr (201, r), t)"
    using tx by (simp add: f)
  have "step sample_env sample_webhook_env mock_authorize e1 ?e2" using f(1) a tx' by (rule step.Settle)
  then have run: "(step sample_env sample_webhook_env mock_authorize)\<^sup>*\<^sup>* ?e0 ?e2"
    using st by (auto intro: converse_rtranclp_into_rtranclp)
  from engine_exactly_once[OF ok f(1) a tx' rtranclp.rtrancl_refl, of mock_authorize]
  obtain u where "create sample_env mock_authorize ''k'' (sample_request 300) (store ?e2) = (Inr (201, r), u)" "db u = tables ?e2"
    by (auto simp: f)
  with run show ?thesis by blast
qed

text \<open>
  C21. A refund happens once, whatever runs beside it. When a refund under a new key has returned, then
  after any further steps of the engine, other refunds of the same payment among them, a repetition of the
  request under its key returns the same status code and body and changes no table.
\<close>

theorem engine_refund_once:
  assumes "engine_ok env psp e" and "refund_key (tables e) k = Unused"
    and "process_refund env k pid x (store e) = (Inr (c, r), t)"
    and "(step env we psp)\<^sup>*\<^sup>* (e\<lparr>store := t\<rparr>) e'"
  shows "\<exists>u. process_refund env k pid x (store e') = (Inr (c, r), u) \<and> db u = tables e'"
proof -
  have codec: "codec_ok env" using assms(1) by (simp add: engine_ok_def)
  have v: "RefundRequest_valid x" and tx: "transaction (refund env k pid x) (store e) = (Inr (c, r), t)"
    using assms(3) by (simp_all add: process_refund_def split: if_splits)
  from tx assms(2) codec have "refund_key (db t) k = Finished (refund_hash pid x) c (dump_refund env r)"
    by (rule refund_effect) simp
  moreover have "step env we psp e (e\<lparr>store := t\<rparr>)" using assms(3) by (rule step.Refund)
  with engine.reaches[of env we psp e "e\<lparr>store := t\<rparr>"] assms(1) have ok: "engine_ok env psp (e\<lparr>store := t\<rparr>)" by auto
  ultimately have "refund_key (tables e') k = Finished (refund_hash pid x) c (dump_refund env r)"
    by (intro run_finished_key[OF assms(4)]) simp_all
  moreover have "constraints (tables e')" using engine.reaches[OF assms(4) ok] by (simp add: engine_ok_def)
  moreover have "load_refund env (dump_refund env r) = Inr r" using codec by (simp add: codec_ok_def)
  ultimately have "\<exists>u. transaction (refund env k pid x) (store e') = (Inr (c, r), u) \<and> db u = tables e'"
    by (rule refund_replayed)
  with v show ?thesis by (simp add: process_refund_def)
qed

theorem engine_refund_once_witness:
  "\<exists>c r t u. process_refund sample_env ''r'' (UUID 50) 15 (sample_paid PaymentStatus.SUCCEEDED) = (Inr (c, r), t) \<and>
     process_refund sample_env ''r'' (UUID 50) 15 t = (Inr (c, r), u) \<and> db u = db t"
proof -
  let ?e = "engine_at (sample_paid PaymentStatus.SUCCEEDED)"
  obtain c r t where run: "process_refund sample_env ''r'' (UUID 50) 15 (store ?e) = (Inr (c, r), t)"
    using refund_succeeds[OF sample_can_refund[of 15]] by (auto simp: process_refund_def RefundRequest_valid_def)
  from engine_refund_once[OF sample_engine_ok(2) _ run rtranclp.rtrancl_refl] run
  show ?thesis by auto
qed

text \<open>
  C34. Held money can be taken. Nothing stops a request whose payer is the suspense account: when it is
  captured, its amount leaves the suspense account for the payee although no payment was resolved, so
  what the held payments account for stays and the money for it is gone.
\<close>

theorem suspense_payer_takes_holds:
  assumes "payment_provider psp" and "codec_ok env" and "key_state (db s) (req_merchantId req) k = Unused"
    and "create env psp k req s = (Inr (c, r), t)" and "req_payerAccountId req = PSP_SUSPENSE_ACCOUNT_ID"
    and "req_payeeAccountId req \<noteq> PSP_SUSPENSE_ACCOUNT_ID" and "pres_status r = PaymentStatus.SUCCEEDED"
  shows "held_total (book_of (db t)) = held_total (book_of (db s)) \<and>
    balance (db t) PSP_SUSPENSE_ACCOUNT_ID = balance (db s) PSP_SUSPENSE_ACCOUNT_ID - req_amount req \<and>
    balance (db t) (req_payeeAccountId req) = balance (db s) (req_payeeAccountId req) + req_amount req"
proof -
  from assms(4,1,3) obtain q where q: "payments (db t) = payments (db s) @ [q]" "r = to_response q"
    by (rule create_appends)
  have "held_total (book_of (db t)) = held_total (book_of (db s))"
    using assms(7) q by (simp add: held_total_def holding_def to_response_def)
  moreover from assms(4,1,2,3) have "balance (db t) a = balance (db s) a +
      moved (pres_status r) (req_payerAccountId req) (req_payeeAccountId req) (req_amount req) a" for a
    by (rule create_Inr)
  ultimately show ?thesis using assms(5-7) by simp
qed

theorem suspense_payer_takes_holds_witness:
  "\<exists>r t. create sample_env mock_authorize ''k'' suspense_request (sample_paid PaymentStatus.AUTHORIZED) = (Inr (201, r), t) \<and>
     held_total (book_of (db t)) = 40 \<and> balance (db t) PSP_SUSPENSE_ACCOUNT_ID = 0"
proof -
  let ?s = "sample_paid PaymentStatus.AUTHORIZED"
  from create_mock_succeeds[OF _ suspense_can_create] obtain r t
    where c: "create sample_env mock_authorize ''k'' suspense_request ?s = (Inr (201, r), t)" by auto
  have un: "key_state (db ?s) (req_merchantId suspense_request) ''k'' = Unused" by simp
  from c mock.payment_provider_axioms sample_env_codec un obtain a p s1 s2
    where "pres_status r = resolved_status (ar_outcome a)" "mock_authorize p s1 = (Inr a, s2)"
      "pay_amount p = req_amount suspense_request" by (rule create_Inr) blast
  with mock_outcome[of p s1 a s2] have st: "pres_status r = PaymentStatus.SUCCEEDED"
    by (simp add: mock_status_def suspense_request_def)
  have "held_total (book_of (db ?s)) = 40"
    by (simp add: held_total_def) (simp add: sample_payment_def holding_def)
  moreover have "req_payerAccountId suspense_request = PSP_SUSPENSE_ACCOUNT_ID"
    "req_payeeAccountId suspense_request \<noteq> PSP_SUSPENSE_ACCOUNT_ID" "req_amount suspense_request = 40"
    by (simp_all add: suspense_request_def PSP_SUSPENSE_ACCOUNT_ID_def)
  moreover have "balance (db ?s) PSP_SUSPENSE_ACCOUNT_ID = 40" by (simp add: PSP_SUSPENSE_ACCOUNT_ID_def)
  ultimately show ?thesis
    using suspense_payer_takes_holds[OF mock.payment_provider_axioms sample_env_codec un c _ _ st] c by auto
qed

end
